(* ===== verification/Prelude.thy ===== *)
theory Prelude
  imports Main "HOL-Library.AList" "HOL-Library.Multiset"
begin

section \<open>Shared vocabulary\<close>

text \<open>
  What every component of the development uses: the names of the model's basic types, the
  collections of simplification rules the component proofs draw on, and generic lemmas about
  lists, association lists and filters that several components share.

  Conventions. A Go string is a sequence of bytes, here a \<open>char list\<close> (an Isabelle character
  is one byte). An error value is the text of its message. A Go \<open>time.Time\<close> is an instant,
  counted in nanoseconds from the Unix epoch; its location and its monotonic reading are not
  modelled. A pointer that may be nil is an option. A Go map is an association list with distinct
  keys: the order of the list stands for the order in which a \<open>range\<close> loop visits the map,
  which the language leaves open, so every statement quantifies over it.
\<close>

type_synonym gostring = string
type_synonym goerror = string
type_synonym instant = int
type_synonym duration = int

named_theorems store_simps "unfolding rules for the persistence layer"
named_theorems status_simps "constants of the finding lifecycle"

text \<open>The zero \<open>time.Time\<close>: midnight of 1 January of year 1, in UTC.\<close>

definition time_zero :: instant where
  "time_zero = - 62135596800 * 1000000000"

definition IsZero :: "instant \<Rightarrow> bool" where
  "IsZero t \<longleftrightarrow> t = time_zero"

abbreviation second :: duration where "second \<equiv> 1000000000"
abbreviation minute :: duration where "minute \<equiv> 60 * second"
abbreviation hour :: duration where "hour \<equiv> 60 * minute"

subsection \<open>Association lists\<close>

lemma map_of_update: "map_of (AList.update k v al) = (map_of al)(k \<mapsto> v)"
  by (rule AList.update_conv')

lemma distinct_keys_update [intro]:
  "distinct (map fst al) \<Longrightarrow> distinct (map fst (AList.update k v al))"
  by (rule AList.distinct_update)

lemma map_of_delete_key: "map_of (filter (\<lambda>p. fst p \<noteq> k) al) = (map_of al)(k := None)"
  by (induction al) (auto simp: fun_eq_iff)

lemma map_of_eq_Some_distinct:
  "distinct (map fst al) \<Longrightarrow> map_of al k = Some v \<longleftrightarrow> (k, v) \<in> set al"
  by (metis map_of_eq_Some_iff)

lemma distinct_map_filter: "distinct (map f xs) \<Longrightarrow> distinct (map f (filter P xs))"
  by (induction xs) auto

lemma set_update_keys: "fst ` set (AList.update k v al) = insert k (fst ` set al)"
  by (simp add: map_of_update flip: dom_map_of_conv_image_fst)

lemma set_update_subset: "p \<in> set (AList.update k v al) \<Longrightarrow> p = (k, v) \<or> p \<in> set al"
  by (induction al) (auto split: if_splits)

lemma snd_imageI [intro]: "(a, b) \<in> A \<Longrightarrow> b \<in> snd ` A"
  by force

lemma option_ext: "(\<And>r. x = Some r \<longleftrightarrow> y = Some r) \<Longrightarrow> x = y"
  by (cases x; cases y) auto

subsection \<open>Lists and filters\<close>

lemma length_filter_lt: "x \<in> set xs \<Longrightarrow> \<not> P x \<Longrightarrow> length (filter P xs) < length xs"
  by (rule length_filter_less)

lemma distinct_map_inj_on:
  "distinct (map f xs) \<Longrightarrow> x \<in> set xs \<Longrightarrow> y \<in> set xs \<Longrightarrow> f x = f y \<Longrightarrow> x = y"
  by (auto simp: distinct_map inj_on_def)

lemma sum_list_filter_le: "sum_list (map f (filter P xs)) \<le> sum_list (map (f :: 'a \<Rightarrow> nat) xs)"
  by (induction xs) auto

subsection \<open>Results that may be errors\<close>

definition is_ok :: "'e + 'a \<Rightarrow> bool" where
  "is_ok r \<longleftrightarrow> (case r of Inl _ \<Rightarrow> False | Inr _ \<Rightarrow> True)"

lemma is_ok_simps [simp]: "is_ok (Inr x)" "\<not> is_ok (Inl e)"
  by (simp_all add: is_ok_def)

end
