(* ===== verification/GoStrings.thy ===== *)
theory GoStrings
  imports Prelude "HOL-Library.Char_ord" "HOL-Library.List_Lexorder"
begin

section \<open>What the program uses of Go's string library\<close>

text \<open>
  The functions of \<open>strings\<close>, \<open>strconv\<close>, \<open>fmt\<close>, \<open>unicode/utf8\<close> and
  \<open>encoding/hex\<close> that the program calls, on byte strings. \<open>TrimSpace\<close> knows every
  white-space rune of Unicode by its UTF-8 encoding. \<open>ToLower\<close> maps the ASCII letters; the
  letters of other alphabets, which Go's function maps too, are left as they are. Runes are kept
  in their encoded form: \<open>go_runes\<close> cuts a string as a Go \<open>range\<close> loop does, an invalid
  byte becoming the replacement character.
\<close>

subsection \<open>Bytes\<close>

definition byte :: "char \<Rightarrow> nat" where
  "byte c = of_char c"

definition mkbyte :: "nat \<Rightarrow> char" where
  "mkbyte n = char_of n"

lemma byte_less: "byte c < 256"
  by (simp add: byte_def)

lemma byte_mkbyte: "n < 256 \<Longrightarrow> byte (mkbyte n) = n"
  by (simp add: byte_def mkbyte_def)

lemma byte_inject: "byte c = byte d \<longleftrightarrow> c = d"
  by (simp add: byte_def)

lemma mkbyte_inject: "m < 256 \<Longrightarrow> n < 256 \<Longrightarrow> mkbyte m = mkbyte n \<longleftrightarrow> m = n"
  by (metis byte_mkbyte)

text \<open>A string without zero bytes, which the stores' composite keys can be told apart by.\<close>

definition no_nul :: "gostring \<Rightarrow> bool" where
  "no_nul s \<longleftrightarrow> mkbyte 0 \<notin> set s"

subsection \<open>Prefixes and suffixes\<close>

definition HasPrefix :: "gostring \<Rightarrow> gostring \<Rightarrow> bool" where
  "HasPrefix s p \<longleftrightarrow> take (length p) s = p"

definition HasSuffix :: "gostring \<Rightarrow> gostring \<Rightarrow> bool" where
  "HasSuffix s p \<longleftrightarrow> length p \<le> length s \<and> drop (length s - length p) s = p"

definition TrimPrefix :: "gostring \<Rightarrow> gostring \<Rightarrow> gostring" where
  "TrimPrefix s p = (if HasPrefix s p then drop (length p) s else s)"

definition TrimSuffix :: "gostring \<Rightarrow> gostring \<Rightarrow> gostring" where
  "TrimSuffix s p = (if HasSuffix s p then take (length s - length p) s else s)"

lemma HasPrefix_iff: "HasPrefix s p \<longleftrightarrow> (\<exists>r. s = p @ r)"
  by (metis HasPrefix_def append_eq_conv_conj)

lemma HasSuffix_iff: "HasSuffix s p \<longleftrightarrow> (\<exists>r. s = r @ p)"
proof
  assume "HasSuffix s p"
  then show "\<exists>r. s = r @ p"
    by (metis HasSuffix_def append_take_drop_id)
next
  assume "\<exists>r. s = r @ p"
  then show "HasSuffix s p" by (auto simp: HasSuffix_def)
qed

lemma HasPrefix_append [simp]: "HasPrefix (p @ r) p"
  by (auto simp: HasPrefix_iff)

lemma HasSuffix_append [simp]: "HasSuffix (r @ p) p"
  by (auto simp: HasSuffix_iff)

lemma HasSuffix_refl [simp]: "HasSuffix s s"
  by (simp add: HasSuffix_def)

lemma TrimPrefix_append [simp]: "TrimPrefix (p @ r) p = r"
  by (simp add: TrimPrefix_def)

lemma HasSuffix_trans: "HasSuffix s t \<Longrightarrow> HasSuffix t u \<Longrightarrow> HasSuffix s u"
  by (auto simp: HasSuffix_iff)

subsection \<open>Searching\<close>

text \<open>\<open>strings.Index\<close>: the offset of the first occurrence; -1 is \<open>None\<close>.\<close>

fun Index :: "gostring \<Rightarrow> gostring \<Rightarrow> nat option" where
  "Index [] p = (if p = [] then Some 0 else None)"
| "Index (c # s) p = (if HasPrefix (c # s) p then Some 0 else map_option Suc (Index s p))"

definition Contains :: "gostring \<Rightarrow> gostring \<Rightarrow> bool" where
  "Contains s p \<longleftrightarrow> Index s p \<noteq> None"

text \<open>\<open>strings.IndexAny\<close> and the one-byte \<open>strings.LastIndex\<close>.\<close>

fun IndexAny :: "gostring \<Rightarrow> gostring \<Rightarrow> nat option" where
  "IndexAny [] cs = None"
| "IndexAny (c # s) cs = (if c \<in> set cs then Some 0 else map_option Suc (IndexAny s cs))"

fun LastIndexByte :: "gostring \<Rightarrow> char \<Rightarrow> nat option" where
  "LastIndexByte [] x = None"
| "LastIndexByte (c # s) x =
     (case LastIndexByte s x of
        Some i \<Rightarrow> Some (Suc i)
      | None \<Rightarrow> if c = x then Some 0 else None)"

lemma Index_Some_split: "Index s p = Some i \<Longrightarrow> \<exists>u v. s = u @ p @ v \<and> length u = i"
proof (induction s arbitrary: i)
  case Nil
  then show ?case by (auto split: if_splits)
next
  case (Cons c s)
  show ?case
  proof (cases "HasPrefix (c # s) p")
    case True
    then obtain v where "c # s = p @ v" by (auto simp: HasPrefix_iff)
    with True Cons.prems show ?thesis by (metis Index.simps(2) append_Nil list.size(3) option.inject)
  next
    case False
    with Cons.prems obtain j where j: "Index s p = Some j" "i = Suc j" by auto
    from Cons.IH [OF j(1)] obtain u v where "s = u @ p @ v" "length u = j" by blast
    then have "c # s = (c # u) @ p @ v \<and> length (c # u) = i" using j(2) by simp
    then show ?thesis by blast
  qed
qed

lemma Contains_iff: "Contains s p \<longleftrightarrow> (\<exists>u v. s = u @ p @ v)"
proof
  assume "Contains s p"
  then show "\<exists>u v. s = u @ p @ v" by (auto simp: Contains_def) (metis Index_Some_split)
next
  assume "\<exists>u v. s = u @ p @ v"
  then obtain u v where s: "s = u @ p @ v" by blast
  have "Index (u @ p @ v) p \<noteq> None"
  proof (induction u)
    case Nil
    have "HasPrefix (p @ v) p" by simp
    then show ?case by (cases "p @ v") (auto simp del: HasPrefix_append)
  next
    case (Cons c u)
    then show ?case by auto
  qed
  with s show "Contains s p" by (simp add: Contains_def)
qed

lemma Contains_single [simp]: "Contains s [c] \<longleftrightarrow> c \<in> set s"
  by (auto simp: Contains_iff in_set_conv_decomp)

lemma IndexAny_None_iff: "IndexAny s cs = None \<longleftrightarrow> set s \<inter> set cs = {}"
  by (induction s) auto

lemma IndexAny_Some_take: "IndexAny s cs = Some i \<Longrightarrow> set (take i s) \<inter> set cs = {}"
  by (induction s arbitrary: i) (auto split: if_splits)

lemma LastIndexByte_None_iff: "LastIndexByte s x = None \<longleftrightarrow> x \<notin> set s"
  by (induction s) (auto split: option.splits if_splits)

lemma LastIndexByte_Some_less: "LastIndexByte s x = Some i \<Longrightarrow> i < length s"
  by (induction s arbitrary: i) (auto split: option.splits if_splits)

subsection \<open>Case and white space\<close>

definition lower_char :: "char \<Rightarrow> char" where
  "lower_char c = (if 65 \<le> byte c \<and> byte c \<le> 90 then mkbyte (byte c + 32) else c)"

definition ToLower :: "gostring \<Rightarrow> gostring" where
  "ToLower s = map lower_char s"

lemma lower_char_idem: "lower_char (lower_char c) = lower_char c"
  by (auto simp: lower_char_def byte_mkbyte)

lemma ToLower_idem: "ToLower (ToLower s) = ToLower s"
  by (simp add: ToLower_def lower_char_idem)

lemma length_ToLower [simp]: "length (ToLower s) = length s"
  by (simp add: ToLower_def)

text \<open>The UTF-8 encodings of the runes for which \<open>unicode.IsSpace\<close> holds.\<close>

definition space_runes :: "gostring list" where
  "space_runes =
     map (\<lambda>n. [mkbyte n]) [9, 10, 11, 12, 13, 32] @
     [[mkbyte 0xC2, mkbyte 0x85], [mkbyte 0xC2, mkbyte 0xA0], [mkbyte 0xE1, mkbyte 0x9A, mkbyte 0x80]] @
     map (\<lambda>n. [mkbyte 0xE2, mkbyte 0x80, mkbyte n])
       [0x80, 0x81, 0x82, 0x83, 0x84, 0x85, 0x86, 0x87, 0x88, 0x89, 0x8A, 0xA8, 0xA9, 0xAF] @
     [[mkbyte 0xE2, mkbyte 0x81, mkbyte 0x9F], [mkbyte 0xE3, mkbyte 0x80, mkbyte 0x80]]"

definition leading_space :: "gostring \<Rightarrow> nat option" where
  "leading_space s = map_option length (find (\<lambda>w. HasPrefix s w) space_runes)"

definition trailing_space :: "gostring \<Rightarrow> nat option" where
  "trailing_space s = map_option length (find (\<lambda>w. HasSuffix s w) space_runes)"

lemma space_runes_nonempty: "w \<in> set space_runes \<Longrightarrow> w \<noteq> []"
  by (auto simp: space_runes_def)

lemma leading_space_Some:
  "leading_space s = Some n \<Longrightarrow> 0 < n \<and> n \<le> length s"
  by (auto simp: leading_space_def find_Some_iff HasPrefix_iff
      dest: nth_mem space_runes_nonempty)

lemma trailing_space_Some:
  "trailing_space s = Some n \<Longrightarrow> 0 < n \<and> n \<le> length s"
  by (auto simp: trailing_space_def find_Some_iff HasSuffix_iff
      dest: nth_mem space_runes_nonempty)

function TrimLeftSpace :: "gostring \<Rightarrow> gostring" where
  "TrimLeftSpace s =
     (case leading_space s of None \<Rightarrow> s | Some n \<Rightarrow> TrimLeftSpace (drop n s))"
  by pat_completeness auto
termination
  by (relation "measure length") (auto dest!: leading_space_Some)

function TrimRightSpace :: "gostring \<Rightarrow> gostring" where
  "TrimRightSpace s =
     (case trailing_space s of None \<Rightarrow> s | Some n \<Rightarrow> TrimRightSpace (take (length s - n) s))"
  by pat_completeness auto
termination
  by (relation "measure length") (auto dest!: trailing_space_Some)

declare TrimLeftSpace.simps [simp del] TrimRightSpace.simps [simp del]

definition TrimSpace :: "gostring \<Rightarrow> gostring" where
  "TrimSpace s = TrimRightSpace (TrimLeftSpace s)"

lemma TrimLeftSpace_suffix: "\<exists>u. s = u @ TrimLeftSpace s"
proof (induction s rule: TrimLeftSpace.induct)
  case (1 s)
  show ?case
  proof (cases "leading_space s")
    case None
    then show ?thesis by (simp add: TrimLeftSpace.simps [of s])
  next
    case (Some n)
    with 1 obtain u where "drop n s = u @ TrimLeftSpace (drop n s)" by blast
    then have "\<exists>w. s = w @ TrimLeftSpace (drop n s)"
      by (metis append.assoc append_take_drop_id)
    with Some show ?thesis by (simp add: TrimLeftSpace.simps [of s])
  qed
qed

lemma TrimRightSpace_prefix: "\<exists>u. s = TrimRightSpace s @ u"
proof (induction s rule: TrimRightSpace.induct)
  case (1 s)
  show ?case
  proof (cases "trailing_space s")
    case None
    then show ?thesis by (simp add: TrimRightSpace.simps [of s])
  next
    case (Some n)
    with 1 obtain u where "take (length s - n) s = TrimRightSpace (take (length s - n) s) @ u"
      by blast
    then have "\<exists>w. s = TrimRightSpace (take (length s - n) s) @ w"
      by (metis append.assoc append_take_drop_id)
    with Some show ?thesis by (simp add: TrimRightSpace.simps [of s])
  qed
qed

lemma set_TrimSpace: "set (TrimSpace s) \<subseteq> set s"
proof -
  obtain u where "s = u @ TrimLeftSpace s" using TrimLeftSpace_suffix by blast
  moreover obtain v where "TrimLeftSpace s = TrimRightSpace (TrimLeftSpace s) @ v"
    using TrimRightSpace_prefix by blast
  ultimately show ?thesis unfolding TrimSpace_def by (metis Un_iff set_append subsetI)
qed

lemma length_TrimSpace: "length (TrimSpace s) \<le> length s"
proof -
  obtain u where "s = u @ TrimLeftSpace s" using TrimLeftSpace_suffix by blast
  then have "length (TrimLeftSpace s) \<le> length s" by (metis le_add2 length_append)
  moreover obtain v where "TrimLeftSpace s = TrimRightSpace (TrimLeftSpace s) @ v"
    using TrimRightSpace_prefix by blast
  then have "length (TrimRightSpace (TrimLeftSpace s)) \<le> length (TrimLeftSpace s)"
    by (metis le_add1 length_append)
  ultimately show ?thesis by (simp add: TrimSpace_def)
qed

lemma TrimSpace_no_space:
  "leading_space s = None \<Longrightarrow> trailing_space s = None \<Longrightarrow> TrimSpace s = s"
  by (simp add: TrimSpace_def TrimLeftSpace.simps [of s] TrimRightSpace.simps [of s])

text \<open>Visible ASCII has nothing to trim.\<close>

definition visible :: "gostring \<Rightarrow> bool" where
  "visible s \<longleftrightarrow> (\<forall>c \<in> set s. 32 < byte c \<and> byte c < 128)"

lemma visible_append [simp]: "visible (s @ t) \<longleftrightarrow> visible s \<and> visible t"
  by (auto simp: visible_def)

lemma visible_Cons: "visible (c # s) \<longleftrightarrow> 32 < byte c \<and> byte c < 128 \<and> visible s"
  by (auto simp: visible_def)

lemma visible_Nil [simp]: "visible []"
  by (simp add: visible_def)

lemma space_runes_invisible: "w \<in> set space_runes \<Longrightarrow> \<not> visible w"
proof -
  have "list_all (\<lambda>w. \<not> visible w) space_runes"
    by (simp add: space_runes_def visible_def byte_mkbyte)
  then show "w \<in> set space_runes \<Longrightarrow> \<not> visible w" by (simp add: list_all_iff)
qed

lemma TrimSpace_visible: "visible s \<Longrightarrow> TrimSpace s = s"
  by (intro TrimSpace_no_space)
    (auto simp: leading_space_def trailing_space_def find_None_iff HasPrefix_iff HasSuffix_iff
      dest!: space_runes_invisible)

lemma byte_lower_char: "byte (lower_char c) = (if 65 \<le> byte c \<and> byte c \<le> 90 then byte c + 32 else byte c)"
  by (simp add: lower_char_def byte_mkbyte)

lemma visible_ToLower: "visible (ToLower s) \<longleftrightarrow> visible s"
  by (auto simp: visible_def ToLower_def byte_lower_char split: if_splits)

text \<open>\<open>strings.TrimRight\<close> with a cut set of single bytes.\<close>

definition TrimRight :: "gostring \<Rightarrow> gostring \<Rightarrow> gostring" where
  "TrimRight s cs = rev (dropWhile (\<lambda>c. c \<in> set cs) (rev s))"

subsection \<open>Splitting and joining\<close>

text \<open>\<open>strings.Split\<close> with a one-byte separator, and \<open>strings.SplitN\<close> with limit 2.\<close>

fun SplitByte :: "gostring \<Rightarrow> char \<Rightarrow> gostring list" where
  "SplitByte [] x = [[]]"
| "SplitByte (c # s) x =
     (if c = x then [] # SplitByte s x
      else (case SplitByte s x of [] \<Rightarrow> [[c]] | w # ws \<Rightarrow> (c # w) # ws))"

definition SplitN2 :: "gostring \<Rightarrow> char \<Rightarrow> gostring list" where
  "SplitN2 s x =
     (if x \<in> set s then [takeWhile (\<lambda>c. c \<noteq> x) s, tl (dropWhile (\<lambda>c. c \<noteq> x) s)] else [s])"

fun JoinStrings :: "gostring list \<Rightarrow> gostring \<Rightarrow> gostring" where
  "JoinStrings [] sep = []"
| "JoinStrings [w] sep = w"
| "JoinStrings (w # ws) sep = w @ sep @ JoinStrings ws sep"

lemma SplitByte_nonempty: "SplitByte s x \<noteq> []"
  by (cases s) (auto split: list.splits)

lemma SplitByte_no_sep: "w \<in> set (SplitByte s x) \<Longrightarrow> x \<notin> set w"
  by (induction s x arbitrary: w rule: SplitByte.induct) (auto split: if_splits list.splits)

lemma JoinStrings_SplitByte: "JoinStrings (SplitByte s x) [x] = s"
proof (induction s x rule: SplitByte.induct)
  case (1 x)
  then show ?case by simp
next
  case (2 c s x)
  obtain w ws where sp: "SplitByte s x = w # ws"
    by (meson SplitByte_nonempty list.exhaust)
  then show ?case using 2 by (cases ws) auto
qed

lemma SplitN2_append: "x \<notin> set u \<Longrightarrow> SplitN2 (u @ x # v) x = [u, v]"
  by (induction u) (auto simp: SplitN2_def)

subsection \<open>Numbers\<close>

fun show_nat :: "nat \<Rightarrow> gostring" where
  "show_nat n = (if n < 10 then [mkbyte (48 + n)] else show_nat (n div 10) @ [mkbyte (48 + n mod 10)])"

declare show_nat.simps [simp del]

definition show_int :: "int \<Rightarrow> gostring" where
  "show_int i = (if i < 0 then mkbyte 45 # show_nat (nat (- i)) else show_nat (nat i))"

fun read_nat :: "gostring \<Rightarrow> nat" where
  "read_nat s = foldl (\<lambda>n c. 10 * n + (byte c - 48)) 0 s"

lemma read_show_nat: "read_nat (show_nat n) = n"
proof (induction n rule: show_nat.induct)
  case (1 n)
  show ?case
  proof (cases "n < 10")
    case True
    then show ?thesis by (simp add: show_nat.simps [of n] byte_mkbyte)
  next
    case False
    with 1 have "read_nat (show_nat (n div 10)) = n div 10" by blast
    with False show ?thesis
      by (simp add: show_nat.simps [of n] byte_mkbyte)
  qed
qed

lemma show_nat_inject: "show_nat m = show_nat n \<longleftrightarrow> m = n"
  by (metis read_show_nat)

lemma show_nat_digits: "c \<in> set (show_nat n) \<Longrightarrow> 48 \<le> byte c \<and> byte c \<le> 57"
proof (induction n rule: show_nat.induct)
  case (1 n)
  have "n mod 10 \<le> 9" by (simp add: less_Suc_eq_le flip: less_Suc_eq_le)
  with 1 show ?case
    by (cases "n < 10") (auto simp: show_nat.simps [of n] byte_mkbyte)
qed

text \<open>\<open>encoding/hex\<close>: two lower-case digits for every byte.\<close>

definition hex_digit :: "nat \<Rightarrow> char" where
  "hex_digit n = (if n < 10 then mkbyte (48 + n) else mkbyte (87 + n))"

definition hex_encode :: "gostring \<Rightarrow> gostring" where
  "hex_encode s = concat (map (\<lambda>c. [hex_digit (byte c div 16), hex_digit (byte c mod 16)]) s)"

lemma hex_digit_inject:
  "m < 16 \<Longrightarrow> n < 16 \<Longrightarrow> hex_digit m = hex_digit n \<longleftrightarrow> m = n"
  by (auto simp: hex_digit_def mkbyte_inject)

lemma length_hex_encode [simp]: "length (hex_encode s) = 2 * length s"
  by (induction s) (auto simp: hex_encode_def)

lemma hex_encode_inject: "hex_encode s = hex_encode t \<longleftrightarrow> s = t"
proof (induction s arbitrary: t)
  case Nil
  then show ?case by (cases t) (auto simp: hex_encode_def)
next
  case (Cons c s)
  show ?case
  proof (cases t)
    case Nil
    then show ?thesis by (simp add: hex_encode_def)
  next
    case (Cons d t')
    have "byte c div 16 = byte d div 16 \<and> byte c mod 16 = byte d mod 16 \<longleftrightarrow> c = d"
      by (metis byte_inject div_mult_mod_eq)
    moreover have "byte x div 16 < 16" "byte x mod 16 < 16" for x
      using byte_less [of x] by auto
    ultimately show ?thesis
      using Cons Cons.IH [of t'] by (auto simp: hex_encode_def hex_digit_inject)
  qed
qed

subsection \<open>Runes\<close>

definition byte_in :: "nat \<Rightarrow> nat \<Rightarrow> char \<Rightarrow> bool" where
  "byte_in lo hi c \<longleftrightarrow> lo \<le> byte c \<and> byte c \<le> hi"

text \<open>
  The width of the rune a string starts with, as \<open>utf8.DecodeRuneInString\<close> finds it; \<open>None\<close>
  for an invalid or truncated encoding, which counts as one byte.
\<close>

definition rune_shape :: "nat \<Rightarrow> nat \<times> nat \<times> nat" where
  "rune_shape b =
     (if b < 0x80 then (1, 0, 0)
      else if b < 0xC2 then (0, 0, 0)
      else if b \<le> 0xDF then (2, 0x80, 0xBF)
      else if b = 0xE0 then (3, 0xA0, 0xBF)
      else if b = 0xED then (3, 0x80, 0x9F)
      else if b \<le> 0xEF then (3, 0x80, 0xBF)
      else if b = 0xF0 then (4, 0x90, 0xBF)
      else if b \<le> 0xF3 then (4, 0x80, 0xBF)
      else if b = 0xF4 then (4, 0x80, 0x8F)
      else (0, 0, 0))"

fun rune_width :: "gostring \<Rightarrow> nat option" where
  "rune_width [] = None"
| "rune_width (c # s) =
     (case rune_shape (byte c) of (w, lo, hi) \<Rightarrow>
        if w = 0 then None
        else if w = 1 then Some 1
        else if length s < w - 1 then None
        else if byte_in lo hi (hd s) \<and> list_all (byte_in 0x80 0xBF) (take (w - 2) (tl s))
        then Some w
        else None)"

lemma rune_shape_le: "fst (rune_shape b) \<le> 4"
  by (simp add: rune_shape_def)

lemma rune_width_Some_iff:
  "rune_width s = Some n \<longleftrightarrow>
     (\<exists>c t lo hi. s = c # t \<and> rune_shape (byte c) = (n, lo, hi) \<and> n \<noteq> 0 \<and> n \<le> length s
        \<and> (n = 1 \<or> byte_in lo hi (hd t) \<and> list_all (byte_in 0x80 0xBF) (take (n - 2) (tl t))))"
  by (cases s) (auto split: prod.splits if_splits)

declare rune_width.simps [simp del]

definition replacement_rune :: gostring where
  "replacement_rune = [mkbyte 0xEF, mkbyte 0xBF, mkbyte 0xBD]"

text \<open>\<open>[]rune(s)\<close>, every rune as the bytes that encode it.\<close>

function go_runes :: "gostring \<Rightarrow> gostring list" where
  "go_runes [] = []"
| "go_runes (c # s) =
     (case rune_width (c # s) of
        None \<Rightarrow> replacement_rune # go_runes s
      | Some n \<Rightarrow> take n (c # s) # go_runes (drop (n - 1) s))"
  by pat_completeness auto
termination
  by (relation "measure length") auto

text \<open>One complete encoding: the strings a list of runes consists of.\<close>

definition is_rune :: "gostring \<Rightarrow> bool" where
  "is_rune r \<longleftrightarrow> rune_width r = Some (length r)"

lemma rune_width_bounds: "rune_width s = Some n \<Longrightarrow> 1 \<le> n \<and> n \<le> 4 \<and> n \<le> length s"
  by (auto simp: rune_width_Some_iff) (metis fst_conv rune_shape_le)

lemma rune_width_ascii: "byte c < 0x80 \<Longrightarrow> rune_width (c # s) = Some 1"
  by (simp add: rune_width_Some_iff rune_shape_def)

lemma rune_width_append: "rune_width r = Some n \<Longrightarrow> rune_width (r @ t) = Some n"
proof -
  assume "rune_width r = Some n"
  then obtain c u lo hi where r: "r = c # u" "rune_shape (byte c) = (n, lo, hi)" "n \<noteq> 0"
      "n \<le> Suc (length u)"
      "n = 1 \<or> byte_in lo hi (hd u) \<and> list_all (byte_in 0x80 0xBF) (take (n - 2) (tl u))"
    by (auto simp: rune_width_Some_iff)
  have "hd (u @ t) = hd u \<and> take (n - 2) (tl (u @ t)) = take (n - 2) (tl u)" if "n \<noteq> 1"
    using that r(3,4) by (cases u) auto
  with r show ?thesis by (auto simp: rune_width_Some_iff)
qed

lemma rune_width_take: "rune_width s = Some n \<Longrightarrow> rune_width (take n s) = Some n"
proof -
  assume "rune_width s = Some n"
  then obtain c u lo hi where s: "s = c # u" "rune_shape (byte c) = (n, lo, hi)" "n \<noteq> 0"
      "n \<le> Suc (length u)"
      "n = 1 \<or> byte_in lo hi (hd u) \<and> list_all (byte_in 0x80 0xBF) (take (n - 2) (tl u))"
    by (auto simp: rune_width_Some_iff)
  obtain m where n: "n = Suc m" using s(3) by (cases n) auto
  have "hd (take m u) = hd u \<and> take (n - 2) (tl (take m u)) = take (n - 2) (tl u)" if "n \<noteq> 1"
    using that s(4) n by (cases u; cases m) auto
  with s n show ?thesis by (auto simp: rune_width_Some_iff)
qed

lemma is_rune_replacement [simp]: "is_rune replacement_rune"
  by (simp add: is_rune_def replacement_rune_def byte_in_def byte_mkbyte rune_width_Some_iff
      rune_shape_def)

lemma is_rune_nonempty: "is_rune r \<Longrightarrow> r \<noteq> []"
  by (auto simp: is_rune_def rune_width.simps)

lemma is_rune_length: "is_rune r \<Longrightarrow> length r \<le> 4"
  by (auto simp: is_rune_def dest: rune_width_bounds)

lemma is_rune_take: "rune_width s = Some n \<Longrightarrow> is_rune (take n s)"
  using rune_width_take [of s n] rune_width_bounds [of s n] by (simp add: is_rune_def)

lemma go_runes_is_rune: "r \<in> set (go_runes s) \<Longrightarrow> is_rune r"
proof (induction s rule: go_runes.induct)
  case 1
  then show ?case by simp
next
  case (2 c s)
  show ?case
  proof (cases "rune_width (c # s)")
    case None
    with 2 show ?thesis by auto
  next
    case (Some n)
    with 2 show ?thesis using is_rune_take [OF Some] by auto
  qed
qed

lemma go_runes_append: "is_rune r \<Longrightarrow> go_runes (r @ s) = r # go_runes s"
  using rune_width_append [of r "length r" s]
  by (cases r) (auto simp: is_rune_def rune_width.simps(1))

lemma go_runes_concat: "\<forall>r \<in> set rs. is_rune r \<Longrightarrow> go_runes (concat rs) = rs"
  by (induction rs) (auto simp: go_runes_append)

definition valid_utf8 :: "gostring \<Rightarrow> bool" where
  "valid_utf8 s \<longleftrightarrow> concat (go_runes s) = s"

lemma valid_utf8_concat: "\<forall>r \<in> set rs. is_rune r \<Longrightarrow> valid_utf8 (concat rs)"
  by (simp add: valid_utf8_def go_runes_concat)

text \<open>Invalid bytes replaced, as any conversion through runes does.\<close>

definition utf8_clean :: "gostring \<Rightarrow> gostring" where
  "utf8_clean s = concat (go_runes s)"

lemma go_runes_utf8_clean: "go_runes (utf8_clean s) = go_runes s"
  by (simp add: utf8_clean_def go_runes_concat go_runes_is_rune)

lemma utf8_clean_idem [simp]: "utf8_clean (utf8_clean s) = utf8_clean s"
  by (metis go_runes_utf8_clean utf8_clean_def)

lemma valid_utf8_iff_clean: "valid_utf8 s \<longleftrightarrow> utf8_clean s = s"
  by (simp add: valid_utf8_def utf8_clean_def)

lemma length_go_runes: "length (go_runes s) \<le> length s"
proof (induction s rule: go_runes.induct)
  case (2 c s)
  show ?case
  proof (cases "rune_width (c # s)")
    case (Some n)
    with "2.IH"(2) [OF Some] show ?thesis by auto
  qed (use 2 in auto)
qed simp

lemma go_runes_ascii: "\<forall>c \<in> set s. byte c < 0x80 \<Longrightarrow> go_runes s = map (\<lambda>c. [c]) s"
  by (induction s) (auto simp: rune_width_ascii)

end
