(* ===== verification/GoJson.thy ===== *)
theory GoJson
  imports GoStrings
begin

section \<open>JSON values and \<open>json.Marshal\<close>\<close>

text \<open>
  Go values of type \<open>any\<close> as the program's evidence maps hold them, and the part of
  \<open>encoding/json\<close> that encodes them: object keys in sorted order, strings with the HTML-safe
  escapes, an invalid byte as the escape of the replacement character.
\<close>

text \<open>
  \<open>AOther\<close> stands for a value of any further Go type, by the JSON value it marshals to
  (\<open>None\<close> when it does not marshal). \<open>ANum\<close> is a value of an integer type. \<open>AFloat\<close> is a
  \<open>float32\<close>, a \<open>float64\<close> or a \<open>json.Number\<close>, by the text it is written as, \<open>None\<close> when
  \<open>json.Marshal\<close> refuses it (NaN, an infinity, an invalid literal); a \<open>json.Number\<close> beyond the range of
  a \<open>float64\<close>, which can be written but not read back, is left out. A map is an association list, in
  any order.
\<close>

datatype jany =
    ANil
  | ABool bool
  | ANum int
  | AStr gostring
  | AStrs "gostring list"
  | AList "jany list"
  | AMap "(gostring \<times> jany) list"
  | AOther "jany option"
  | AFloat "gostring option"

text \<open>\<open>map[string]any\<close>: \<open>None\<close> is the nil map.\<close>

type_synonym evidence = "(gostring \<times> jany) list option"

definition backslash :: char where "backslash = mkbyte 0x5C"
definition dquote :: char where "dquote = mkbyte 0x22"

definition hex4_low :: "nat \<Rightarrow> gostring" where
  "hex4_low b = backslash # ''u00'' @ [hex_digit (b div 16), hex_digit (b mod 16)]"

definition json_escape :: "gostring \<Rightarrow> gostring" where
  "json_escape r =
     (case r of
        [c] \<Rightarrow>
          (let b = byte c in
           if b = 0x5C \<or> b = 0x22 then [backslash, c]
           else if b = 8 then [backslash, CHR ''b'']
           else if b = 12 then [backslash, CHR ''f'']
           else if b = 10 then [backslash, CHR ''n'']
           else if b = 13 then [backslash, CHR ''r'']
           else if b = 9 then [backslash, CHR ''t'']
           else if b < 0x20 \<or> b = 0x3C \<or> b = 0x3E \<or> b = 0x26 then hex4_low b
           else [c])
      | _ \<Rightarrow>
          if r = [mkbyte 0xE2, mkbyte 0x80, mkbyte 0xA8] then backslash # ''u2028''
          else if r = [mkbyte 0xE2, mkbyte 0x80, mkbyte 0xA9] then backslash # ''u2029''
          else r)"

function json_chars :: "gostring \<Rightarrow> gostring" where
  "json_chars [] = []"
| "json_chars (c # s) =
     (case rune_width (c # s) of
        None \<Rightarrow> (backslash # ''ufffd'') @ json_chars s
      | Some n \<Rightarrow> json_escape (take n (c # s)) @ json_chars (drop (n - 1) s))"
  by pat_completeness auto
termination
  by (relation "measure length") auto

definition json_string :: "gostring \<Rightarrow> gostring" where
  "json_string s = dquote # json_chars s @ [dquote]"

text \<open>Printable ASCII without the characters JSON text escapes is copied as it is.\<close>

definition plain_char :: "char \<Rightarrow> bool" where
  "plain_char c \<longleftrightarrow> 0x20 \<le> byte c \<and> byte c < 0x80 \<and> byte c \<notin> {0x22, 0x26, 0x3C, 0x3E, 0x5C}"

lemma json_chars_plain: "list_all plain_char s \<Longrightarrow> json_chars s = s"
  by (induction s) (auto simp: plain_char_def rune_width_ascii json_escape_def Let_def)

lemma length_json_string_plain: "list_all plain_char s \<Longrightarrow> length (json_string s) = length s + 2"
  by (simp add: json_string_def json_chars_plain)

definition json_array :: "gostring list \<Rightarrow> gostring" where
  "json_array ws = ''['' @ JoinStrings ws '','' @ '']''"

definition json_object :: "(gostring \<times> gostring) list \<Rightarrow> gostring" where
  "json_object kvs =
     ''{'' @ JoinStrings (map (\<lambda>(k, v). json_string k @ '':'' @ v) (sort_key fst kvs)) '','' @ ''}''"

fun collect :: "'a option list \<Rightarrow> 'a list option" where
  "collect [] = Some []"
| "collect (None # xs) = None"
| "collect (Some x # xs) = map_option ((#) x) (collect xs)"

fun json_marshal :: "jany \<Rightarrow> gostring option" where
  "json_marshal ANil = Some ''null''"
| "json_marshal (ABool b) = Some (if b then ''true'' else ''false'')"
| "json_marshal (ANum i) = Some (show_int i)"
| "json_marshal (AStr s) = Some (json_string s)"
| "json_marshal (AStrs ss) = Some (json_array (map json_string ss))"
| "json_marshal (AList vs) = map_option json_array (collect (map json_marshal vs))"
| "json_marshal (AMap kvs) =
     map_option json_object
       (collect (map (\<lambda>(k, v). map_option (Pair k) (json_marshal v)) kvs))"
| "json_marshal (AOther None) = None"
| "json_marshal (AOther (Some v)) = json_marshal v"
| "json_marshal (AFloat None) = None"
| "json_marshal (AFloat (Some t)) = Some t"

text \<open>
  The JSON value a Go value denotes: what is left of it after a trip through JSON text, the
  integers kept exact, the other numbers by their text, invalid bytes replaced, two keys that become equal kept apart.
\<close>

fun json_value :: "jany \<Rightarrow> jany option" where
  "json_value (AStr s) = Some (AStr (utf8_clean s))"
| "json_value (AStrs ss) = Some (AList (map (\<lambda>s. AStr (utf8_clean s)) ss))"
| "json_value (AList vs) = map_option AList (collect (map json_value vs))"
| "json_value (AMap kvs) =
     map_option AMap (collect (map (\<lambda>(k, v). map_option (Pair (utf8_clean k)) (json_value v)) kvs))"
| "json_value (AOther None) = None"
| "json_value (AOther (Some v)) = json_value v"
| "json_value (AFloat None) = None"
| "json_value v = Some v"

lemma collect_eq_None_iff: "collect xs = None \<longleftrightarrow> None \<in> set xs"
  by (induction xs rule: collect.induct) auto

lemma collect_Some_map: "collect xs = Some ys \<Longrightarrow> xs = map Some ys"
  by (induction xs arbitrary: ys rule: collect.induct) auto

lemma collect_map_Some [simp]: "collect (map Some ys) = Some ys"
  by (induction ys) auto

lemma collect_eq_Some_iff: "collect xs = Some ys \<longleftrightarrow> xs = map Some ys"
  by (auto dest: collect_Some_map)

text \<open>A value marshals exactly when it denotes a JSON value.\<close>

lemma json_marshal_iff_value: "(\<exists>t. json_marshal v = Some t) \<longleftrightarrow> (\<exists>w. json_value v = Some w)"
proof -
  have "json_marshal v = None \<longleftrightarrow> json_value v = None"
  proof (induction v rule: json_marshal.induct)
    case (6 vs)
    have "json_marshal v = None \<longleftrightarrow> json_value v = None" if "v \<in> set vs" for v
      using 6 that by blast
    then show ?case by (force simp: collect_eq_None_iff)
  next
    case (7 kvs)
    have "json_marshal v = None \<longleftrightarrow> json_value v = None" if "(k, v) \<in> set kvs" for k v
      using 7 that by (metis (no_types, lifting))
    then show ?case by (force simp: collect_eq_None_iff image_iff)
  qed auto
  then show ?thesis by (metis not_None_eq)
qed

text \<open>JSON values are their own meaning, so a second trip changes nothing.\<close>

lemma json_value_idem: "json_value v = Some w \<Longrightarrow> json_value w = Some w"
proof (induction v arbitrary: w rule: json_value.induct)
  case (2 ss)
  have "collect (map json_value (map (\<lambda>s. AStr (utf8_clean s)) ss)) =
      Some (map (\<lambda>s. AStr (utf8_clean s)) ss)"
    by (induction ss) auto
  with 2 show ?case by auto
next
  case (3 vs)
  then obtain ws where ws: "map json_value vs = map Some ws" "w = AList ws"
    by (auto simp: collect_eq_Some_iff)
  have "json_value x = Some x" if "x \<in> set ws" for x
    using that ws(1) 3(1) by (metis (no_types, lifting) image_iff image_set)
  then have "map json_value ws = map Some ws" by simp
  with ws(2) show ?case by (simp add: collect_eq_Some_iff)
next
  case (4 kvs)
  then obtain ws
    where ws: "map (\<lambda>(k, v). map_option (Pair (utf8_clean k)) (json_value v)) kvs = map Some ws"
      "w = AMap ws"
    by (auto simp: collect_eq_Some_iff)
  have "utf8_clean k = k \<and> json_value y = Some y" if "(k, y) \<in> set ws" for k y
  proof -
    from that have "Some (k, y) \<in> set (map Some ws)" by simp
    then obtain k' v where "(k', v) \<in> set kvs" "json_value v = Some y" "k = utf8_clean k'"
      unfolding ws(1) [symmetric] by (auto simp: map_option_case split: option.splits)
    with 4(1) show ?thesis by auto
  qed
  then have "map (\<lambda>(k, v). map_option (Pair (utf8_clean k)) (json_value v)) ws = map Some ws"
    by auto
  with ws(2) show ?case by (simp add: collect_eq_Some_iff)
qed auto

end
