(* ===== verification/CoreFinding.thy ===== *)
theory CoreFinding
  imports GoJson
begin

section \<open>The finding contract (\<open>core/finding.go\<close>, \<open>core/collector.go\<close>)\<close>

text \<open>
  The normalised finding every part of the program passes around, its severities and lifecycle
  states, the check a finding must pass before it is stored, and the identity
  (\<open>Fingerprint\<close>) that lets two scans agree on "the same problem". The SHA-256 digest is a
  parameter of \<open>Fingerprint\<close>: a function from bytes to bytes.
\<close>

subsection \<open>Severities\<close>

type_synonym severity = gostring

definition SeverityCritical :: severity where [status_simps]: "SeverityCritical = ''critical''"
definition SeverityHigh :: severity where [status_simps]: "SeverityHigh = ''high''"
definition SeverityMedium :: severity where [status_simps]: "SeverityMedium = ''medium''"
definition SeverityLow :: severity where [status_simps]: "SeverityLow = ''low''"
definition SeverityInfo :: severity where [status_simps]: "SeverityInfo = ''info''"

definition rank :: "severity \<Rightarrow> int" where
  "rank s =
     (if s = SeverityCritical then 4
      else if s = SeverityHigh then 3
      else if s = SeverityMedium then 2
      else if s = SeverityLow then 1
      else if s = SeverityInfo then 0
      else -1)"

definition Valid :: "severity \<Rightarrow> bool" where
  "Valid s \<longleftrightarrow> rank s \<ge> 0"

definition known_severities :: "severity set" where
  "known_severities = {SeverityCritical, SeverityHigh, SeverityMedium, SeverityLow, SeverityInfo}"

lemma Valid_iff: "Valid s \<longleftrightarrow> s \<in> known_severities"
  by (auto simp: Valid_def rank_def known_severities_def)

lemma rank_inj: "Valid s \<Longrightarrow> Valid t \<Longrightarrow> rank s = rank t \<Longrightarrow> s = t"
  by (auto simp: Valid_def rank_def split: if_splits)

lemma rank_bounds: "-1 \<le> rank s \<and> rank s \<le> 4"
  by (simp add: rank_def)

subsection \<open>Lifecycle states\<close>

type_synonym finding_status = gostring

definition StatusOpen :: finding_status where [status_simps]: "StatusOpen = ''open''"
definition StatusResolved :: finding_status where [status_simps]: "StatusResolved = ''resolved''"
definition StatusAcknowledged :: finding_status where [status_simps]: "StatusAcknowledged = ''acknowledged''"
definition StatusSuppressed :: finding_status where [status_simps]: "StatusSuppressed = ''suppressed''"

lemma status_distinct [simp]:
  "StatusOpen \<noteq> StatusResolved" "StatusResolved \<noteq> StatusOpen"
  "StatusOpen \<noteq> StatusAcknowledged" "StatusAcknowledged \<noteq> StatusOpen"
  "StatusOpen \<noteq> StatusSuppressed" "StatusSuppressed \<noteq> StatusOpen"
  "StatusResolved \<noteq> StatusAcknowledged" "StatusAcknowledged \<noteq> StatusResolved"
  "StatusResolved \<noteq> StatusSuppressed" "StatusSuppressed \<noteq> StatusResolved"
  "StatusAcknowledged \<noteq> StatusSuppressed" "StatusSuppressed \<noteq> StatusAcknowledged"
  by (simp_all add: status_simps)

subsection \<open>Findings\<close>

record finding =
  fingerprint :: gostring
  target :: gostring
  check :: gostring
  title :: gostring
  severity :: severity
  remediation :: gostring
  evidence :: evidence
  finding_id :: gostring
  finding_module :: gostring
  status :: finding_status
  groupID :: "gostring option"
  firstSeen :: instant
  lastSeen :: instant
  resolvedAt :: "instant option"

definition MaxEvidenceBytes :: nat where
  "MaxEvidenceBytes = 64 * 1024"

record ingest_error =
  Field :: gostring
  Reason :: gostring

definition ingest_error_Error :: "ingest_error \<Rightarrow> goerror" where
  "ingest_error_Error e = ''invalid finding: '' @ Field e @ '': '' @ Reason e"

definition ValidateForIngest :: "('a finding_scheme) \<Rightarrow> ingest_error option" where
  "ValidateForIngest f =
     (if fingerprint f = [] then Some \<lparr>Field = ''fingerprint'', Reason = ''empty''\<rparr>
      else if target f = [] then Some \<lparr>Field = ''target'', Reason = ''empty''\<rparr>
      else if check f = [] then Some \<lparr>Field = ''check'', Reason = ''empty''\<rparr>
      else if title f = [] then Some \<lparr>Field = ''title'', Reason = ''empty''\<rparr>
      else if remediation f = [] then
        Some \<lparr>Field = ''remediation'',
              Reason = ''empty (every finding must tell the user what to do)''\<rparr>
      else if \<not> Valid (severity f) then
        Some \<lparr>Field = ''severity'', Reason = ''unknown value: '' @ severity f\<rparr>
      else None)"

definition well_formed :: "('a finding_scheme) \<Rightarrow> bool" where
  "well_formed f \<longleftrightarrow>
     fingerprint f \<noteq> [] \<and> target f \<noteq> [] \<and> check f \<noteq> [] \<and> title f \<noteq> [] \<and> remediation f \<noteq> []
     \<and> severity f \<in> known_severities"

lemma ValidateForIngest_None_iff: "ValidateForIngest f = None \<longleftrightarrow> well_formed f"
  by (simp add: ValidateForIngest_def well_formed_def Valid_iff)

text \<open>The field an ingest error names is the first one, in the order of the checks, that fails.\<close>

lemma ValidateForIngest_Field:
  "ValidateForIngest f = Some e \<Longrightarrow>
     Field e \<in> {''fingerprint'', ''target'', ''check'', ''title'', ''remediation'', ''severity''}"
  by (auto simp: ValidateForIngest_def split: if_splits)

subsection \<open>Fingerprints\<close>

text \<open>The byte string that is hashed, and the identity: half of the digest, in hex.\<close>

definition fingerprint_key :: "gostring \<Rightarrow> gostring \<Rightarrow> gostring \<Rightarrow> gostring \<Rightarrow> gostring" where
  "fingerprint_key module_id tgt chk discriminator =
     module_id @ ''|'' @ tgt @ ''|'' @ chk @ ''|'' @ discriminator"

definition Fingerprint ::
  "(gostring \<Rightarrow> gostring) \<Rightarrow> gostring \<Rightarrow> gostring \<Rightarrow> gostring \<Rightarrow> gostring \<Rightarrow> gostring" where
  "Fingerprint sha256 module_id tgt chk discriminator =
     hex_encode (take 16 (sha256 (fingerprint_key module_id tgt chk discriminator)))"

text \<open>
  The key determines its parts as long as the separator does not occur in the first three of
  them: the split at the first separator is the module, and so on.
\<close>

lemma append_sep_inject:
  assumes "x \<notin> set u" "x \<notin> set u'"
  shows "u @ x # v = u' @ x # v' \<longleftrightarrow> u = u' \<and> v = v'"
proof
  have tw: "x \<notin> set w \<Longrightarrow> takeWhile (\<lambda>c. c \<noteq> x) (w @ x # z) = w" for w z
    by (induction w) auto
  assume eq: "u @ x # v = u' @ x # v'"
  then have "u = u'" using tw [OF assms(1), of v] tw [OF assms(2), of v'] by simp
  with eq show "u = u' \<and> v = v'" by simp
qed simp

lemma fingerprint_key_inject:
  assumes "CHR ''|'' \<notin> set m \<union> set t \<union> set c" "CHR ''|'' \<notin> set m' \<union> set t' \<union> set c'"
  shows "fingerprint_key m t c d = fingerprint_key m' t' c' d'
           \<longleftrightarrow> m = m' \<and> t = t' \<and> c = c' \<and> d = d'"
  using assms by (auto simp: fingerprint_key_def append_sep_inject)

lemma length_Fingerprint:
  "length (sha256 (fingerprint_key m t c d)) = 32 \<Longrightarrow> length (Fingerprint sha256 m t c d) = 32"
  by (simp add: Fingerprint_def)

subsection \<open>Collector metadata and targets (\<open>core/collector.go\<close>)\<close>

record module_info =
  module_ID :: gostring
  module_Name :: gostring
  module_Version :: gostring
  TargetKind :: gostring
  DefaultInterval :: duration
  ResolveAfter :: int

definition ResolveAfterOrDefault :: "module_info \<Rightarrow> int" where
  "ResolveAfterOrDefault m = (if ResolveAfter m < 1 then 1 else ResolveAfter m)"

lemma ResolveAfterOrDefault_pos: "1 \<le> ResolveAfterOrDefault m"
  by (simp add: ResolveAfterOrDefault_def)

record scan_target =
  Raw :: gostring
  Canonical :: gostring
  Meta :: "(gostring \<times> gostring) list"

record change =
  Kind :: gostring
  change_Finding :: finding
  Detail :: gostring

end
