(* ===== verification/FindingStore.thy ===== *)
theory FindingStore
  imports CoreFinding
begin

section \<open>The store interface and its in-memory implementation (\<open>store/store.go\<close>, \<open>store/memory.go\<close>)\<close>

text \<open>
  A \<open>frec\<close> is a finding with the bookkeeping of the reconcile engine. Every operation of the
  \<open>Store\<close> interface takes the store and returns its result, which may be an error, with the
  store after it. The locale \<open>finding_store\<close> states what the engine and the dashboard may rely
  on; \<open>MemStore\<close> is its first implementation.
\<close>

record frec = finding +
  absentStreak :: int

text \<open>\<open>r.Finding\<close>, the embedded struct of a record.\<close>

abbreviation finding_of :: "frec \<Rightarrow> finding" where
  "finding_of r \<equiv> finding.truncate r"

text \<open>The key \<open>(Module, Fingerprint)\<close> a record is stored under.\<close>

definition rkey :: "frec \<Rightarrow> gostring \<times> gostring" where
  "rkey r = (finding_module r, fingerprint r)"

text \<open>
  Two versions of one record: the fields that an update never changes agree.
\<close>

definition same_identity :: "frec \<Rightarrow> frec \<Rightarrow> bool" where
  "same_identity r o' \<longleftrightarrow>
     finding_id r = finding_id o' \<and> target r = target o' \<and> check r = check o'
     \<and> firstSeen r = firstSeen o'"

subsection \<open>The interface\<close>

text \<open>
  \<open>lookup\<close> is the abstract content of the store, \<open>good\<close> the store's own invariant,
  \<open>accepts\<close> the module ids it can keep apart, and \<open>keep\<close> what it keeps of a finding's
  evidence (\<open>None\<close> when the evidence cannot be stored). An operation that reports an error
  leaves the content as it was.
\<close>

locale finding_store =
  fixes list_by_target :: "gostring \<Rightarrow> gostring \<Rightarrow> 's \<Rightarrow> (goerror + frec list) \<times> 's"
    and upsert :: "frec \<Rightarrow> 's \<Rightarrow> goerror option \<times> 's"
    and get :: "gostring \<Rightarrow> gostring \<Rightarrow> 's \<Rightarrow> (goerror + frec option) \<times> 's"
    and list_open :: "gostring \<Rightarrow> 's \<Rightarrow> (goerror + frec list) \<times> 's"
    and list_all_recs :: "gostring \<Rightarrow> 's \<Rightarrow> (goerror + frec list) \<times> 's"
    and lookup :: "'s \<Rightarrow> gostring \<times> gostring \<Rightarrow> frec option"
    and good :: "'s \<Rightarrow> bool"
    and accepts :: "gostring \<Rightarrow> bool"
    and keep :: "evidence \<Rightarrow> evidence option"
  assumes lookup_key: "good s \<Longrightarrow> accepts m \<Longrightarrow> lookup s (m, fp) = Some r \<Longrightarrow> rkey r = (m, fp)"
    and lookup_kept: "good s \<Longrightarrow> accepts m \<Longrightarrow> lookup s (m, fp) = Some r \<Longrightarrow>
                        keep (evidence r) = Some (evidence r)"
    and list_ok: "good s \<Longrightarrow> accepts m \<Longrightarrow> list_by_target m t s = (Inr rs, s') \<Longrightarrow>
        good s' \<and> lookup s' = lookup s \<and> distinct (map fingerprint rs)
        \<and> (\<forall>r. r \<in> set rs \<longleftrightarrow> lookup s (m, fingerprint r) = Some r \<and> target r = t)"
    and list_err: "good s \<Longrightarrow> list_by_target m t s = (Inl e, s') \<Longrightarrow> good s' \<and> lookup s' = lookup s"
    and upsert_ok: "good s \<Longrightarrow> accepts (finding_module r) \<Longrightarrow> upsert r s = (None, s') \<Longrightarrow>
        (\<forall>q. lookup s (rkey r) = Some q \<longrightarrow> same_identity r q) \<Longrightarrow>
        (\<exists>ev. keep (evidence r) = Some ev \<and> lookup s' (rkey r) = Some (r\<lparr>evidence := ev\<rparr>))"
    and upsert_frame: "good s \<Longrightarrow> accepts (finding_module r) \<Longrightarrow> upsert r s = (None, s') \<Longrightarrow>
        accepts m \<Longrightarrow> (m, fp) \<noteq> rkey r \<Longrightarrow> lookup s' (m, fp) = lookup s (m, fp)"
    and upsert_good: "good s \<Longrightarrow> accepts (finding_module r) \<Longrightarrow> upsert r s = (oe, s') \<Longrightarrow> good s'"
    and upsert_err: "good s \<Longrightarrow> upsert r s = (Some e, s') \<Longrightarrow> lookup s' = lookup s"
    and get_ok: "good s \<Longrightarrow> accepts m \<Longrightarrow> get m fp s = (Inr q, s') \<Longrightarrow>
        q = lookup s (m, fp) \<and> good s' \<and> lookup s' = lookup s"
    and get_err: "good s \<Longrightarrow> get m fp s = (Inl e, s') \<Longrightarrow> good s' \<and> lookup s' = lookup s"
    and open_ok: "good s \<Longrightarrow> accepts m \<Longrightarrow> list_open m s = (Inr rs, s') \<Longrightarrow>
        good s' \<and> lookup s' = lookup s
        \<and> (\<forall>r. r \<in> set rs \<longleftrightarrow> lookup s (m, fingerprint r) = Some r \<and> status r = StatusOpen)"
    and all_ok: "good s \<Longrightarrow> accepts m \<Longrightarrow> list_all_recs m s = (Inr rs, s') \<Longrightarrow>
        good s' \<and> lookup s' = lookup s
        \<and> (\<forall>r. r \<in> set rs \<longleftrightarrow> lookup s (m, fingerprint r) = Some r)"
begin

text \<open>What an update leaves at its own key and elsewhere, in one equation.\<close>

lemma upsert_lookup:
  assumes "good s" "accepts (finding_module r)" "upsert r s = (None, s')"
    and "\<And>q. lookup s (rkey r) = Some q \<Longrightarrow> same_identity r q"
  obtains ev where "keep (evidence r) = Some ev"
    and "\<And>m fp. accepts m \<Longrightarrow>
           lookup s' (m, fp) =
             (if (m, fp) = rkey r then Some (r\<lparr>evidence := ev\<rparr>) else lookup s (m, fp))"
  using upsert_ok [OF assms(1-3)] upsert_frame [OF assms(1-3)] assms(4) by metis

text \<open>The open records of a module are exactly the open ones among all its records.\<close>

lemma open_subset_all:
  assumes "good s" "accepts m" "list_open m s = (Inr os, s1)" "list_all_recs m s = (Inr as, s2)"
  shows "set os = {r \<in> set as. status r = StatusOpen}"
  using open_ok [OF assms(1-3)] all_ok [OF assms(1,2,4)] by auto

end

subsection \<open>\<open>MemStore\<close>\<close>

text \<open>
  The Go maps of the store, by their entries in the order a \<open>range\<close> loop visits them. The map of
  the targets is nil (\<open>None\<close>) until a target is saved. The mutex makes every operation atomic, so an
  operation is one function on the state.
\<close>

record memstore =
  recs :: "(gostring \<times> frec) list"
  mem_targets :: "(gostring \<times> (gostring \<times> gostring) list) list option"

definition NewMemStore :: memstore where
  "NewMemStore = \<lparr>recs = [], mem_targets = None\<rparr>"

definition mem_key :: "gostring \<Rightarrow> gostring \<Rightarrow> gostring" where
  "mem_key module_id fp = module_id @ mkbyte 0 # fp"

definition mem_ListByTarget ::
  "gostring \<Rightarrow> gostring \<Rightarrow> memstore \<Rightarrow> (goerror + frec list) \<times> memstore" where
  "mem_ListByTarget module_id tgt m =
     (Inr (filter (\<lambda>r. finding_module r = module_id \<and> target r = tgt) (map snd (recs m))), m)"

definition mem_Upsert :: "frec \<Rightarrow> memstore \<Rightarrow> goerror option \<times> memstore" where
  "mem_Upsert r m =
     (None, m\<lparr>recs := AList.update (mem_key (finding_module r) (fingerprint r)) r (recs m)\<rparr>)"

definition mem_Get ::
  "gostring \<Rightarrow> gostring \<Rightarrow> memstore \<Rightarrow> (goerror + frec option) \<times> memstore" where
  "mem_Get module_id fp m = (Inr (map_of (recs m) (mem_key module_id fp)), m)"

definition mem_ListOpen :: "gostring \<Rightarrow> memstore \<Rightarrow> (goerror + frec list) \<times> memstore" where
  "mem_ListOpen module_id m =
     (Inr (filter (\<lambda>r. finding_module r = module_id \<and> status r = StatusOpen) (map snd (recs m))), m)"

definition mem_ListAll :: "gostring \<Rightarrow> memstore \<Rightarrow> (goerror + frec list) \<times> memstore" where
  "mem_ListAll module_id m =
     (Inr (filter (\<lambda>r. finding_module r = module_id) (map snd (recs m))), m)"

definition mem_lookup :: "memstore \<Rightarrow> gostring \<times> gostring \<Rightarrow> frec option" where
  "mem_lookup m k = map_of (recs m) (mem_key (fst k) (snd k))"

definition mem_good :: "memstore \<Rightarrow> bool" where
  "mem_good m \<longleftrightarrow>
     distinct (map fst (recs m))
     \<and> (\<forall>(k, r) \<in> set (recs m). k = mem_key (finding_module r) (fingerprint r) \<and> no_nul (finding_module r))"

lemma mem_key_inject:
  "no_nul m \<Longrightarrow> no_nul m' \<Longrightarrow> mem_key m fp = mem_key m' fp' \<longleftrightarrow> m = m' \<and> fp = fp'"
  by (simp add: mem_key_def no_nul_def append_sep_inject)

lemma mem_lookup_iff:
  assumes "mem_good m" "no_nul mid"
  shows "mem_lookup m (mid, fp) = Some r
           \<longleftrightarrow> r \<in> snd ` set (recs m) \<and> finding_module r = mid \<and> fingerprint r = fp"
proof -
  have "mem_lookup m (mid, fp) = Some r \<longleftrightarrow> (mem_key mid fp, r) \<in> set (recs m)"
    using assms(1) by (simp add: mem_lookup_def mem_good_def)
  also have "\<dots> \<longleftrightarrow> r \<in> snd ` set (recs m) \<and> finding_module r = mid \<and> fingerprint r = fp"
    using assms by (force simp: mem_good_def mem_key_inject)
  finally show ?thesis .
qed

lemma mem_fingerprints_distinct:
  assumes "mem_good m"
    and "\<And>r. P r \<Longrightarrow> finding_module r = mid"
  shows "distinct (map fingerprint (filter P (map snd (recs m))))"
proof -
  have "distinct (map (\<lambda>r. mem_key (finding_module r) (fingerprint r)) (map snd (recs m)))"
  proof -
    have eq: "map (\<lambda>r. mem_key (finding_module r) (fingerprint r)) (map snd (recs m)) =
        map fst (recs m)"
      using assms(1) by (auto simp: mem_good_def)
    show ?thesis unfolding eq using assms(1) by (simp add: mem_good_def)
  qed
  then have "distinct (map (\<lambda>r. mem_key (finding_module r) (fingerprint r))
      (filter P (map snd (recs m))))"
    by (rule distinct_map_filter)
  moreover have "map (\<lambda>r. mem_key (finding_module r) (fingerprint r)) (filter P (map snd (recs m))) =
      map (mem_key mid) (map fingerprint (filter P (map snd (recs m))))"
    using assms(2) by auto
  ultimately show ?thesis by (metis distinct_map)
qed

lemma mem_good_upsert:
  "mem_good m \<Longrightarrow> no_nul (finding_module r) \<Longrightarrow> mem_good (snd (mem_Upsert r m))"
  by (auto simp: mem_good_def mem_Upsert_def dest!: set_update_subset)

interpretation mem: finding_store mem_ListByTarget mem_Upsert mem_Get mem_ListOpen mem_ListAll
    mem_lookup mem_good no_nul Some
proof (unfold_locales, goal_cases)
  case (1 s m fp r)
  then show ?case by (simp add: mem_lookup_iff rkey_def)
next
  case (3 s m t rs s')
  then show ?case
    by (auto simp: mem_ListByTarget_def mem_lookup_iff
        intro: mem_fingerprints_distinct)
next
  case (5 s r s')
  then show ?case by (auto simp: mem_Upsert_def mem_lookup_def rkey_def map_of_update)
next
  case (6 s r s' m fp)
  then show ?case
    by (auto simp: mem_Upsert_def mem_lookup_def rkey_def map_of_update mem_key_inject)
next
  case (7 s r e s')
  then show ?case by (metis mem_good_upsert snd_conv)
next
  case (9 s m fp q s')
  then show ?case by (auto simp: mem_Get_def mem_lookup_def)
qed (auto simp: mem_ListByTarget_def mem_Upsert_def mem_Get_def mem_ListOpen_def mem_ListAll_def
      mem_lookup_iff)

subsection \<open>Saved targets (\<open>store/targets.go\<close>)\<close>

text \<open>
  The user's configured targets, per module, in insertion order: the in-memory implementation of
  \<open>TargetStore\<close>. A saved target is the pair of the raw input and its canonical form.
\<close>

definition targets_of :: "gostring \<Rightarrow> memstore \<Rightarrow> (gostring \<times> gostring) list" where
  "targets_of module_id m =
     (case mem_targets m of
        None \<Rightarrow> []
      | Some tm \<Rightarrow> (case map_of tm module_id of None \<Rightarrow> [] | Some ts \<Rightarrow> ts))"

definition mem_SaveTarget ::
  "gostring \<Rightarrow> gostring \<Rightarrow> gostring \<Rightarrow> memstore \<Rightarrow> goerror option \<times> memstore" where
  "mem_SaveTarget module_id raw canonical m =
     (let tm = (case mem_targets m of None \<Rightarrow> [] | Some tm \<Rightarrow> tm) in
      if list_ex (\<lambda>t. snd t = canonical) (targets_of module_id m) then (None, m\<lparr>mem_targets := Some tm\<rparr>)
      else (None, m\<lparr>mem_targets :=
        Some (AList.update module_id (targets_of module_id m @ [(raw, canonical)]) tm)\<rparr>))"

text \<open>Deleting assigns to the map, which panics when it is still nil.\<close>

definition mem_DeleteTarget :: "gostring \<Rightarrow> gostring \<Rightarrow> memstore \<Rightarrow> goerror option \<times> memstore" where
  "mem_DeleteTarget module_id canonical m =
     (case mem_targets m of
        None \<Rightarrow> (Some ''panic: assignment to entry in nil map'', m)
      | Some tm \<Rightarrow>
          (None, m\<lparr>mem_targets :=
             Some (AList.update module_id (filter (\<lambda>t. snd t \<noteq> canonical) (targets_of module_id m)) tm)\<rparr>))"

definition mem_ListSavedTargets ::
  "gostring \<Rightarrow> memstore \<Rightarrow> (goerror + gostring list) \<times> memstore" where
  "mem_ListSavedTargets module_id m = (Inr (map fst (targets_of module_id m)), m)"

text \<open>
  The contract of a target store: a list of targets per module without two of one canonical
  form; saving appends a new one and ignores a known one, deleting removes it, and neither
  touches another module.
\<close>

locale target_store =
  fixes save :: "gostring \<Rightarrow> gostring \<Rightarrow> gostring \<Rightarrow> 's \<Rightarrow> goerror option \<times> 's"
    and delete :: "gostring \<Rightarrow> gostring \<Rightarrow> 's \<Rightarrow> goerror option \<times> 's"
    and saved :: "gostring \<Rightarrow> 's \<Rightarrow> (goerror + gostring list) \<times> 's"
    and content :: "'s \<Rightarrow> gostring \<Rightarrow> (gostring \<times> gostring) list"
    and tgood :: "'s \<Rightarrow> bool"
  assumes content_distinct: "tgood s \<Longrightarrow> distinct (map snd (content s m))"
    and save_content: "tgood s \<Longrightarrow> save m raw can s = (None, s') \<Longrightarrow>
        tgood s' \<and> content s' = (content s)(m :=
          (if can \<in> snd ` set (content s m) then content s m else content s m @ [(raw, can)]))"
    and delete_content: "tgood s \<Longrightarrow> delete m can s = (None, s') \<Longrightarrow>
        tgood s' \<and> content s' = (content s)(m := filter (\<lambda>t. snd t \<noteq> can) (content s m))"
    and saved_content: "tgood s \<Longrightarrow> saved m s = (Inr raws, s') \<Longrightarrow>
        raws = map fst (content s m) \<and> tgood s' \<and> content s' = content s"
begin

text \<open>Saving is idempotent on the canonical form, whatever raw spelling comes second.\<close>

lemma save_idempotent:
  assumes "tgood s" "save m raw can s = (None, s1)" "save m raw' can s1 = (None, s2)"
  shows "content s2 = content s1"
proof -
  from save_content [OF assms(1,2)] have "tgood s1" "can \<in> snd ` set (content s1 m)" by force+
  with save_content [OF _ assms(3)] show ?thesis by (simp add: fun_eq_iff)
qed

text \<open>Deleting a target that saving has just added restores the list.\<close>

lemma delete_after_save:
  assumes "tgood s" "can \<notin> snd ` set (content s m)"
    and "save m raw can s = (None, s1)" "delete m can s1 = (None, s2)"
  shows "content s2 = content s"
proof -
  have "filter (\<lambda>t. snd t \<noteq> can) (content s m) = content s m"
    using assms(2) by (auto simp: filter_id_conv)
  with save_content [OF assms(1,3)] assms(2) delete_content [OF _ assms(4)]
  show ?thesis by (simp add: fun_eq_iff)
qed

end

definition mem_targets_good :: "memstore \<Rightarrow> bool" where
  "mem_targets_good m \<longleftrightarrow> (\<forall>mid. distinct (map snd (targets_of mid m)))"

lemma targets_of_update:
  "targets_of mid (m\<lparr>mem_targets := Some (AList.update k ts tm)\<rparr>) =
     (if mid = k then ts else targets_of mid (m\<lparr>mem_targets := Some tm\<rparr>))"
  by (simp add: targets_of_def map_of_update)

lemma targets_of_nil:
  "targets_of mid (m\<lparr>mem_targets := Some (case mem_targets m of None \<Rightarrow> [] | Some tm \<Rightarrow> tm)\<rparr>) = targets_of mid m"
  "mem_targets m = Some tm \<Longrightarrow> targets_of mid (m\<lparr>mem_targets := Some tm\<rparr>) = targets_of mid m"
  by (simp_all add: targets_of_def split: option.split)

interpretation mem_t: target_store mem_SaveTarget mem_DeleteTarget mem_ListSavedTargets
    "\<lambda>s m. targets_of m s" mem_targets_good
proof (unfold_locales, goal_cases)
  case (2 s m raw can s')
  then show ?case
    by (auto simp: mem_SaveTarget_def mem_targets_good_def targets_of_update targets_of_nil list_ex_iff
        fun_eq_iff Let_def split: if_splits)
next
  case (3 s m can s')
  then show ?case
    by (auto simp: mem_DeleteTarget_def mem_targets_good_def targets_of_update targets_of_nil fun_eq_iff
        distinct_map_filter split: option.splits)
qed (auto simp: mem_targets_good_def mem_ListSavedTargets_def)

text \<open>
  Deleting a target from a fresh in-memory store panics: its target map is nil until the first
  save. Over a map that exists the deletion succeeds.
\<close>

theorem mem_DeleteTarget_nil_map:
  "fst (mem_DeleteTarget module_id canonical NewMemStore) = Some ''panic: assignment to entry in nil map''
   \<and> fst (mem_DeleteTarget module_id canonical (snd (mem_SaveTarget module_id raw canonical NewMemStore))) = None"
  by (simp add: mem_DeleteTarget_def mem_SaveTarget_def NewMemStore_def targets_of_def)

end
