(* ===== verification/Reconcile.thy ===== *)
theory Reconcile
  imports FindingStore
begin

section \<open>The reconcile engine (\<open>store/reconcile.go\<close>)\<close>

text \<open>
  \<open>Reconcile\<close> over any implementation of the store interface, given by its two operations. The
  engine's clock is read once, so \<open>now\<close> is an argument; its id generator is a function of the
  instant and of how many ids were drawn before, and may fail. A run returns the error it stopped
  with, if any, and the state it leaves: the result lists, the store and the generator's count. An
  error keeps what was written before it, as the code does.
\<close>

record reconcile_result =
  NewlyOpen :: "finding list"
  Resolved :: "finding list"
  Rejected :: "(finding \<times> ingest_error) list"

record 's rstate =
  res :: reconcile_result
  seen :: "gostring list"
  db :: 's
  drawn :: nat

definition empty_result :: reconcile_result where
  "empty_result = \<lparr>NewlyOpen = [], Resolved = [], Rejected = []\<rparr>"

subsection \<open>The evidence cap\<close>

definition capEvidence :: "finding \<Rightarrow> finding" where
  "capEvidence f =
     (case evidence f of
        None \<Rightarrow> f
      | Some ev \<Rightarrow>
          (case json_marshal (AMap ev) of
             None \<Rightarrow> f\<lparr>evidence := Some [(''_error'', AStr ''evidence not serialisable; dropped'')]\<rparr>
           | Some b \<Rightarrow>
               if length b > MaxEvidenceBytes then
                 f\<lparr>evidence := Some
                    [(''_truncated'', ABool True),
                     (''_original_bytes'', ANum (int (length b))),
                     (''_note'', AStr ''evidence exceeded MaxEvidenceBytes and was dropped'')]\<rparr>
               else f))"

lemma capEvidence_frame [simp]:
  "fingerprint (capEvidence f) = fingerprint f" "target (capEvidence f) = target f"
  "check (capEvidence f) = check f" "title (capEvidence f) = title f"
  "severity (capEvidence f) = severity f" "remediation (capEvidence f) = remediation f"
  by (auto simp: capEvidence_def split: option.splits)

subsection \<open>One fresh finding, one absent record\<close>

definition new_record :: "gostring \<Rightarrow> instant \<Rightarrow> gostring \<Rightarrow> finding \<Rightarrow> frec" where
  "new_record module_id now i f =
     \<lparr>fingerprint = fingerprint f, target = target f, check = check f, title = title f,
      severity = severity f, remediation = remediation f, evidence = evidence f,
      finding_id = i, finding_module = module_id, status = StatusOpen, groupID = groupID f,
      firstSeen = now, lastSeen = now, resolvedAt = resolvedAt f, absentStreak = 0\<rparr>"

definition merge_record :: "instant \<Rightarrow> frec \<Rightarrow> finding \<Rightarrow> frec" where
  "merge_record now prev f =
     (let merged = prev\<lparr>title := title f, severity := severity f, remediation := remediation f,
                        evidence := evidence f, lastSeen := now, absentStreak := 0\<rparr>
      in if status prev = StatusResolved then merged\<lparr>status := StatusOpen, resolvedAt := None\<rparr>
         else merged)"

definition absent_record :: "module_info \<Rightarrow> instant \<Rightarrow> frec \<Rightarrow> frec" where
  "absent_record mi now r =
     (let r = r\<lparr>absentStreak := absentStreak r + 1\<rparr>
      in if absentStreak r \<ge> ResolveAfterOrDefault mi
         then r\<lparr>status := StatusResolved, resolvedAt := Some now\<rparr> else r)"

definition leave_absent :: "frec \<Rightarrow> bool" where
  "leave_absent r \<longleftrightarrow> status r = StatusResolved \<or> status r = StatusSuppressed"

subsection \<open>The two loops and the engine\<close>

fun reconcile_fresh ::
  "(frec \<Rightarrow> 's \<Rightarrow> goerror option \<times> 's) \<Rightarrow> (instant \<Rightarrow> nat \<Rightarrow> goerror + gostring) \<Rightarrow> module_info \<Rightarrow>
   instant \<Rightarrow> (gostring \<rightharpoonup> frec) \<Rightarrow> finding list \<Rightarrow> 's rstate \<Rightarrow> goerror option \<times> 's rstate" where
  "reconcile_fresh ups newID mi now byFP [] st = (None, st)"
| "reconcile_fresh ups newID mi now byFP (f0 # fs) st =
     (case ValidateForIngest f0 of
        Some e \<Rightarrow>
          reconcile_fresh ups newID mi now byFP fs
            (st\<lparr>res := (res st)\<lparr>Rejected := Rejected (res st) @ [(f0, e)]\<rparr>\<rparr>)
      | None \<Rightarrow>
          (let f = capEvidence f0;
               st = st\<lparr>seen := fingerprint f # seen st\<rparr>
           in case byFP (fingerprint f) of
                None \<Rightarrow>
                  (case newID now (drawn st) of
                     Inl e \<Rightarrow> (Some e, st\<lparr>drawn := Suc (drawn st)\<rparr>)
                   | Inr i \<Rightarrow>
                       (let st = st\<lparr>drawn := Suc (drawn st)\<rparr>;
                            rec = new_record (module_ID mi) now i f
                        in case ups rec (db st) of
                             (Some e, s') \<Rightarrow> (Some e, st\<lparr>db := s'\<rparr>)
                           | (None, s') \<Rightarrow>
                               reconcile_fresh ups newID mi now byFP fs
                                 (st\<lparr>db := s',
                                     res := (res st)\<lparr>NewlyOpen := NewlyOpen (res st) @ [finding_of rec]\<rparr>\<rparr>)))
              | Some prev \<Rightarrow>
                  (let reopened = (status prev = StatusResolved);
                       merged = merge_record now prev f
                   in case ups merged (db st) of
                        (Some e, s') \<Rightarrow> (Some e, st\<lparr>db := s'\<rparr>)
                      | (None, s') \<Rightarrow>
                          reconcile_fresh ups newID mi now byFP fs
                            (if reopened
                             then st\<lparr>db := s',
                                     res := (res st)\<lparr>NewlyOpen := NewlyOpen (res st) @ [finding_of merged]\<rparr>\<rparr>
                             else st\<lparr>db := s'\<rparr>))))"

fun reconcile_absent ::
  "(frec \<Rightarrow> 's \<Rightarrow> goerror option \<times> 's) \<Rightarrow> module_info \<Rightarrow> instant \<Rightarrow> frec list \<Rightarrow> 's rstate \<Rightarrow>
   goerror option \<times> 's rstate" where
  "reconcile_absent ups mi now [] st = (None, st)"
| "reconcile_absent ups mi now (r0 # rs) st =
     (if fingerprint r0 \<in> set (seen st) \<or> leave_absent r0
      then reconcile_absent ups mi now rs st
      else
        (let r = absent_record mi now r0;
             st = (if absentStreak r \<ge> ResolveAfterOrDefault mi
                   then st\<lparr>res := (res st)\<lparr>Resolved := Resolved (res st) @ [finding_of r]\<rparr>\<rparr> else st)
         in case ups r (db st) of
              (Some e, s') \<Rightarrow> (Some e, st\<lparr>db := s'\<rparr>)
            | (None, s') \<Rightarrow> reconcile_absent ups mi now rs (st\<lparr>db := s'\<rparr>)))"

definition by_fingerprint :: "frec list \<Rightarrow> gostring \<rightharpoonup> frec" where
  "by_fingerprint existing = map_of (rev (map (\<lambda>r. (fingerprint r, r)) existing))"

definition reconcile_with ::
  "(frec \<Rightarrow> 's \<Rightarrow> goerror option \<times> 's) \<Rightarrow> (instant \<Rightarrow> nat \<Rightarrow> goerror + gostring) \<Rightarrow> module_info \<Rightarrow>
   instant \<Rightarrow> frec list \<Rightarrow> finding list \<Rightarrow> 's rstate \<Rightarrow> goerror option \<times> 's rstate" where
  "reconcile_with ups newID mi now existing fresh st =
     (case reconcile_fresh ups newID mi now (by_fingerprint existing) fresh st of
        (Some e, st') \<Rightarrow> (Some e, st')
      | (None, st') \<Rightarrow> reconcile_absent ups mi now existing st')"

definition Reconcile ::
  "(gostring \<Rightarrow> gostring \<Rightarrow> 's \<Rightarrow> (goerror + frec list) \<times> 's) \<Rightarrow> (frec \<Rightarrow> 's \<Rightarrow> goerror option \<times> 's) \<Rightarrow>
   (instant \<Rightarrow> nat \<Rightarrow> goerror + gostring) \<Rightarrow> module_info \<Rightarrow> gostring \<Rightarrow> instant \<Rightarrow> finding list \<Rightarrow>
   's \<Rightarrow> nat \<Rightarrow> goerror option \<times> 's rstate" where
  "Reconcile lst ups newID mi tgt now fresh s n =
     (case lst (module_ID mi) tgt s of
        (Inl e, s') \<Rightarrow> (Some e, \<lparr>res = empty_result, seen = [], db = s', drawn = n\<rparr>)
      | (Inr existing, s') \<Rightarrow>
          reconcile_with ups newID mi now existing fresh
            \<lparr>res = empty_result, seen = [], db = s', drawn = n\<rparr>)"

subsection \<open>What the loops report\<close>

text \<open>
  These facts concern the control flow alone, so they hold for any store: which findings are
  rejected, which are announced as newly open, which fingerprints count as seen, and which
  records are announced as resolved.
\<close>

definition opens :: "frec option \<Rightarrow> bool" where
  "opens prev \<longleftrightarrow> (case prev of None \<Rightarrow> True | Some p \<Rightarrow> status p = StatusResolved)"

definition rejections :: "finding list \<Rightarrow> (finding \<times> ingest_error) list" where
  "rejections fresh =
     map (\<lambda>f. (f, the (ValidateForIngest f))) (filter (\<lambda>f. \<not> well_formed f) fresh)"

lemma well_formed_code: "well_formed f \<longleftrightarrow> ValidateForIngest f = None"
  by (simp add: ValidateForIngest_None_iff)

lemma finding_of_simps [simp]:
  "fingerprint (finding_of r) = fingerprint r" "status (finding_of r) = status r"
  "target (finding_of r) = target r" "finding_module (finding_of r) = finding_module r"
  "title (finding_of r) = title r" "severity (finding_of r) = severity r"
  "check (finding_of r) = check r" "resolvedAt (finding_of r) = resolvedAt r"
  "remediation (finding_of r) = remediation r" "evidence (finding_of r) = evidence r"
  "finding_id (finding_of r) = finding_id r"
  by (simp_all add: finding.defs)

lemma merge_record_simps [simp]:
  "fingerprint (merge_record now p f) = fingerprint p"
  "finding_module (merge_record now p f) = finding_module p"
  "finding_id (merge_record now p f) = finding_id p"
  "target (merge_record now p f) = target p" "check (merge_record now p f) = check p"
  "firstSeen (merge_record now p f) = firstSeen p"
  "evidence (merge_record now p f) = evidence f"
  "lastSeen (merge_record now p f) = now" "absentStreak (merge_record now p f) = 0"
  "title (merge_record now p f) = title f" "severity (merge_record now p f) = severity f"
  "remediation (merge_record now p f) = remediation f"
  "status (merge_record now p f) = (if status p = StatusResolved then StatusOpen else status p)"
  by (simp_all add: merge_record_def Let_def)

lemma new_record_simps [simp]:
  "fingerprint (new_record m now i f) = fingerprint f" "finding_module (new_record m now i f) = m"
  "evidence (new_record m now i f) = evidence f" "status (new_record m now i f) = StatusOpen"
  "target (new_record m now i f) = target f" "finding_id (new_record m now i f) = i"
  by (simp_all add: new_record_def)

lemma absent_record_simps [simp]:
  "fingerprint (absent_record mi now r) = fingerprint r"
  "finding_module (absent_record mi now r) = finding_module r"
  "finding_id (absent_record mi now r) = finding_id r"
  "target (absent_record mi now r) = target r" "check (absent_record mi now r) = check r"
  "firstSeen (absent_record mi now r) = firstSeen r"
  "evidence (absent_record mi now r) = evidence r"
  "absentStreak (absent_record mi now r) = absentStreak r + 1"
  "status (absent_record mi now r) =
     (if absentStreak r + 1 \<ge> ResolveAfterOrDefault mi then StatusResolved else status r)"
  by (simp_all add: absent_record_def Let_def)

lemma reconcile_fresh_report:
  assumes "reconcile_fresh ups newID mi now byFP fresh st = (None, st')"
  shows "Rejected (res st') = Rejected (res st) @ rejections fresh"
    and "Resolved (res st') = Resolved (res st)"
    and "set (seen st') = set (seen st) \<union> fingerprint ` {f \<in> set fresh. well_formed f}"
  using assms
proof (induction fresh arbitrary: st)
  case Nil
  { case 1 then show ?case by (simp add: rejections_def) }
  { case 2 then show ?case by simp }
  { case 3 then show ?case by simp }
next
  case (Cons f fs)
  note splits = option.splits sum.splits prod.splits if_splits
  { case 1 then show ?case
      using Cons.IH(1) by (auto simp: rejections_def Let_def well_formed_code split: splits) }
  { case 2 then show ?case
      using Cons.IH(2) by (auto simp: Let_def split: splits) }
  { case 3 then show ?case
      using Cons.IH(3) by (auto simp: Let_def well_formed_code split: splits) }
qed

text \<open>The newly open findings, in the order of the scan.\<close>

lemma reconcile_fresh_newly_open:
  assumes "reconcile_fresh ups newID mi now byFP fresh st = (None, st')"
    and "\<And>fp p. byFP fp = Some p \<Longrightarrow> fingerprint p = fp"
  shows "map fingerprint (NewlyOpen (res st')) = map fingerprint (NewlyOpen (res st)) @
           map fingerprint (filter (\<lambda>f. well_formed f \<and> opens (byFP (fingerprint f))) fresh)"
  using assms(1)
proof (induction fresh arbitrary: st)
  case (Cons f fs)
  then show ?case using assms(2)
    by (auto simp: Let_def well_formed_code opens_def
        split: option.splits sum.splits prod.splits if_splits)
qed simp

lemma reconcile_fresh_newly_open_status:
  assumes "reconcile_fresh ups newID mi now byFP fresh st = (None, st')"
    and "x \<in> set (NewlyOpen (res st'))"
  shows "x \<in> set (NewlyOpen (res st)) \<or> status x = StatusOpen"
  using assms
proof (induction fresh arbitrary: st)
  case (Cons f fs)
  then show ?case
    by (fastforce simp: Let_def split: option.splits sum.splits prod.splits if_splits
        dest!: Cons.IH)
qed simp

lemma reconcile_fresh_newly_open_severity:
  assumes "reconcile_fresh ups newID mi now byFP fresh st = (None, st')"
    and "\<And>fp p. byFP fp = Some p \<Longrightarrow> fingerprint p = fp"
  shows "map (\<lambda>x. (fingerprint x, severity x)) (NewlyOpen (res st')) =
    map (\<lambda>x. (fingerprint x, severity x)) (NewlyOpen (res st)) @
    map (\<lambda>f. (fingerprint f, severity f)) (filter (\<lambda>f. well_formed f \<and> opens (byFP (fingerprint f))) fresh)"
  using assms(1)
proof (induction fresh arbitrary: st)
  case (Cons f fs)
  then show ?case using assms(2)
    by (auto simp: Let_def well_formed_code opens_def new_record_def
        split: option.splits sum.splits prod.splits if_splits)
qed simp

lemma by_fingerprint_key: "by_fingerprint rs fp = Some p \<Longrightarrow> fingerprint p = fp \<and> p \<in> set rs"
  by (auto simp: by_fingerprint_def dest!: map_of_SomeD)

lemma by_fingerprint_distinct:
  assumes "distinct (map fingerprint rs)"
  shows "by_fingerprint rs fp = Some p \<longleftrightarrow> p \<in> set rs \<and> fingerprint p = fp"
proof -
  have "distinct (map fst (rev (map (\<lambda>r. (fingerprint r, r)) rs)))"
    using assms by (simp add: rev_map [symmetric] comp_def)
  then show ?thesis by (auto simp: by_fingerprint_def map_of_eq_Some_iff)
qed

text \<open>
  A listing of a keyed table: the records that satisfy \<open>P\<close>, each once. Looking a fingerprint up
  in the listing is looking it up in the table.
\<close>

definition lists_table :: "frec list \<Rightarrow> (gostring \<rightharpoonup> frec) \<Rightarrow> (frec \<Rightarrow> bool) \<Rightarrow> bool" where
  "lists_table rs look P \<longleftrightarrow>
     distinct (map fingerprint rs)
     \<and> (\<forall>fp r. look fp = Some r \<longrightarrow> fingerprint r = fp)
     \<and> (\<forall>r. r \<in> set rs \<longleftrightarrow> look (fingerprint r) = Some r \<and> P r)"

lemma lists_table_bex:
  assumes "lists_table rs look P"
  shows "(\<exists>r \<in> set rs. fingerprint r = fp \<and> Q r) \<longleftrightarrow> (\<exists>r. look fp = Some r \<and> P r \<and> Q r)"
  using assms unfolding lists_table_def by metis

lemma by_fingerprint_lookup:
  assumes "lists_table rs look P"
  shows "by_fingerprint rs fp =
           (case look fp of None \<Rightarrow> None | Some r \<Rightarrow> if P r then Some r else None)"
proof (rule option_ext)
  fix r
  have "by_fingerprint rs fp = Some r \<longleftrightarrow> r \<in> set rs \<and> fingerprint r = fp"
    using assms by (simp add: lists_table_def by_fingerprint_distinct)
  also have "\<dots> \<longleftrightarrow> look fp = Some r \<and> P r"
    using assms unfolding lists_table_def by metis
  finally show "by_fingerprint rs fp = Some r \<longleftrightarrow>
      (case look fp of None \<Rightarrow> None | Some r \<Rightarrow> if P r then Some r else None) = Some r"
    by (auto split: option.splits)
qed

lemma lists_table_set:
  assumes "lists_table rs look P"
  shows "set rs = {r. look (fingerprint r) = Some r \<and> P r}"
  using assms unfolding lists_table_def by blast

lemma by_fingerprint_perm:
  assumes "distinct (map fingerprint rs)" "distinct (map fingerprint rs')" "set rs = set rs'"
  shows "by_fingerprint rs = by_fingerprint rs'"
proof
  fix fp
  have "by_fingerprint rs fp = Some p \<longleftrightarrow> by_fingerprint rs' fp = Some p" for p
    using assms by (simp add: by_fingerprint_distinct)
  then show "by_fingerprint rs fp = by_fingerprint rs' fp" by (metis not_Some_eq)
qed

lemma reconcile_absent_report:
  assumes "reconcile_absent ups mi now existing st = (None, st')"
  shows "Resolved (res st') = Resolved (res st) @
           map (\<lambda>r. finding_of (absent_record mi now r))
             (filter (\<lambda>r. fingerprint r \<notin> set (seen st) \<and> \<not> leave_absent r
                        \<and> absentStreak r + 1 \<ge> ResolveAfterOrDefault mi) existing)"
    and "NewlyOpen (res st') = NewlyOpen (res st)"
    and "Rejected (res st') = Rejected (res st)"
    and "seen st' = seen st"
  using assms
proof (induction existing arbitrary: st)
  case Nil
  { case 1 then show ?case by simp }
  { case 2 then show ?case by simp }
  { case 3 then show ?case by simp }
  { case 4 then show ?case by simp }
next
  case (Cons r rs)
  note splits = option.splits prod.splits if_splits
  { case 1 then show ?case using Cons.IH(1) by (auto simp: Let_def split: splits) }
  { case 2 then show ?case using Cons.IH(2) by (auto simp: Let_def split: splits) }
  { case 3 then show ?case using Cons.IH(3) by (auto simp: Let_def split: splits) }
  { case 4 then show ?case using Cons.IH(4) by (auto simp: Let_def split: splits) }
qed

text \<open>One record that the second loop handles.\<close>

lemma reconcile_absent_step:
  assumes "reconcile_absent ups mi now (r # rs) st = (None, st')"
    and "\<not> (fingerprint r \<in> set (seen st) \<or> leave_absent r)"
  obtains st1 where "ups (absent_record mi now r) (db st) = (None, db st1)" "seen st1 = seen st"
    and "reconcile_absent ups mi now rs st1 = (None, st')"
  using assms by (fastforce simp: Let_def split: option.splits prod.splits if_splits)

subsection \<open>What the loops store\<close>

text \<open>
  The contract of one scan, stated on the content of the store: what a fresh finding becomes,
  and what a record the scan did not report becomes.
\<close>

definition fresh_outcome ::
  "(evidence \<Rightarrow> evidence option) \<Rightarrow> gostring \<Rightarrow> instant \<Rightarrow> frec option \<Rightarrow> finding \<Rightarrow> frec \<Rightarrow> bool" where
  "fresh_outcome keep m now prev f r \<longleftrightarrow>
     (\<exists>ev i. keep (evidence (capEvidence f)) = Some ev \<and>
        r = (case prev of None \<Rightarrow> new_record m now i (capEvidence f)
             | Some p \<Rightarrow> merge_record now p (capEvidence f)) \<lparr>evidence := ev\<rparr>)"

definition absent_outcome :: "module_info \<Rightarrow> instant \<Rightarrow> gostring \<Rightarrow> frec option \<Rightarrow> frec option" where
  "absent_outcome mi now tgt prev =
     (case prev of None \<Rightarrow> None
      | Some r \<Rightarrow> Some (if target r = tgt \<and> \<not> leave_absent r then absent_record mi now r else r))"

definition fresh_of :: "finding list \<Rightarrow> gostring \<Rightarrow> finding option" where
  "fresh_of fresh fp = find (\<lambda>f. well_formed f \<and> fingerprint f = fp) fresh"

lemma fresh_of_Cons:
  "fresh_of (f # fs) fp =
     (if well_formed f \<and> fingerprint f = fp then Some f else fresh_of fs fp)"
  by (simp add: fresh_of_def)

lemma fresh_of_None_iff:
  "fresh_of fresh fp = None \<longleftrightarrow> fp \<notin> fingerprint ` {f \<in> set fresh. well_formed f}"
  by (auto simp: fresh_of_def find_None_iff)

text \<open>
  What an earlier read gave for a key whose content is now \<open>cur\<close>: a record of that key, of the
  identity of the one stored now, if there is one.
\<close>

definition read_before :: "gostring \<Rightarrow> gostring \<Rightarrow> frec option \<Rightarrow> frec option \<Rightarrow> bool" where
  "read_before m fp prev cur \<longleftrightarrow>
     (\<forall>p. prev = Some p \<longrightarrow> rkey p = (m, fp)) \<and> (\<forall>q. cur = Some q \<longrightarrow> (\<exists>p. prev = Some p \<and> same_identity p q))"

context finding_store
begin

lemma upsert_exact:
  assumes "good s" "accepts (finding_module r)" "upsert r s = (None, s')"
    and "\<forall>q. lookup s (rkey r) = Some q \<longrightarrow> same_identity r q"
  shows "good s'"
    and "\<exists>ev. keep (evidence r) = Some ev \<and> lookup s' (rkey r) = Some (r\<lparr>evidence := ev\<rparr>)"
    and "accepts m \<Longrightarrow> (m, fp) \<noteq> rkey r \<Longrightarrow> lookup s' (m, fp) = lookup s (m, fp)"
  using upsert_good [OF assms(1-3)] upsert_ok [OF assms(1-3)] upsert_frame [OF assms(1-3)] assms(4)
  by blast+

text \<open>The record a scan writes for a finding it reports, over the record it read before.\<close>

lemma upsert_reported:
  assumes "good s" "accepts m" "read_before m fp prev (lookup s (m, fp))" "fingerprint g = fp"
    and r: "r = (case prev of None \<Rightarrow> new_record m now i g | Some p \<Rightarrow> merge_record now p g)"
    and ups: "upsert r s = (None, s')"
  shows "good s'"
    and "\<exists>ev. keep (evidence g) = Some ev \<and> lookup s' (m, fp) = Some (r\<lparr>evidence := ev\<rparr>)"
    and "accepts m' \<Longrightarrow> (m', fp') \<noteq> (m, fp) \<Longrightarrow> lookup s' (m', fp') = lookup s (m', fp')"
proof -
  have key: "rkey r = (m, fp)" and ev: "evidence r = evidence g"
    using r assms(3,4) by (auto simp: rkey_def read_before_def split: option.splits)
  have mod: "finding_module r = m" using key by (simp add: rkey_def)
  have "\<forall>q. lookup s (rkey r) = Some q \<longrightarrow> same_identity r q"
    using r key assms(3) by (auto simp: read_before_def same_identity_def split: option.splits)
  note exact = upsert_exact [OF assms(1) _ ups this, unfolded mod, OF assms(2)]
  show "good s'" using exact(1) .
  show "\<exists>ev. keep (evidence g) = Some ev \<and> lookup s' (m, fp) = Some (r\<lparr>evidence := ev\<rparr>)"
    using exact(2) key ev by simp
  show "lookup s' (m', fp') = lookup s (m', fp')" if "accepts m'" "(m', fp') \<noteq> (m, fp)"
    using exact(3) [OF that(1)] that(2) key by simp
qed

text \<open>
  The first loop: every valid finding reaches its outcome, nothing else changes. The records in
  \<open>byFP\<close> were read some time before; only their identity must still be the stored one.
\<close>

lemma reconcile_fresh_stale:
  assumes "reconcile_fresh upsert newID mi now byFP fresh st = (None, st')"
    and "good (db st)" "accepts (module_ID mi)"
    and "distinct (map fingerprint (filter well_formed fresh))"
    and "\<forall>f. f \<in> set fresh \<longrightarrow> well_formed f \<longrightarrow>
           read_before (module_ID mi) (fingerprint f) (byFP (fingerprint f)) (lookup (db st) (module_ID mi, fingerprint f))"
  shows "good (db st') \<and>
     (\<forall>m fp. accepts m \<longrightarrow> m \<noteq> module_ID mi \<or> fresh_of fresh fp = None \<longrightarrow>
        lookup (db st') (m, fp) = lookup (db st) (m, fp)) \<and>
     (\<forall>fp f. fresh_of fresh fp = Some f \<longrightarrow>
        (\<exists>r. lookup (db st') (module_ID mi, fp) = Some r \<and>
           fresh_outcome keep (module_ID mi) now (byFP fp) f r))"
  using assms
proof (induction fresh arbitrary: st)
  case Nil
  then show ?case by (simp add: fresh_of_def)
next
  case (Cons f fs)
  let ?m = "module_ID mi" and ?fp = "fingerprint f" and ?g = "capEvidence f"
  show ?case
  proof (cases "well_formed f")
    case False
    with Cons.prems(1) obtain e where
      "reconcile_fresh upsert newID mi now byFP fs (st\<lparr>res := (res st)\<lparr>Rejected := Rejected (res st) @ [(f, e)]\<rparr>\<rparr>) = (None, st')"
      by (auto simp: well_formed_code split: option.splits)
    then obtain st1 where st1: "db st1 = db st" "reconcile_fresh upsert newID mi now byFP fs st1 = (None, st')"
      by (metis rstate.simps(3) rstate.select_convs(3) rstate.surjective rstate.update_convs(1))
    have eq: "fresh_of (f # fs) = fresh_of fs" using False by (auto simp: fresh_of_Cons)
    show ?thesis unfolding eq
      by (rule Cons.IH [OF st1(2), unfolded st1(1), OF Cons.prems(2,3)])
        (use Cons.prems(4,5) False in auto)
  next
    case True
    from Cons.prems(1) True obtain r st1 i where
      r: "r = (case byFP ?fp of None \<Rightarrow> new_record ?m now i ?g | Some p \<Rightarrow> merge_record now p ?g)"
      and ups: "upsert r (db st) = (None, db st1)"
      and rest: "reconcile_fresh upsert newID mi now byFP fs st1 = (None, st')"
      by (fastforce simp: well_formed_code Let_def
          split: option.splits sum.splits prod.splits if_splits)
    have "read_before ?m ?fp (byFP ?fp) (lookup (db st) (?m, ?fp))" using Cons.prems(5) True by simp
    note R = upsert_reported [OF Cons.prems(2,3) this _ r ups, simplified]
    from R(2) obtain ev where ev: "keep (evidence ?g) = Some ev"
      "lookup (db st1) (?m, ?fp) = Some (r\<lparr>evidence := ev\<rparr>)" by blast
    have fresh_fp: "fingerprint g \<noteq> ?fp" if "g \<in> set fs" "well_formed g" for g
      using Cons.prems(4) True that by (force simp: image_iff)
    have "\<forall>g. g \<in> set fs \<longrightarrow> well_formed g \<longrightarrow>
        read_before ?m (fingerprint g) (byFP (fingerprint g)) (lookup (db st1) (?m, fingerprint g))"
      using Cons.prems(5) fresh_fp R(3) [OF Cons.prems(3)] by auto
    then have IH: "good (db st') \<and>
     (\<forall>m fp. accepts m \<longrightarrow> m \<noteq> ?m \<or> fresh_of fs fp = None \<longrightarrow>
        lookup (db st') (m, fp) = lookup (db st1) (m, fp)) \<and>
     (\<forall>fp f. fresh_of fs fp = Some f \<longrightarrow>
        (\<exists>r. lookup (db st') (?m, fp) = Some r \<and> fresh_outcome keep ?m now (byFP fp) f r))"
      using Cons.IH [OF rest R(1) Cons.prems(3)] Cons.prems(4) by (auto split: if_splits)
    have "fresh_of fs ?fp = None" using fresh_fp by (force simp: fresh_of_None_iff)
    then have here: "lookup (db st') (?m, ?fp) = Some (r\<lparr>evidence := ev\<rparr>)"
      using IH Cons.prems(3) ev(2) by auto
    have "fresh_outcome keep ?m now (byFP ?fp) f (r\<lparr>evidence := ev\<rparr>)"
      unfolding fresh_outcome_def using ev(1) r by blast
    with IH here True R(3) show ?thesis by (auto simp: fresh_of_Cons)
  qed
qed

lemma reconcile_fresh_content:
  assumes "reconcile_fresh upsert newID mi now byFP fresh st = (None, st')"
    and "good (db st)" "accepts (module_ID mi)"
    and "distinct (map fingerprint (filter well_formed fresh))"
    and "\<forall>f. f \<in> set fresh \<longrightarrow> well_formed f \<longrightarrow>
           byFP (fingerprint f) = lookup (db st) (module_ID mi, fingerprint f)"
  shows "good (db st') \<and>
     (\<forall>m fp. accepts m \<longrightarrow> m \<noteq> module_ID mi \<or> fresh_of fresh fp = None \<longrightarrow>
        lookup (db st') (m, fp) = lookup (db st) (m, fp)) \<and>
     (\<forall>fp f. fresh_of fresh fp = Some f \<longrightarrow>
        (\<exists>r. lookup (db st') (module_ID mi, fp) = Some r \<and>
           fresh_outcome keep (module_ID mi) now (byFP fp) f r))"
  using reconcile_fresh_stale [OF assms(1-4)] assms(5) lookup_key [OF assms(2,3)]
  by (simp add: read_before_def same_identity_def)

text \<open>The second loop: every record it handles becomes its absent version, nothing else changes.\<close>

text \<open>One absent record, as stored before, is written with one absence more; nothing else changes.\<close>

lemma absent_upsert:
  assumes "good s" "accepts m" "lookup s (m, fingerprint r) = Some r"
    and "upsert (absent_record mi now r) s = (None, s')"
  shows "good s'" and "lookup s' (m, fingerprint r) = Some (absent_record mi now r)"
    and "accepts m' \<Longrightarrow> (m', fp) \<noteq> (m, fingerprint r) \<Longrightarrow> lookup s' (m', fp) = lookup s (m', fp)"
proof -
  let ?r = "absent_record mi now r"
  have rk: "rkey r = (m, fingerprint r)" and kept: "keep (evidence r) = Some (evidence r)"
    using lookup_key lookup_kept assms(1-3) by blast+
  have key: "rkey ?r = (m, fingerprint r)" and mod: "finding_module ?r = m"
    using rk by (auto simp: rkey_def)
  have "\<forall>q. lookup s (rkey ?r) = Some q \<longrightarrow> same_identity ?r q"
    using assms(3) key by (simp add: same_identity_def)
  note exact = upsert_exact [OF assms(1) _ assms(4) this, unfolded mod, OF assms(2)]
  show "good s'" by (rule exact(1))
  show "lookup s' (m, fingerprint r) = Some ?r" using exact(2) kept key by auto
  show "lookup s' (m', fp) = lookup s (m', fp)" if "accepts m'" "(m', fp) \<noteq> (m, fingerprint r)"
    using exact(3) [OF that(1)] that(2) key by simp
qed

lemma reconcile_absent_content:
  assumes "reconcile_absent upsert mi now existing st = (None, st')"
    and "good (db st)" "accepts (module_ID mi)"
    and "distinct (map fingerprint existing)"
    and "\<forall>r. r \<in> set existing \<longrightarrow> fingerprint r \<notin> set (seen st) \<longrightarrow>
           lookup (db st) (module_ID mi, fingerprint r) = Some r"
  shows "good (db st') \<and>
     (\<forall>m fp. accepts m \<longrightarrow>
        lookup (db st') (m, fp) =
          (if m = module_ID mi \<and>
              (\<exists>r \<in> set existing. fingerprint r = fp \<and> fp \<notin> set (seen st) \<and> \<not> leave_absent r)
           then map_option (absent_record mi now) (lookup (db st) (m, fp))
           else lookup (db st) (m, fp)))"
  using assms
proof (induction existing arbitrary: st)
  case Nil
  then show ?case by simp
next
  case (Cons r rs)
  let ?m = "module_ID mi" and ?fp = "fingerprint r" and ?r = "absent_record mi now r"
  show ?case
  proof (cases "?fp \<in> set (seen st) \<or> leave_absent r")
    case True
    with Cons.prems(1) have "reconcile_absent upsert mi now rs st = (None, st')" by simp
    from Cons.IH [OF this Cons.prems(2,3)] Cons.prems(4,5) True show ?thesis by auto
  next
    case False
    then have stored: "lookup (db st) (?m, ?fp) = Some r" using Cons.prems(5) by simp
    obtain st1 where ups: "upsert ?r (db st) = (None, db st1)" and seen1: "seen st1 = seen st"
      and rest: "reconcile_absent upsert mi now rs st1 = (None, st')"
      using reconcile_absent_step [OF Cons.prems(1) False] .
    note exact = absent_upsert [OF Cons.prems(2,3) stored ups]
    note here = exact(2) and frame = exact(3)
    have fps: "fingerprint x \<noteq> ?fp" if "x \<in> set rs" for x
      using Cons.prems(4) that by (force simp: image_iff)
    have "\<forall>x. x \<in> set rs \<longrightarrow> fingerprint x \<notin> set (seen st1) \<longrightarrow>
        lookup (db st1) (?m, fingerprint x) = Some x"
      using Cons.prems(5) fps frame [OF Cons.prems(3)] seen1 by auto
    note IH = Cons.IH [OF rest exact(1) Cons.prems(3) _ this]
    have nfp: "\<not> (\<exists>x \<in> set rs. fingerprint x = ?fp)" using fps by blast
    have good': "good (db st')" using IH Cons.prems(4) by simp
    moreover have "lookup (db st') (m, fp) =
          (if m = ?m \<and>
              (\<exists>x \<in> set (r # rs). fingerprint x = fp \<and> fp \<notin> set (seen st) \<and> \<not> leave_absent x)
           then map_option (absent_record mi now) (lookup (db st) (m, fp))
           else lookup (db st) (m, fp))" if acc: "accepts m" for m fp
    proof (cases "(m, fp) = (?m, ?fp)")
      case True
      then show ?thesis using IH Cons.prems(3,4) here stored False nfp by auto
    next
      case other: False
      then show ?thesis using IH Cons.prems(4) acc frame [OF acc other] seen1 by auto
    qed
    ultimately show ?thesis by blast
  qed
qed

lemma list_table:
  assumes "good s" "accepts m" "list_by_target m tgt s = (Inr rs, s')"
  shows "good s' \<and> lookup s' = lookup s
           \<and> lists_table rs (\<lambda>fp. lookup s (m, fp)) (\<lambda>r. target r = tgt)"
  using list_ok [OF assms] lookup_key [OF assms(1,2)] by (auto simp: lists_table_def rkey_def)

text \<open>
  A scan whose reads are old: what it writes for a reported finding follows from the record it
  read, whatever happened to the stored one in between, and the second loop does not touch it.
\<close>

lemma reconcile_absent_frame:
  assumes "reconcile_absent upsert mi now existing st = (None, st')" "good (db st)"
    and "accepts m" "\<forall>r. r \<in> set existing \<longrightarrow> accepts (finding_module r)" "fp \<in> set (seen st)"
  shows "good (db st') \<and> lookup (db st') (m, fp) = lookup (db st) (m, fp)"
  using assms
proof (induction existing arbitrary: st)
  case (Cons r rs)
  show ?case
  proof (cases "fingerprint r \<in> set (seen st) \<or> leave_absent r")
    case True
    with Cons.prems show ?thesis by (intro Cons.IH) auto
  next
    case False
    let ?r = "absent_record mi now r"
    obtain st1 where ups: "upsert ?r (db st) = (None, db st1)" and seen: "seen st1 = seen st"
      and rest: "reconcile_absent upsert mi now rs st1 = (None, st')"
      using reconcile_absent_step [OF Cons.prems(1) False] .
    have mod: "accepts (finding_module ?r)" using Cons.prems(4) by simp
    have "(m, fp) \<noteq> rkey ?r" using False Cons.prems(5) by (auto simp: rkey_def)
    then have "lookup (db st1) (m, fp) = lookup (db st) (m, fp)"
      by (rule upsert_frame [OF Cons.prems(2) mod ups Cons.prems(3)])
    moreover have "good (db st1)" by (rule upsert_good [OF Cons.prems(2) mod ups])
    ultimately show ?thesis using Cons.IH [OF rest] Cons.prems seen by simp
  qed
qed simp

lemma stale_scan_writes:
  assumes run: "reconcile_with upsert newID mi now rows fresh st = (None, st')"
    and "good (db st)" "accepts (module_ID mi)"
    and "distinct (map fingerprint (filter well_formed fresh))"
    and "\<forall>f. f \<in> set fresh \<longrightarrow> well_formed f \<longrightarrow>
           read_before (module_ID mi) (fingerprint f) (by_fingerprint rows (fingerprint f))
             (lookup (db st) (module_ID mi, fingerprint f))"
    and "\<forall>r. r \<in> set rows \<longrightarrow> finding_module r = module_ID mi"
    and "fresh_of fresh fp = Some f"
  shows "\<exists>r. lookup (db st') (module_ID mi, fp) = Some r
    \<and> fresh_outcome keep (module_ID mi) now (by_fingerprint rows fp) f r"
proof -
  from run obtain st1 where
    one: "reconcile_fresh upsert newID mi now (by_fingerprint rows) fresh st = (None, st1)"
    and two: "reconcile_absent upsert mi now rows st1 = (None, st')"
    by (auto simp: reconcile_with_def split: prod.splits option.splits)
  note C = reconcile_fresh_stale [OF one assms(2-5)]
  have "f \<in> set fresh \<and> well_formed f \<and> fingerprint f = fp"
    using assms(7) by (auto simp: fresh_of_def find_Some_iff)
  then have "fp \<in> set (seen st1)" using reconcile_fresh_report(3) [OF one] by auto
  with C assms(3,6) have "lookup (db st') (module_ID mi, fp) = lookup (db st1) (module_ID mi, fp)"
    using reconcile_absent_frame [OF two _ assms(3)] by simp
  with C assms(7) show ?thesis by simp
qed

text \<open>A scan, on the content of the store.\<close>

theorem reconcile_content:
  assumes run: "Reconcile list_by_target upsert newID mi tgt now fresh s n = (None, st')"
    and "good s" "accepts (module_ID mi)"
    and dist: "distinct (map fingerprint (filter well_formed fresh))"
    and own: "\<forall>f r. f \<in> set fresh \<longrightarrow> well_formed f \<longrightarrow>
           lookup s (module_ID mi, fingerprint f) = Some r \<longrightarrow> target r = tgt"
  shows "good (db st')"
    and "accepts m \<Longrightarrow> m \<noteq> module_ID mi \<Longrightarrow> lookup (db st') (m, fp) = lookup s (m, fp)"
    and "fresh_of fresh fp = Some f \<Longrightarrow>
           \<exists>r. lookup (db st') (module_ID mi, fp) = Some r \<and>
             fresh_outcome keep (module_ID mi) now (lookup s (module_ID mi, fp)) f r"
    and "fresh_of fresh fp = None \<Longrightarrow>
           lookup (db st') (module_ID mi, fp) =
             absent_outcome mi now tgt (lookup s (module_ID mi, fp))"
proof -
  let ?m = "module_ID mi"
  from run obtain existing s1 st1 where
    lst: "list_by_target ?m tgt s = (Inr existing, s1)"
    and fresh: "reconcile_fresh upsert newID mi now (by_fingerprint existing) fresh
        \<lparr>res = empty_result, seen = [], db = s1, drawn = n\<rparr> = (None, st1)"
    and absent: "reconcile_absent upsert mi now existing st1 = (None, st')"
    by (auto simp: Reconcile_def reconcile_with_def split: prod.splits sum.splits option.splits)
  have l: "good s1" "lookup s1 = lookup s"
    and tab: "lists_table existing (\<lambda>fp. lookup s (?m, fp)) (\<lambda>r. target r = tgt)"
    using list_table [OF assms(2,3) lst] by auto
  have dex: "distinct (map fingerprint existing)" using tab by (simp add: lists_table_def)
  note byl = by_fingerprint_lookup [OF tab]
  have own': "\<forall>f. f \<in> set fresh \<longrightarrow> well_formed f \<longrightarrow>
      by_fingerprint existing (fingerprint f) = lookup s (?m, fingerprint f)"
    using own byl by (auto split: option.splits)
  note C1 = reconcile_fresh_content [OF fresh _ assms(3) dist, simplified, unfolded l(2), OF l(1) own']
  have seen1: "set (seen st1) = fingerprint ` {f \<in> set fresh. well_formed f}"
    using reconcile_fresh_report(3) [OF fresh] by simp
  have unseen: "fresh_of fresh fp = None \<longleftrightarrow> fp \<notin> set (seen st1)" for fp
    by (simp add: fresh_of_None_iff seen1)
  have mid: "\<forall>r. r \<in> set existing \<longrightarrow> fingerprint r \<notin> set (seen st1) \<longrightarrow>
      lookup (db st1) (?m, fingerprint r) = Some r"
    using C1 assms(3) unseen lists_table_set [OF tab] by auto
  note C2 = reconcile_absent_content [OF absent conjunct1 [OF C1] assms(3) dex mid]
  show "good (db st')" using C2 by blast
  show "lookup (db st') (m, fp) = lookup s (m, fp)" if "accepts m" "m \<noteq> ?m"
    using C1 C2 that by auto
  show "\<exists>r. lookup (db st') (?m, fp) = Some r \<and> fresh_outcome keep ?m now (lookup s (?m, fp)) f r"
    if f: "fresh_of fresh fp = Some f"
  proof -
    have "fp \<in> set (seen st1)" using unseen [of fp] f by simp
    have "f \<in> set fresh \<and> well_formed f \<and> fingerprint f = fp"
      using f by (auto simp: fresh_of_def find_Some_iff)
    then have "by_fingerprint existing fp = lookup s (?m, fp)" using own' by blast
    then have "\<exists>r. lookup (db st1) (?m, fp) = Some r \<and>
        fresh_outcome keep ?m now (lookup s (?m, fp)) f r"
      using C1 f by metis
    moreover have "lookup (db st') (?m, fp) = lookup (db st1) (?m, fp)"
      using C2 assms(3) \<open>fp \<in> set (seen st1)\<close> by auto
    ultimately show ?thesis by simp
  qed
  show "lookup (db st') (?m, fp) = absent_outcome mi now tgt (lookup s (?m, fp))"
    if f: "fresh_of fresh fp = None"
  proof -
    have "lookup (db st1) (?m, fp) = lookup s (?m, fp)" using C1 assms(3) f by auto
    moreover have "fp \<notin> set (seen st1)" using unseen f by simp
    ultimately show ?thesis
      using C2 assms(3)
      by (auto simp: lists_table_bex [OF tab] absent_outcome_def split: option.splits)
  qed
qed

text \<open>What a scan announces, on the content of the store before it.\<close>

theorem reconcile_reports:
  assumes run: "Reconcile list_by_target upsert newID mi tgt now fresh s n = (None, st')"
    and "good s" "accepts (module_ID mi)"
    and own: "\<forall>f r. f \<in> set fresh \<longrightarrow> well_formed f \<longrightarrow>
           lookup s (module_ID mi, fingerprint f) = Some r \<longrightarrow> target r = tgt"
  shows "Rejected (res st') = rejections fresh"
    and "map fingerprint (NewlyOpen (res st')) =
           map fingerprint (filter (\<lambda>f. well_formed f \<and>
             opens (lookup s (module_ID mi, fingerprint f))) fresh)"
    and "x \<in> set (NewlyOpen (res st')) \<Longrightarrow> status x = StatusOpen"
    and "set (Resolved (res st')) =
           {finding_of (absent_record mi now r) | r fp.
              lookup s (module_ID mi, fp) = Some r \<and> target r = tgt \<and> fresh_of fresh fp = None
              \<and> \<not> leave_absent r \<and> absentStreak r + 1 \<ge> ResolveAfterOrDefault mi}"
proof -
  let ?m = "module_ID mi"
  from run obtain existing s1 st1 where
    lst: "list_by_target ?m tgt s = (Inr existing, s1)"
    and fresh: "reconcile_fresh upsert newID mi now (by_fingerprint existing) fresh
        \<lparr>res = empty_result, seen = [], db = s1, drawn = n\<rparr> = (None, st1)"
    and absent: "reconcile_absent upsert mi now existing st1 = (None, st')"
    by (auto simp: Reconcile_def reconcile_with_def split: prod.splits sum.splits option.splits)
  have tab: "lists_table existing (\<lambda>fp. lookup s (?m, fp)) (\<lambda>r. target r = tgt)"
    using list_table [OF assms(2,3) lst] by auto
  note R1 = reconcile_fresh_report [OF fresh, simplified empty_result_def, simplified]
  note R2 = reconcile_absent_report [OF absent]
  show "Rejected (res st') = rejections fresh" using R1 R2 by simp
  have "by_fingerprint existing (fingerprint f) = lookup s (?m, fingerprint f)"
    if "f \<in> set fresh" "well_formed f" for f
    using own that by (auto simp: by_fingerprint_lookup [OF tab] split: option.splits)
  then have "filter (\<lambda>f. well_formed f \<and> opens (by_fingerprint existing (fingerprint f))) fresh =
      filter (\<lambda>f. well_formed f \<and> opens (lookup s (?m, fingerprint f))) fresh"
    by (auto intro: filter_cong)
  then show "map fingerprint (NewlyOpen (res st')) =
      map fingerprint (filter (\<lambda>f. well_formed f \<and> opens (lookup s (?m, fingerprint f))) fresh)"
    using reconcile_fresh_newly_open [OF fresh] by_fingerprint_key R2
    by (auto simp: empty_result_def)
  show "status x = StatusOpen" if "x \<in> set (NewlyOpen (res st'))"
    using reconcile_fresh_newly_open_status [OF fresh, of x] R2 that
    by (auto simp: empty_result_def)
  have seen: "fp \<in> set (seen st1) \<longleftrightarrow> fresh_of fresh fp \<noteq> None" for fp
    using R1(3) by (simp add: fresh_of_None_iff)
  have "set (Resolved (res st')) =
      (\<lambda>r. finding_of (absent_record mi now r)) `
        {r \<in> set existing. fresh_of fresh (fingerprint r) = None \<and> \<not> leave_absent r
           \<and> absentStreak r + 1 \<ge> ResolveAfterOrDefault mi}"
    by (simp add: R2(1) R1(2) seen)
  also have "\<dots> = {finding_of (absent_record mi now r) | r fp.
              lookup s (?m, fp) = Some r \<and> target r = tgt \<and> fresh_of fresh fp = None
              \<and> \<not> leave_absent r \<and> absentStreak r + 1 \<ge> ResolveAfterOrDefault mi}"
    using tab by (auto simp: lists_table_set [OF tab]) (auto simp: lists_table_def)
  finally show "set (Resolved (res st')) = \<dots>" .
qed

text \<open>
  The order in which the store lists the existing records is irrelevant: the same findings are
  announced, and the store ends with the same content.
\<close>

theorem reconcile_order_irrelevant:
  assumes run1: "reconcile_with upsert newID mi now ex1 fresh st = (None, st1)"
    and run2: "reconcile_with upsert newID mi now ex2 fresh st = (None, st2)"
    and perm: "mset ex1 = mset ex2"
    and lst: "good (db st)" "accepts (module_ID mi)"
      "lists_table ex1 (\<lambda>fp. lookup (db st) (module_ID mi, fp)) (\<lambda>r. target r = tgt)"
    and fresh: "distinct (map fingerprint (filter well_formed fresh))" "seen st = []"
    and own: "\<forall>f r. f \<in> set fresh \<longrightarrow> well_formed f \<longrightarrow>
           lookup (db st) (module_ID mi, fingerprint f) = Some r \<longrightarrow> target r = tgt"
  shows "accepts m \<Longrightarrow> lookup (db st1) (m, fp) = lookup (db st2) (m, fp)"
    and "NewlyOpen (res st1) = NewlyOpen (res st2)"
    and "Rejected (res st1) = Rejected (res st2)"
    and "mset (Resolved (res st1)) = mset (Resolved (res st2))"
proof -
  let ?m = "module_ID mi"
  have set_eq: "set ex1 = set ex2" using perm by (metis set_mset_mset)
  have dist1: "distinct (map fingerprint ex1)" using lst(3) by (simp add: lists_table_def)
  have dist2: "distinct (map fingerprint ex2)"
    using dist1 perm by (metis mset_map mset_eq_imp_distinct_iff)
  have by_eq: "by_fingerprint ex2 = by_fingerprint ex1"
    using by_fingerprint_perm [OF dist2 dist1] set_eq by simp
  from run1 obtain sa where fr: "reconcile_fresh upsert newID mi now (by_fingerprint ex1) fresh st =
      (None, sa)" and a1: "reconcile_absent upsert mi now ex1 sa = (None, st1)"
    by (auto simp: reconcile_with_def split: prod.splits option.splits)
  from run2 fr by_eq have a2: "reconcile_absent upsert mi now ex2 sa = (None, st2)"
    by (auto simp: reconcile_with_def split: prod.splits option.splits)
  have "\<forall>f. f \<in> set fresh \<longrightarrow> well_formed f \<longrightarrow>
      by_fingerprint ex1 (fingerprint f) = lookup (db st) (?m, fingerprint f)"
    using own by (auto simp: by_fingerprint_lookup [OF lst(3)] split: option.splits)
  note C = reconcile_fresh_content [OF fr lst(1,2) fresh(1) this]
  have seen: "fp \<in> set (seen sa) \<longleftrightarrow> fresh_of fresh fp \<noteq> None" for fp
    using reconcile_fresh_report(3) [OF fr] fresh(2) by (simp add: fresh_of_None_iff)
  have mid: "\<forall>r. r \<in> set ex1 \<longrightarrow> fingerprint r \<notin> set (seen sa) \<longrightarrow>
      lookup (db sa) (?m, fingerprint r) = Some r"
    using C lst(2) lists_table_set [OF lst(3)] seen by auto
  note A1 = reconcile_absent_content [OF a1 conjunct1 [OF C] lst(2) dist1 mid]
  note A2 = reconcile_absent_content [OF a2 conjunct1 [OF C] lst(2) dist2 mid [unfolded set_eq]]
  show "lookup (db st1) (m, fp) = lookup (db st2) (m, fp)" if "accepts m"
    using A1 A2 that by (simp add: set_eq)
  show "NewlyOpen (res st1) = NewlyOpen (res st2)" "Rejected (res st1) = Rejected (res st2)"
    using reconcile_absent_report(2,3) [OF a1] reconcile_absent_report(2,3) [OF a2] by simp_all
  show "mset (Resolved (res st1)) = mset (Resolved (res st2))"
    using reconcile_absent_report(1) [OF a1] reconcile_absent_report(1) [OF a2] perm
    by (simp add: mset_filter)
qed

end

subsection \<open>Sequences of scans\<close>

text \<open>
  Scans one after the other, at the given instants, each feeding the store and the id generator
  of the next; \<open>None\<close> when one of them fails.
\<close>

fun scans ::
  "(gostring \<Rightarrow> gostring \<Rightarrow> 's \<Rightarrow> (goerror + frec list) \<times> 's) \<Rightarrow> (frec \<Rightarrow> 's \<Rightarrow> goerror option \<times> 's) \<Rightarrow>
   (instant \<Rightarrow> nat \<Rightarrow> goerror + gostring) \<Rightarrow> module_info \<Rightarrow> gostring \<Rightarrow>
   (instant \<times> finding list) list \<Rightarrow> 's \<Rightarrow> nat \<Rightarrow> ('s \<times> nat) option" where
  "scans lst ups newID mi tgt [] s n = Some (s, n)"
| "scans lst ups newID mi tgt ((now, fresh) # rest) s n =
     (case Reconcile lst ups newID mi tgt now fresh s n of
        (Some e, st) \<Rightarrow> None
      | (None, st) \<Rightarrow> scans lst ups newID mi tgt rest (db st) (drawn st))"

text \<open>What becomes of a record the collector stays silent about, scan after scan.\<close>

definition absent_run :: "module_info \<Rightarrow> gostring \<Rightarrow> instant list \<Rightarrow> frec option \<Rightarrow> frec option" where
  "absent_run mi tgt nows prev = foldl (\<lambda>p now. absent_outcome mi now tgt p) prev nows"

lemma absent_run_resolved:
  assumes "leave_absent r"
  shows "absent_run mi tgt nows (Some r) = Some r"
  using assms by (induction nows) (auto simp: absent_run_def absent_outcome_def)

text \<open>
  A live record survives until the number of consecutive absences reaches the threshold, and is
  resolved by exactly the scan that reaches it.
\<close>

lemma absent_run_live:
  assumes "target r = tgt" "\<not> leave_absent r" "absentStreak r < ResolveAfterOrDefault mi"
  shows "\<exists>r'. absent_run mi tgt nows (Some r) = Some r' \<and>
    (if absentStreak r + int (length nows) < ResolveAfterOrDefault mi
     then status r' = status r \<and> absentStreak r' = absentStreak r + int (length nows)
     else status r' = StatusResolved \<and> absentStreak r' = ResolveAfterOrDefault mi
        \<and> resolvedAt r' = Some (nows ! nat (ResolveAfterOrDefault mi - absentStreak r - 1)))"
  using assms
proof (induction nows arbitrary: r)
  case Nil
  then show ?case by (simp add: absent_run_def)
next
  case (Cons now nows)
  let ?r = "absent_record mi now r" and ?T = "ResolveAfterOrDefault mi"
  have step: "absent_run mi tgt (now # nows) (Some r) = absent_run mi tgt nows (Some ?r)"
    using Cons.prems by (simp add: absent_run_def absent_outcome_def)
  show ?case
  proof (cases "absentStreak r + 1 \<ge> ?T")
    case True
    then have "leave_absent ?r" by (simp add: leave_absent_def)
    with step True Cons.prems(3) show ?thesis
      by (simp add: absent_run_resolved) (simp add: absent_record_def Let_def)
  next
    case False
    then have r: "target ?r = tgt" "\<not> leave_absent ?r" "absentStreak ?r < ?T"
      using Cons.prems by (auto simp: leave_absent_def)
    have idx: "nat (?T - absentStreak r - 1) = Suc (nat (?T - absentStreak ?r - 1))"
      using False by simp
    have st: "status ?r = status r" using False by simp
    have streak: "absentStreak ?r = absentStreak r + 1" using False by simp
    have sum: "absentStreak r + int (length (now # nows)) = absentStreak ?r + int (length nows)"
      by (simp add: streak)
    have nth: "(now # nows) ! nat (?T - absentStreak r - 1) = nows ! nat (?T - absentStreak ?r - 1)"
      by (simp only: idx nth_Cons_Suc)
    from Cons.IH [OF r] show ?thesis by (simp only: step sum nth st)
  qed
qed

context finding_store
begin

lemma scans_silent:
  assumes "scans list_by_target upsert newID mi tgt (map (\<lambda>now. (now, [])) nows) s n = Some (s', n')"
    and "good s" "accepts (module_ID mi)"
  shows "good s' \<and> lookup s' (module_ID mi, fp) =
           absent_run mi tgt nows (lookup s (module_ID mi, fp))"
  using assms(1,2)
proof (induction nows arbitrary: s n)
  case Nil
  then show ?case by (simp add: absent_run_def)
next
  case (Cons now nows)
  then obtain st where run: "Reconcile list_by_target upsert newID mi tgt now [] s n = (None, st)"
    and rest: "scans list_by_target upsert newID mi tgt (map (\<lambda>now. (now, [])) nows) (db st) (drawn st)
        = Some (s', n')"
    by (auto split: prod.splits option.splits)
  note C = reconcile_content [OF run Cons.prems(2) assms(3)]
  have "good (db st)" using C(1) by simp
  moreover have "lookup (db st) (module_ID mi, fp) =
      absent_outcome mi now tgt (lookup s (module_ID mi, fp))"
    using C(4) [where fp = fp] by (simp add: fresh_of_def)
  ultimately show ?case using Cons.IH [OF rest] by (simp add: absent_run_def)
qed

end

subsection \<open>Records across scans\<close>

context finding_store
begin

text \<open>
  One scan keeps every record it finds, with its identity, and keeps the user's decision: a
  suppressed record stays suppressed, an acknowledged one is at most resolved, and only when
  the scan did not report it.
\<close>

lemma reconcile_keeps_record:
  assumes run: "Reconcile list_by_target upsert newID mi tgt now fresh s n = (None, st')"
    and good: "good s" and acc: "accepts (module_ID mi)"
    and dist: "distinct (map fingerprint (filter well_formed fresh))"
    and own: "\<forall>f r. f \<in> set fresh \<longrightarrow> well_formed f \<longrightarrow>
           lookup s (module_ID mi, fingerprint f) = Some r \<longrightarrow> target r = tgt"
    and r: "lookup s (module_ID mi, fp) = Some r"
  shows "\<exists>r'. lookup (db st') (module_ID mi, fp) = Some r' \<and> same_identity r' r
    \<and> (status r = StatusSuppressed \<longrightarrow> status r' = StatusSuppressed)
    \<and> (status r = StatusAcknowledged \<longrightarrow> status r' = StatusAcknowledged
          \<or> status r' = StatusResolved \<and> fresh_of fresh fp = None)"
proof (cases "fresh_of fresh fp")
  case None
  with reconcile_content(4) [OF run good acc dist own] r
  have "lookup (db st') (module_ID mi, fp) =
      Some (if target r = tgt \<and> \<not> leave_absent r then absent_record mi now r else r)"
    by (simp add: absent_outcome_def)
  then show ?thesis by (auto simp: None same_identity_def leave_absent_def)
next
  case (Some f)
  with reconcile_content(3) [OF run good acc dist own] r obtain r' where
    "lookup (db st') (module_ID mi, fp) = Some r'"
    "fresh_outcome keep (module_ID mi) now (Some r) f r'" by fastforce
  then show ?thesis by (auto simp: fresh_outcome_def same_identity_def)
qed

text \<open>
  A fingerprint is computed from its target, so every record and every finding of one fingerprint
  has the target \<open>owner\<close> gives it. Scans keep this, and under it a record survives any history
  of scans with its identity, and a suppressed one with its status.
\<close>

definition owned :: "(gostring \<Rightarrow> gostring) \<Rightarrow> module_info \<Rightarrow> 's \<Rightarrow> bool" where
  "owned owner mi s \<longleftrightarrow> (\<forall>fp r. lookup s (module_ID mi, fp) = Some r \<longrightarrow> target r = owner fp)"

lemma reconcile_owned:
  assumes run: "Reconcile list_by_target upsert newID mi tgt now fresh s n = (None, st')"
    and good: "good s" and acc: "accepts (module_ID mi)" and inv: "owned owner mi s"
    and input: "distinct (map fingerprint (filter well_formed fresh))"
      "\<forall>f \<in> set fresh. well_formed f \<longrightarrow> owner (fingerprint f) = tgt \<and> target f = tgt"
  shows "good (db st') \<and> owned owner mi (db st')"
proof -
  have own: "\<forall>f r. f \<in> set fresh \<longrightarrow> well_formed f \<longrightarrow>
      lookup s (module_ID mi, fingerprint f) = Some r \<longrightarrow> target r = tgt"
    using inv input(2) by (auto simp: owned_def)
  note C = reconcile_content [OF run good acc input(1) own]
  have "target r = owner fp" if r: "lookup (db st') (module_ID mi, fp) = Some r" for fp r
  proof (cases "fresh_of fresh fp")
    case None
    then show ?thesis using C(4) [OF None] r inv
      by (auto simp: owned_def absent_outcome_def split: option.splits if_splits)
  next
    case (Some f)
    then have f: "f \<in> set fresh" "well_formed f" "fingerprint f = fp"
      by (auto simp: fresh_of_def find_Some_iff)
    from C(3) [OF Some] r have "fresh_outcome keep (module_ID mi) now (lookup s (module_ID mi, fp)) f r"
      by auto
    then show ?thesis using f input(2) inv
      by (auto simp: fresh_outcome_def owned_def split: option.splits)
  qed
  then show ?thesis using C(1) by (simp add: owned_def)
qed

lemma scans_keep_record:
  assumes "scans list_by_target upsert newID mi tgt history s n = Some (s', n')"
    and "good s" "accepts (module_ID mi)" "owned owner mi s"
    and "\<forall>(now, fresh) \<in> set history. distinct (map fingerprint (filter well_formed fresh))
           \<and> (\<forall>f \<in> set fresh. well_formed f \<longrightarrow> owner (fingerprint f) = tgt \<and> target f = tgt)"
    and "lookup s (module_ID mi, fp) = Some r"
  shows "\<exists>r'. lookup s' (module_ID mi, fp) = Some r' \<and> same_identity r' r
    \<and> (status r = StatusSuppressed \<longrightarrow> status r' = StatusSuppressed)"
  using assms
proof (induction history arbitrary: s n r)
  case Nil
  then show ?case by (simp add: same_identity_def)
next
  case (Cons h rest)
  obtain now fresh where h: "h = (now, fresh)" by (cases h)
  from Cons.prems(1) h obtain st where
    run: "Reconcile list_by_target upsert newID mi tgt now fresh s n = (None, st)"
    and rest: "scans list_by_target upsert newID mi tgt rest (db st) (drawn st) = Some (s', n')"
    by (auto split: prod.splits option.splits)
  have input: "distinct (map fingerprint (filter well_formed fresh))"
    "\<forall>f \<in> set fresh. well_formed f \<longrightarrow> owner (fingerprint f) = tgt \<and> target f = tgt"
    using Cons.prems(5) by (auto simp: h)
  note inv = reconcile_owned [OF run Cons.prems(2-4) input]
  have own: "\<forall>f r. f \<in> set fresh \<longrightarrow> well_formed f \<longrightarrow>
      lookup s (module_ID mi, fingerprint f) = Some r \<longrightarrow> target r = tgt"
    using Cons.prems(4) input(2) by (auto simp: owned_def)
  from reconcile_keeps_record [OF run Cons.prems(2,3) input(1) own Cons.prems(6)] obtain r1 where
    r1: "lookup (db st) (module_ID mi, fp) = Some r1" "same_identity r1 r"
      "status r = StatusSuppressed \<longrightarrow> status r1 = StatusSuppressed" by blast
  have "\<forall>(now, fresh) \<in> set rest. distinct (map fingerprint (filter well_formed fresh))
      \<and> (\<forall>f \<in> set fresh. well_formed f \<longrightarrow> owner (fingerprint f) = tgt \<and> target f = tgt)"
    using Cons.prems(5) by simp
  from Cons.IH [OF rest conjunct1 [OF inv] Cons.prems(3) conjunct2 [OF inv] this r1(1)]
  show ?case using r1(2,3) by (auto simp: same_identity_def)
qed

end

end
