(* ===== verification/SqliteStore.thy ===== *)
theory SqliteStore
  imports Reconcile
begin

section \<open>The SQLite store (\<open>store/sqlite.go\<close>)\<close>

text \<open>
  The production store: two tables and the statements the Go code runs on them, each statement one
  function on the tables. A table is the list of its rows in rowid order. The driver and the
  engine behind \<open>database/sql\<close> are not part of the program, so a statement may fail at any time:
  \<open>faults\<close> lists what the driver answers to the next statements, \<open>Some e\<close> for an error, and
  succeeds once the list is used up. A timestamp column holds the instant, the evidence column
  the JSON value its text denotes.
\<close>

record frow =
  c_id :: gostring
  c_fingerprint :: gostring
  c_module :: gostring
  c_target :: gostring
  c_check_id :: gostring
  c_title :: gostring
  c_severity :: gostring
  c_status :: gostring
  c_remediation :: gostring
  c_evidence :: evidence
  c_group_id :: "gostring option"
  c_first_seen :: instant
  c_last_seen :: instant
  c_resolved_at :: "instant option"
  c_absent_streak :: int

record trow =
  t_module :: gostring
  t_raw :: gostring
  t_canonical :: gostring

record sqldb =
  findings :: "frow list"
  targets :: "trow list"
  faults :: "goerror option list"

text \<open>A freshly migrated database.\<close>

definition sql_migrate :: "goerror option list \<Rightarrow> sqldb" where
  "sql_migrate fs = \<lparr>findings = [], targets = [], faults = fs\<rparr>"

definition exec :: "sqldb \<Rightarrow> goerror option \<times> sqldb" where
  "exec d = (case faults d of [] \<Rightarrow> (None, d) | x # xs \<Rightarrow> (x, d\<lparr>faults := xs\<rparr>))"

lemma exec_tables:
  "exec d = (x, d') \<Longrightarrow> findings d' = findings d \<and> targets d' = targets d"
  by (auto simp: exec_def split: list.splits)

subsection \<open>Rows\<close>

definition marshalEvidence :: "evidence \<Rightarrow> goerror + evidence" where
  "marshalEvidence ev =
     (case ev of
        None \<Rightarrow> Inr None
      | Some kvs \<Rightarrow>
          (case json_value (AMap kvs) of
             Some (AMap w) \<Rightarrow> Inr (Some w)
           | _ \<Rightarrow> Inl ''marshal evidence''))"

text \<open>
  The evidence column holds a JSON value, since only \<open>marshalEvidence\<close> writes it; the marker
  \<open>scanRecord\<close> puts for text that is none is left out.
\<close>

definition scanRecord :: "frow \<Rightarrow> frec" where
  "scanRecord w =
     \<lparr>fingerprint = c_fingerprint w, target = c_target w, check = c_check_id w, title = c_title w,
      severity = c_severity w, remediation = c_remediation w, evidence = c_evidence w,
      finding_id = c_id w, finding_module = c_module w, status = c_status w,
      groupID = c_group_id w, firstSeen = c_first_seen w, lastSeen = c_last_seen w,
      resolvedAt = c_resolved_at w, absentStreak = c_absent_streak w\<rparr>"

definition excluded_row :: "frec \<Rightarrow> evidence \<Rightarrow> frow" where
  "excluded_row r ev =
     \<lparr>c_id = finding_id r, c_fingerprint = fingerprint r, c_module = finding_module r,
      c_target = target r, c_check_id = check r, c_title = title r, c_severity = severity r,
      c_status = status r, c_remediation = remediation r, c_evidence = ev,
      c_group_id = groupID r, c_first_seen = firstSeen r, c_last_seen = lastSeen r,
      c_resolved_at = resolvedAt r, c_absent_streak = absentStreak r\<rparr>"

definition row_key :: "frow \<Rightarrow> gostring \<times> gostring" where
  "row_key w = (c_module w, c_fingerprint w)"

text \<open>\<open>DO UPDATE SET\<close>: the columns an upsert overwrites in the row it conflicts with.\<close>

definition do_update :: "frow \<Rightarrow> frow \<Rightarrow> frow" where
  "do_update w x =
     w\<lparr>c_title := c_title x, c_severity := c_severity x, c_status := c_status x,
       c_remediation := c_remediation x, c_evidence := c_evidence x, c_group_id := c_group_id x,
       c_last_seen := c_last_seen x, c_resolved_at := c_resolved_at x,
       c_absent_streak := c_absent_streak x\<rparr>"

lemma row_key_do_update [simp]: "row_key (do_update w x) = row_key w" "c_id (do_update w x) = c_id w"
  by (simp_all add: row_key_def do_update_def)

lemma row_key_excluded [simp]:
  "row_key (excluded_row r ev) = rkey r" "c_id (excluded_row r ev) = finding_id r"
  "c_evidence (excluded_row r ev) = ev"
  by (simp_all add: row_key_def excluded_row_def rkey_def)

lemma scanRecord_excluded: "scanRecord (excluded_row r ev) = r\<lparr>evidence := ev\<rparr>"
  by (simp add: scanRecord_def excluded_row_def)

lemma rkey_scanRecord [simp]: "rkey (scanRecord w) = row_key w"
  by (simp add: rkey_def scanRecord_def row_key_def)

lemma scanRecord_do_update:
  "row_key w = rkey r \<Longrightarrow> same_identity r (scanRecord w) \<Longrightarrow>
     scanRecord (do_update w (excluded_row r ev)) = r\<lparr>evidence := ev\<rparr>"
  by (simp add: scanRecord_def do_update_def excluded_row_def same_identity_def rkey_def row_key_def)

lemma scanRecord_fields [simp]:
  "fingerprint (scanRecord w) = c_fingerprint w" "finding_module (scanRecord w) = c_module w"
  "target (scanRecord w) = c_target w" "status (scanRecord w) = c_status w"
  "evidence (scanRecord w) = c_evidence w"
  by (simp_all add: scanRecord_def)

subsection \<open>Statements on \<open>findings\<close>\<close>

definition sql_Upsert :: "frec \<Rightarrow> sqldb \<Rightarrow> goerror option \<times> sqldb" where
  "sql_Upsert r d =
     (case marshalEvidence (evidence r) of
        Inl e \<Rightarrow> (Some e, d)
      | Inr ev \<Rightarrow>
          (case exec d of
             (Some e, d) \<Rightarrow> (Some e, d)
           | (None, d) \<Rightarrow>
               (let x = excluded_row r ev in
                if list_ex (\<lambda>w. row_key w = row_key x) (findings d) then
                  (None, d\<lparr>findings :=
                     map (\<lambda>w. if row_key w = row_key x then do_update w x else w) (findings d)\<rparr>)
                else if list_ex (\<lambda>w. c_id w = c_id x) (findings d) then
                  (Some ''UNIQUE constraint failed: findings.id'', d)
                else (None, d\<lparr>findings := findings d @ [x]\<rparr>))))"

definition query ::
  "(frow \<Rightarrow> bool) \<Rightarrow> (frow list \<Rightarrow> frow list) \<Rightarrow> sqldb \<Rightarrow> (goerror + frec list) \<times> sqldb" where
  "query P arrange d =
     (case exec d of
        (Some e, d) \<Rightarrow> (Inl e, d)
      | (None, d) \<Rightarrow> (Inr (map scanRecord (arrange (filter P (findings d)))), d))"

definition sql_ListByTarget ::
  "gostring \<Rightarrow> gostring \<Rightarrow> sqldb \<Rightarrow> (goerror + frec list) \<times> sqldb" where
  "sql_ListByTarget module_id tgt = query (\<lambda>w. c_module w = module_id \<and> c_target w = tgt) id"

definition sql_ListOpen :: "gostring \<Rightarrow> sqldb \<Rightarrow> (goerror + frec list) \<times> sqldb" where
  "sql_ListOpen module_id = query (\<lambda>w. c_module w = module_id \<and> c_status w = StatusOpen) id"

definition sql_ListAll :: "gostring \<Rightarrow> sqldb \<Rightarrow> (goerror + frec list) \<times> sqldb" where
  "sql_ListAll module_id =
     query (\<lambda>w. c_module w = module_id) (sort_key (\<lambda>w. - c_last_seen w))"

definition sql_Get :: "gostring \<Rightarrow> gostring \<Rightarrow> sqldb \<Rightarrow> (goerror + frec option) \<times> sqldb" where
  "sql_Get module_id fp d =
     (case exec d of
        (Some e, d) \<Rightarrow> (Inl e, d)
      | (None, d) \<Rightarrow>
          (Inr (map_option scanRecord (find (\<lambda>w. c_module w = module_id \<and> c_fingerprint w = fp) (findings d))), d))"

text \<open>\<open>VACUUM\<close> changes no row.\<close>

definition sql_Vacuum :: "sqldb \<Rightarrow> goerror option \<times> sqldb" where
  "sql_Vacuum d = exec d"

definition sql_PruneResolvedBefore :: "instant \<Rightarrow> sqldb \<Rightarrow> (goerror + nat) \<times> sqldb" where
  "sql_PruneResolvedBefore cutoff d =
     (case exec d of
        (Some e, d) \<Rightarrow> (Inl e, d)
      | (None, d) \<Rightarrow>
          (let gone = (\<lambda>w. c_status w = StatusResolved \<and>
                 (case c_resolved_at w of None \<Rightarrow> False | Some t \<Rightarrow> t < cutoff))
           in (Inr (length (filter gone (findings d))),
               d\<lparr>findings := filter (\<lambda>w. \<not> gone w) (findings d)\<rparr>)))"

subsection \<open>The store contract\<close>

definition sql_lookup :: "sqldb \<Rightarrow> gostring \<times> gostring \<Rightarrow> frec option" where
  "sql_lookup d k = map_option scanRecord (find (\<lambda>w. row_key w = k) (findings d))"

definition sql_keep :: "evidence \<Rightarrow> evidence option" where
  "sql_keep ev = (case marshalEvidence ev of Inl e \<Rightarrow> None | Inr ev' \<Rightarrow> Some ev')"

definition sql_good :: "sqldb \<Rightarrow> bool" where
  "sql_good d \<longleftrightarrow>
     distinct (map row_key (findings d)) \<and> distinct (map c_id (findings d))
     \<and> (\<forall>w \<in> set (findings d). sql_keep (c_evidence w) = Some (c_evidence w))"

lemma sql_good_migrate: "sql_good (sql_migrate fs)"
  by (simp add: sql_good_def sql_migrate_def)

lemma sql_keep_idem: "sql_keep ev = Some ev' \<Longrightarrow> sql_keep ev' = Some ev'"
  by (auto simp: sql_keep_def marshalEvidence_def dest: json_value_idem simp del: json_value.simps
      split: option.splits sum.splits jany.splits)

lemma find_key_iff:
  assumes "distinct (map f xs)"
  shows "find (\<lambda>x. f x = k) xs = Some x \<longleftrightarrow> x \<in> set xs \<and> f x = k"
  using assms by (induction xs) auto

lemma sql_lookup_iff:
  "sql_good d \<Longrightarrow>
     sql_lookup d k = Some r \<longleftrightarrow> (\<exists>w \<in> set (findings d). row_key w = k \<and> r = scanRecord w)"
  by (auto simp: sql_lookup_def sql_good_def find_key_iff)

lemma sql_lookup_None_iff: "sql_lookup d k = None \<longleftrightarrow> (\<forall>w \<in> set (findings d). row_key w \<noteq> k)"
  by (auto simp: sql_lookup_def find_None_iff)

text \<open>The two ways an upsert can succeed, and what it does to the table.\<close>

lemma sql_Upsert_cases:
  assumes "sql_Upsert r d = (None, d')"
  obtains (update) ev where "sql_keep (evidence r) = Some ev"
      and "\<exists>w \<in> set (findings d). row_key w = rkey r"
      and "findings d' = map (\<lambda>w. if row_key w = rkey r then do_update w (excluded_row r ev) else w) (findings d)"
  | (insert) ev where "sql_keep (evidence r) = Some ev"
      and "\<forall>w \<in> set (findings d). row_key w \<noteq> rkey r \<and> c_id w \<noteq> finding_id r"
      and "findings d' = findings d @ [excluded_row r ev]"
proof -
  from assms obtain ev d1 where m: "marshalEvidence (evidence r) = Inr ev" and e: "exec d = (None, d1)"
    by (auto simp: sql_Upsert_def split: sum.splits prod.splits option.splits)
  have keep: "sql_keep (evidence r) = Some ev" using m by (simp add: sql_keep_def)
  have d1: "findings d1 = findings d" using exec_tables [OF e] by simp
  show thesis
  proof (cases "\<exists>w \<in> set (findings d). row_key w = rkey r")
    case True
    with assms m e have "findings d' =
        map (\<lambda>w. if row_key w = rkey r then do_update w (excluded_row r ev) else w) (findings d)"
      by (auto simp: sql_Upsert_def Let_def d1 list_ex_iff)
    with keep True show ?thesis by (rule update)
  next
    case False
    with assms m e have "findings d' = findings d @ [excluded_row r ev]"
      and "\<forall>w \<in> set (findings d). c_id w \<noteq> finding_id r"
      by (auto simp: sql_Upsert_def Let_def d1 list_ex_iff split: if_splits)
    with keep False show ?thesis by (intro insert) auto
  qed
qed

lemma sql_Upsert_Some: "sql_Upsert r d = (Some e, d') \<Longrightarrow> findings d' = findings d"
  by (auto simp: sql_Upsert_def Let_def dest: exec_tables
      split: sum.splits prod.splits option.splits if_splits)

lemma sql_good_Upsert: "sql_good d \<Longrightarrow> sql_Upsert r d = (x, d') \<Longrightarrow> sql_good d'"
proof (cases x)
  case None
  assume good: "sql_good d" and run: "sql_Upsert r d = (x, d')"
  from run None have "sql_Upsert r d = (None, d')" by simp
  then show ?thesis
  proof (cases rule: sql_Upsert_cases)
    case (update ev)
    let ?u = "\<lambda>w. if row_key w = rkey r then do_update w (excluded_row r ev) else w"
    have "row_key \<circ> ?u = row_key" "c_id \<circ> ?u = c_id" by (simp_all add: fun_eq_iff)
    moreover have "c_evidence (do_update w (excluded_row r ev)) = ev" for w
      by (simp add: do_update_def excluded_row_def)
    ultimately show ?thesis
      using good sql_keep_idem [OF update(1)] unfolding sql_good_def update(3) by auto
  next
    case (insert ev)
    then show ?thesis
      using good sql_keep_idem [OF insert(1)]
      by (force simp: sql_good_def)
  qed
qed (simp add: sql_good_def sql_Upsert_Some)

lemma sql_good_tables: "findings d' = findings d \<Longrightarrow> sql_good d \<Longrightarrow> sql_good d'"
  by (simp add: sql_good_def)

lemma sql_lookup_tables: "findings d' = findings d \<Longrightarrow> sql_lookup d' = sql_lookup d"
  by (simp add: sql_lookup_def fun_eq_iff)

lemma query_ok:
  assumes "query P arrange d = (Inr rs, d')" "mset (arrange (filter P (findings d))) = mset (filter P (findings d))"
  shows "mset rs = mset (map scanRecord (filter P (findings d))) \<and> findings d' = findings d"
  using assms by (auto simp: query_def dest: exec_tables split: prod.splits option.splits)

lemma query_err: "query P arrange d = (Inl e, d') \<Longrightarrow> findings d' = findings d"
  by (auto simp: query_def dest: exec_tables split: prod.splits option.splits)

lemma query_lookup:
  assumes "sql_good d" "query P arrange d = (Inr rs, d')"
    and "mset (arrange (filter P (findings d))) = mset (filter P (findings d))"
    and "\<And>w. P w \<longleftrightarrow> c_module w = m \<and> Q (scanRecord w)"
  shows "sql_good d' \<and> sql_lookup d' = sql_lookup d \<and> distinct (map fingerprint rs)
           \<and> (\<forall>r. r \<in> set rs \<longleftrightarrow> sql_lookup d (m, fingerprint r) = Some r \<and> Q r)"
proof -
  from query_ok [OF assms(2,3)] have rs: "mset rs = mset (map scanRecord (filter P (findings d)))"
    and tab: "findings d' = findings d" by auto
  have setrs: "set rs = scanRecord ` {w \<in> set (findings d). P w}"
    using arg_cong [OF rs, of set_mset] by simp
  have "distinct (map row_key (filter P (findings d)))"
    using assms(1) by (auto simp: sql_good_def intro: distinct_map_filter)
  moreover have "map row_key (filter P (findings d)) =
      map (Pair m) (map fingerprint (map scanRecord (filter P (findings d))))"
    using assms(4) by (auto simp: row_key_def)
  ultimately have "distinct (map fingerprint (map scanRecord (filter P (findings d))))"
    by (metis distinct_map)
  then have "distinct (map fingerprint rs)"
    using rs by (metis mset_map mset_eq_imp_distinct_iff)
  moreover have "r \<in> set rs \<longleftrightarrow> sql_lookup d (m, fingerprint r) = Some r \<and> Q r" for r
    using assms(4) by (auto simp: setrs sql_lookup_iff [OF assms(1)] row_key_def)
  ultimately show ?thesis
    using sql_good_tables [OF tab assms(1)] sql_lookup_tables [OF tab] by blast
qed

lemma sql_Upsert_here:
  assumes "sql_good d" "sql_Upsert r d = (None, d')"
    and "\<And>q. sql_lookup d (rkey r) = Some q \<Longrightarrow> same_identity r q"
  shows "\<exists>ev. sql_keep (evidence r) = Some ev \<and> sql_lookup d' (rkey r) = Some (r\<lparr>evidence := ev\<rparr>)"
  using assms(2)
proof (cases rule: sql_Upsert_cases)
  case (update ev)
  then obtain w where w: "w \<in> set (findings d)" "row_key w = rkey r" by blast
  then have "same_identity r (scanRecord w)"
    using assms(1,3) by (auto simp: sql_lookup_iff)
  then have "scanRecord (do_update w (excluded_row r ev)) = r\<lparr>evidence := ev\<rparr>"
    using w(2) by (rule scanRecord_do_update [rotated])
  moreover have "do_update w (excluded_row r ev) \<in> set (findings d')"
    using w by (force simp: update(3))
  moreover have "sql_good d'" by (rule sql_good_Upsert [OF assms(1,2)])
  ultimately have "sql_lookup d' (rkey r) = Some (r\<lparr>evidence := ev\<rparr>)"
    using w(2) by (auto simp: sql_lookup_iff intro!: bexI [of _ "do_update w (excluded_row r ev)"])
  with update(1) show ?thesis by blast
next
  case (insert ev)
  have "sql_good d'" by (rule sql_good_Upsert [OF assms(1,2)])
  then have "sql_lookup d' (rkey r) = Some (r\<lparr>evidence := ev\<rparr>)"
    using insert(3)
    by (auto simp: sql_lookup_iff scanRecord_excluded intro!: bexI [of _ "excluded_row r ev"])
  with insert(1) show ?thesis by blast
qed

lemma sql_Upsert_elsewhere:
  assumes "sql_good d" "sql_Upsert r d = (None, d')" "k \<noteq> rkey r"
  shows "sql_lookup d' k = sql_lookup d k"
proof -
  have good: "sql_good d'" by (rule sql_good_Upsert [OF assms(1,2)])
  from assms(2) have "sql_lookup d' k = Some q \<longleftrightarrow> sql_lookup d k = Some q" for q
    by (cases rule: sql_Upsert_cases) (use assms(3) in \<open>auto simp: sql_lookup_iff [OF good] sql_lookup_iff [OF assms(1)]\<close>)
  then show ?thesis by (rule option_ext)
qed

lemma sql_Get_tables: "sql_Get m fp d = (x, d') \<Longrightarrow> findings d' = findings d"
  by (auto simp: sql_Get_def dest: exec_tables split: prod.splits option.splits)

lemma sql_Get_lookup:
  assumes "sql_Get m fp d = (Inr q, d')"
  shows "q = sql_lookup d (m, fp)"
proof -
  have "q = map_option scanRecord (find (\<lambda>w. c_module w = m \<and> c_fingerprint w = fp) (findings d'))"
    using assms by (auto simp: sql_Get_def split: prod.splits option.splits)
  moreover have "(\<lambda>w. c_module w = m \<and> c_fingerprint w = fp) = (\<lambda>w. row_key w = (m, fp))"
    by (auto simp: row_key_def)
  ultimately show ?thesis using sql_Get_tables [OF assms] by (simp add: sql_lookup_def)
qed

interpretation sql: finding_store sql_ListByTarget sql_Upsert sql_Get sql_ListOpen sql_ListAll
    sql_lookup sql_good "\<lambda>_. True" sql_keep
proof (unfold_locales, goal_cases)
  case (1 s m fp r)
  then show ?case by (auto simp: sql_lookup_iff)
next
  case (2 s m fp r)
  then show ?case by (auto simp: sql_lookup_iff sql_good_def)
next
  case (3 s m t rs s')
  then show ?case
    using query_lookup [where m = m and Q = "\<lambda>r. target r = t"]
    by (simp add: sql_ListByTarget_def)
next
  case (4 s m t e s')
  then show ?case
    using query_err sql_good_tables sql_lookup_tables by (metis sql_ListByTarget_def)
next
  case (5 s r s')
  then show ?case using sql_Upsert_here [OF 5(1,3)] by blast
next
  case (6 s r s' m fp)
  then show ?case using sql_Upsert_elsewhere [OF 6(1,3)] by blast
next
  case (7 s r oe s')
  then show ?case by (blast intro: sql_good_Upsert)
next
  case (8 s r e s')
  then show ?case by (intro sql_lookup_tables sql_Upsert_Some)
next
  case (9 s m fp q s')
  then show ?case using sql_Get_lookup sql_Get_tables sql_good_tables sql_lookup_tables by metis
next
  case (10 s m fp e s')
  then show ?case using sql_Get_tables sql_good_tables sql_lookup_tables by metis
next
  case (11 s m rs s')
  then show ?case
    using query_lookup [where m = m and Q = "\<lambda>r. status r = StatusOpen"]
    by (simp add: sql_ListOpen_def)
next
  case (12 s m rs s')
  then show ?case
    using query_lookup [where m = m and Q = "\<lambda>r. True"]
    by (simp add: sql_ListAll_def)
qed

subsection \<open>Retention\<close>

text \<open>A record the retention job deletes: resolved, with a time of resolution before the cutoff.\<close>

definition expired :: "instant \<Rightarrow> frec \<Rightarrow> bool" where
  "expired cutoff r \<longleftrightarrow>
     status r = StatusResolved \<and> (\<exists>t. resolvedAt r = Some t \<and> t < cutoff)"

lemma find_filter_key:
  assumes "distinct (map f xs)"
  shows "find (\<lambda>x. f x = k) (filter P xs) =
     (case find (\<lambda>x. f x = k) xs of None \<Rightarrow> None | Some x \<Rightarrow> if P x then Some x else None)"
  using assms
proof (induction xs)
  case (Cons a xs)
  have tail: "find (\<lambda>x. f x = k) xs = None \<and> find (\<lambda>x. f x = k) (filter P xs) = None"
    if "f a = k"
  proof -
    have "f a \<notin> f ` set xs" using Cons.prems by simp
    then show ?thesis using that unfolding find_None_iff by (metis imageI filter_is_subset subsetD)
  qed
  show ?case
  proof (cases "f a = k")
    case True
    with tail show ?thesis by simp
  next
    case False
    with Cons show ?thesis by simp
  qed
qed simp

lemma expired_scanRecord:
  "expired cutoff (scanRecord w) \<longleftrightarrow>
     c_status w = StatusResolved \<and> (case c_resolved_at w of None \<Rightarrow> False | Some t \<Rightarrow> t < cutoff)"
  by (auto simp: expired_def scanRecord_def split: option.splits)

lemma sql_Prune_lookup:
  assumes "sql_good d" "sql_PruneResolvedBefore cutoff d = (Inr n, d')"
  shows "sql_good d'"
    and "sql_lookup d' k =
           (case sql_lookup d k of None \<Rightarrow> None | Some r \<Rightarrow> if expired cutoff r then None else Some r)"
    and "n + length (findings d') = length (findings d)"
    and "targets d' = targets d"
proof -
  from assms(2) obtain d1 where e: "exec d = (None, d1)"
    and n: "n = length (filter (\<lambda>w. expired cutoff (scanRecord w)) (findings d1))"
    and d': "d' = d1\<lparr>findings := filter (\<lambda>w. \<not> expired cutoff (scanRecord w)) (findings d1)\<rparr>"
    by (auto simp: sql_PruneResolvedBefore_def Let_def expired_scanRecord
        split: prod.splits option.splits)
  have f1: "findings d1 = findings d" "targets d1 = targets d" using exec_tables [OF e] by auto
  have dist: "distinct (map row_key (findings d))" using assms(1) by (simp add: sql_good_def)
  show "sql_good d'"
    using assms(1) by (auto simp: sql_good_def d' f1 distinct_map_filter)
  show "sql_lookup d' k =
      (case sql_lookup d k of None \<Rightarrow> None | Some r \<Rightarrow> if expired cutoff r then None else Some r)"
    by (simp add: sql_lookup_def d' f1 find_filter_key [OF dist] split: option.split)
  show "n + length (findings d') = length (findings d)"
    using sum_length_filter_compl [of "\<lambda>w. expired cutoff (scanRecord w)" "findings d"]
    by (simp add: n d' f1)
  show "targets d' = targets d" by (simp add: d' f1)
qed

subsection \<open>Statements on \<open>targets\<close>\<close>

definition sql_SaveTarget ::
  "gostring \<Rightarrow> gostring \<Rightarrow> gostring \<Rightarrow> sqldb \<Rightarrow> goerror option \<times> sqldb" where
  "sql_SaveTarget module_id raw canonical d =
     (case exec d of
        (Some e, d) \<Rightarrow> (Some e, d)
      | (None, d) \<Rightarrow>
          if list_ex (\<lambda>w. t_module w = module_id \<and> t_canonical w = canonical) (targets d) then (None, d)
          else (None, d\<lparr>targets := targets d @
                  [\<lparr>t_module = module_id, t_raw = raw, t_canonical = canonical\<rparr>]\<rparr>))"

definition sql_DeleteTarget :: "gostring \<Rightarrow> gostring \<Rightarrow> sqldb \<Rightarrow> goerror option \<times> sqldb" where
  "sql_DeleteTarget module_id canonical d =
     (case exec d of
        (Some e, d) \<Rightarrow> (Some e, d)
      | (None, d) \<Rightarrow>
          (None, d\<lparr>targets :=
             filter (\<lambda>w. \<not> (t_module w = module_id \<and> t_canonical w = canonical)) (targets d)\<rparr>))"

definition sql_ListSavedTargets :: "gostring \<Rightarrow> sqldb \<Rightarrow> (goerror + gostring list) \<times> sqldb" where
  "sql_ListSavedTargets module_id d =
     (case exec d of
        (Some e, d) \<Rightarrow> (Inl e, d)
      | (None, d) \<Rightarrow> (Inr (map t_raw (filter (\<lambda>w. t_module w = module_id) (targets d))), d))"

definition sql_targets_of :: "sqldb \<Rightarrow> gostring \<Rightarrow> (gostring \<times> gostring) list" where
  "sql_targets_of d m =
     map (\<lambda>w. (t_raw w, t_canonical w)) (filter (\<lambda>w. t_module w = m) (targets d))"

definition sql_targets_good :: "sqldb \<Rightarrow> bool" where
  "sql_targets_good d \<longleftrightarrow> (\<forall>m. distinct (map snd (sql_targets_of d m)))"

lemma sql_targets_of_delete:
  assumes "targets d' =
    filter (\<lambda>w. \<not> (t_module w = m \<and> t_canonical w = can)) (targets d)"
  shows "sql_targets_of d' m' =
    (if m' = m then filter (\<lambda>t. snd t \<noteq> can) (sql_targets_of d m) else sql_targets_of d m')"
proof -
  have "map (\<lambda>w. (t_raw w, t_canonical w))
          (filter (\<lambda>w. t_module w = m') (filter (\<lambda>w. \<not> (t_module w = m \<and> t_canonical w = can)) ws)) =
        (if m' = m then filter (\<lambda>t. snd t \<noteq> can)
           (map (\<lambda>w. (t_raw w, t_canonical w)) (filter (\<lambda>w. t_module w = m) ws))
         else map (\<lambda>w. (t_raw w, t_canonical w)) (filter (\<lambda>w. t_module w = m') ws))" for ws
    by (induction ws) auto
  then show ?thesis by (simp only: sql_targets_of_def assms)
qed

interpretation sql_t: target_store sql_SaveTarget sql_DeleteTarget sql_ListSavedTargets
    sql_targets_of sql_targets_good
proof (unfold_locales, goal_cases)
  case (1 s m)
  then show ?case by (simp add: sql_targets_good_def)
next
  case (2 s m raw can s')
  then obtain d1 where e: "exec s = (None, d1)"
    and s': "s' = (if list_ex (\<lambda>w. t_module w = m \<and> t_canonical w = can) (targets d1) then d1
        else d1\<lparr>targets := targets d1 @ [\<lparr>t_module = m, t_raw = raw, t_canonical = can\<rparr>]\<rparr>)"
    by (auto simp: sql_SaveTarget_def split: prod.splits option.splits if_splits)
  have "can \<in> snd ` set (sql_targets_of s m) \<longleftrightarrow>
      list_ex (\<lambda>w. t_module w = m \<and> t_canonical w = can) (targets d1)"
    using exec_tables [OF e] by (force simp: sql_targets_of_def list_ex_iff)
  then have "sql_targets_of s' = (sql_targets_of s)(m :=
      (if can \<in> snd ` set (sql_targets_of s m) then sql_targets_of s m
       else sql_targets_of s m @ [(raw, can)]))"
    using exec_tables [OF e] by (auto simp: s' sql_targets_of_def fun_eq_iff)
  moreover from this have "sql_targets_good s'"
    using 2(1) by (auto simp: sql_targets_good_def)
  ultimately show ?case by blast
next
  case (3 s m can s')
  then have "targets s' = filter (\<lambda>w. \<not> (t_module w = m \<and> t_canonical w = can)) (targets s)"
    by (auto simp: sql_DeleteTarget_def dest: exec_tables split: prod.splits option.splits)
  from sql_targets_of_delete [OF this] 3(1) show ?case
    by (auto simp: sql_targets_good_def fun_eq_iff distinct_map_filter)
next
  case (4 s m raws s')
  then have "targets s' = targets s \<and> raws = map fst (sql_targets_of s m)"
    by (auto simp: sql_ListSavedTargets_def sql_targets_of_def dest: exec_tables
        split: prod.splits option.splits)
  with 4(1) show ?case by (simp add: sql_targets_good_def sql_targets_of_def fun_eq_iff)
qed

end
