(* ===== verification/ReconcileSqlite.thy ===== *)
theory ReconcileSqlite
  imports SqliteStore
begin

section \<open>The reconcile engine over the production store\<close>

text \<open>
  The contract of the engine, proved once over the store interface, read on the SQLite tables:
  what a scan leaves in the store, what it announces, how user decisions and silent scans fare,
  and when a scan is bound to succeed. The records of the examples are one module and one finding.
\<close>

definition demo_module :: module_info where
  "demo_module = \<lparr>module_ID = ''asm'', module_Name = ''ASM'', module_Version = ''1'',
     TargetKind = ''domain'', DefaultInterval = 0, ResolveAfter = 2\<rparr>"

definition demo_finding :: "gostring \<Rightarrow> finding" where
  "demo_finding fp = \<lparr>fingerprint = fp, target = ''example.com'', check = ''port'', title = ''open port'',
     severity = ''high'', remediation = ''close it'', evidence = None,
     finding_id = [], finding_module = [], status = [], groupID = None,
     firstSeen = 0, lastSeen = 0, resolvedAt = None\<rparr>"

definition demo_ids :: "instant \<Rightarrow> nat \<Rightarrow> goerror + gostring" where
  "demo_ids now k = Inr (show_nat k)"

definition demo_record :: "finding_status \<Rightarrow> int \<Rightarrow> frec" where
  "demo_record st k = (new_record ''asm'' 1 ''x'' (demo_finding ''f1''))\<lparr>status := st, absentStreak := k\<rparr>"

definition demo_db :: "finding_status \<Rightarrow> int \<Rightarrow> sqldb" where
  "demo_db st k = \<lparr>findings = [excluded_row (demo_record st k) None],
     targets = [], faults = []\<rparr>"

abbreviation sql_reconcile where
  "sql_reconcile \<equiv> Reconcile sql_ListByTarget sql_Upsert"

lemma demo_db_good: "sql_good (demo_db st k)"
  by (simp add: sql_good_def demo_db_def sql_keep_def marshalEvidence_def)

subsection \<open>Success\<close>

text \<open>The capped evidence of a finding can always be stored.\<close>

lemma capEvidence_storable: "sql_keep (evidence (capEvidence f)) \<noteq> None"
proof (cases "evidence f")
  case None
  then show ?thesis by (simp add: capEvidence_def sql_keep_def marshalEvidence_def)
next
  case (Some ev)
  show ?thesis
  proof (cases "json_marshal (AMap ev)")
    case None
    with Some show ?thesis by (simp add: capEvidence_def sql_keep_def marshalEvidence_def)
  next
    case (Some b)
    then obtain w where "json_value (AMap ev) = Some w" using json_marshal_iff_value by blast
    then show ?thesis using \<open>evidence f = Some ev\<close> Some
      by (auto simp: capEvidence_def sql_keep_def marshalEvidence_def)
  qed
qed

lemma sql_Upsert_succeeds:
  assumes "faults d = []" "sql_keep (evidence r) \<noteq> None"
    and "rkey r \<in> row_key ` set (findings d) \<or> finding_id r \<notin> c_id ` set (findings d)"
  shows "\<exists>d'. sql_Upsert r d = (None, d') \<and> faults d' = []
    \<and> c_id ` set (findings d') \<subseteq> insert (finding_id r) (c_id ` set (findings d))
    \<and> row_key ` set (findings d') = insert (rkey r) (row_key ` set (findings d))"
proof -
  from assms(2) obtain ev where "marshalEvidence (evidence r) = Inr ev"
    by (auto simp: sql_keep_def split: sum.splits)
  have ex_key: "list_ex (\<lambda>w. row_key w = k) (findings d) \<longleftrightarrow> k \<in> row_key ` set (findings d)" for k
    by (auto simp: list_ex_iff)
  have ex_id: "list_ex (\<lambda>w. c_id w = i) (findings d) \<longleftrightarrow> i \<in> c_id ` set (findings d)" for i
    by (auto simp: list_ex_iff)
  from assms(3) \<open>marshalEvidence (evidence r) = Inr ev\<close>
  have "\<exists>d'. sql_Upsert r d = (None, d') \<and> faults d' = []"
    by (simp add: sql_Upsert_def exec_def assms(1) Let_def ex_key ex_id del: image_iff) blast
  then obtain d' where up: "sql_Upsert r d = (None, d')" and "faults d' = []" by blast
  moreover from up have "c_id ` set (findings d') \<subseteq> insert (finding_id r) (c_id ` set (findings d))
      \<and> row_key ` set (findings d') = insert (rkey r) (row_key ` set (findings d))"
  proof (cases rule: sql_Upsert_cases)
    case (update ev)
    have "row_key ` set (findings d') = row_key ` set (findings d)"
      unfolding update(3) set_map image_image by (rule image_cong) auto
    moreover have "c_id ` set (findings d') = c_id ` set (findings d)"
      unfolding update(3) set_map image_image by (rule image_cong) auto
    moreover have "rkey r \<in> row_key ` set (findings d)" using update(2) by (metis image_eqI)
    ultimately show ?thesis by (simp add: insert_absorb subset_insertI)
  qed auto
  ultimately show ?thesis by blast
qed

lemma reconcile_absent_succeeds:
  assumes "faults (db st) = []"
    and "\<forall>r \<in> set existing. sql_keep (evidence r) \<noteq> None \<and> rkey r \<in> row_key ` set (findings (db st))"
  shows "\<exists>st'. reconcile_absent sql_Upsert mi now existing st = (None, st')"
  using assms
proof (induction existing arbitrary: st)
  case (Cons r rs)
  let ?r = "absent_record mi now r"
  have key: "rkey ?r = rkey r" by (simp add: rkey_def)
  have "rkey ?r \<in> row_key ` set (findings (db st))" "sql_keep (evidence ?r) \<noteq> None"
    using Cons.prems key by simp_all
  with sql_Upsert_succeeds [of "db st" ?r] Cons.prems(1) obtain d' where
    "sql_Upsert ?r (db st) = (None, d')" "faults d' = []"
    "row_key ` set (findings d') = insert (rkey r) (row_key ` set (findings (db st)))"
    using key Cons.prems(2) by auto
  with Cons show ?case by (auto simp: Let_def)
qed simp

text \<open>
  The state between two reports of a scan on a database that works: no fault, and every id to be
  drawn is unused. Handling one report leads to such a state and drops no row.
\<close>

definition scan_ready :: "(nat \<Rightarrow> gostring) \<Rightarrow> sqldb rstate \<Rightarrow> bool" where
  "scan_ready ids st \<longleftrightarrow> faults (db st) = [] \<and> (\<forall>k \<ge> drawn st. ids k \<notin> c_id ` set (findings (db st)))"

abbreviation row_keys where
  "row_keys st \<equiv> row_key ` set (findings (db st))"

lemma unknown_report_succeeds:
  assumes "scan_ready ids st" "\<forall>k. newID now k = Inr (ids k)" "inj ids"
    and "ValidateForIngest f = None" "byFP (fingerprint f) = None"
  shows "\<exists>st'. scan_ready ids st' \<and> row_keys st \<subseteq> row_keys st' \<and>
    (\<forall>fs. reconcile_fresh sql_Upsert newID mi now byFP (f # fs) st = reconcile_fresh sql_Upsert newID mi now byFP fs st')"
proof -
  let ?r = "new_record (module_ID mi) now (ids (drawn st)) (capEvidence f)"
  have "finding_id ?r \<notin> c_id ` set (findings (db st))" using assms(1) by (simp add: scan_ready_def)
  with sql_Upsert_succeeds [of "db st" ?r] assms(1) capEvidence_storable obtain d' where
    up: "sql_Upsert ?r (db st) = (None, d')" "faults d' = []"
    "c_id ` set (findings d') \<subseteq> insert (ids (drawn st)) (c_id ` set (findings (db st)))"
    "row_key ` set (findings d') = insert (rkey ?r) (row_keys st)"
    by (auto simp: scan_ready_def)
  let ?st = "st\<lparr>seen := fingerprint f # seen st, drawn := Suc (drawn st), db := d',
    res := (res st)\<lparr>NewlyOpen := NewlyOpen (res st) @ [finding_of ?r]\<rparr>\<rparr>"
  have "ids k \<notin> c_id ` set (findings d')" if "k \<ge> Suc (drawn st)" for k
  proof -
    have "k \<ge> drawn st" "ids k \<noteq> ids (drawn st)" using that inj_eq [OF assms(3)] by auto
    with assms(1) have "ids k \<notin> insert (ids (drawn st)) (c_id ` set (findings (db st)))"
      unfolding scan_ready_def by blast
    with up(3) show ?thesis by blast
  qed
  then have "scan_ready ids ?st" using up(2) by (simp add: scan_ready_def)
  moreover have "row_keys st \<subseteq> row_keys ?st" using up(4) by auto
  moreover have "reconcile_fresh sql_Upsert newID mi now byFP (f # fs) st =
      reconcile_fresh sql_Upsert newID mi now byFP fs ?st" for fs
    by (simp add: assms(2,4,5) up(1) Let_def)
  ultimately show ?thesis by blast
qed

lemma known_report_succeeds:
  assumes "scan_ready ids st" "ValidateForIngest f = None" "byFP (fingerprint f) = Some p"
    and "rkey p \<in> row_keys st"
  shows "\<exists>st'. scan_ready ids st' \<and> row_keys st \<subseteq> row_keys st' \<and>
    (\<forall>fs. reconcile_fresh sql_Upsert newID mi now byFP (f # fs) st = reconcile_fresh sql_Upsert newID mi now byFP fs st')"
proof -
  let ?r = "merge_record now p (capEvidence f)"
  have key: "rkey ?r = rkey p" by (simp add: rkey_def)
  with sql_Upsert_succeeds [of "db st" ?r] assms(1,4) capEvidence_storable obtain d' where
    up: "sql_Upsert ?r (db st) = (None, d')" "faults d' = []"
    "row_key ` set (findings d') = insert (rkey p) (row_keys st)"
    by (auto simp: scan_ready_def)
  have ids: "c_id ` set (findings d') = c_id ` set (findings (db st))"
    using up(1)
  proof (cases rule: sql_Upsert_cases)
    case (update ev)
    show ?thesis unfolding update(3) set_map image_image by (rule image_cong) auto
  next
    case (insert ev)
    then show ?thesis using assms(4) key by auto
  qed
  let ?st1 = "st\<lparr>seen := fingerprint f # seen st, db := d'\<rparr>"
  let ?st2 = "?st1\<lparr>res := (res st)\<lparr>NewlyOpen := NewlyOpen (res st) @ [finding_of ?r]\<rparr>\<rparr>"
  let ?st = "if status p = StatusResolved then ?st2 else ?st1"
  have db: "db ?st = d'" "drawn ?st = drawn st" by simp_all
  have "scan_ready ids ?st" using assms(1) up(2) ids unfolding scan_ready_def db by simp
  moreover have "row_keys st \<subseteq> row_keys ?st" unfolding db up(3) by blast
  moreover have "reconcile_fresh sql_Upsert newID mi now byFP (f # fs) st =
      reconcile_fresh sql_Upsert newID mi now byFP fs ?st" for fs
    by (simp add: assms(2,3) up(1) Let_def)
  ultimately show ?thesis by blast
qed

lemma reconcile_fresh_succeeds:
  assumes "scan_ready ids st" "\<forall>k. newID now k = Inr (ids k)" "inj ids"
    and "\<forall>fp p. byFP fp = Some p \<longrightarrow> rkey p \<in> row_keys st"
  shows "\<exists>st'. reconcile_fresh sql_Upsert newID mi now byFP fresh st = (None, st')
    \<and> faults (db st') = [] \<and> row_keys st \<subseteq> row_keys st'"
  using assms(1,4)
proof (induction fresh arbitrary: st)
  case Nil
  then show ?case by (simp add: scan_ready_def)
next
  case (Cons f fs)
  have "\<exists>st1. scan_ready ids st1 \<and> row_keys st \<subseteq> row_keys st1 \<and>
      reconcile_fresh sql_Upsert newID mi now byFP (f # fs) st = reconcile_fresh sql_Upsert newID mi now byFP fs st1"
  proof (cases "ValidateForIngest f")
    case None
    note v = None
    show ?thesis
    proof (cases "byFP (fingerprint f)")
      case None
      from unknown_report_succeeds [where newID = newID and now = now and byFP = byFP, OF Cons.prems(1) assms(2,3) v None] show ?thesis by blast
    next
      case (Some p)
      with Cons.prems(2) have "rkey p \<in> row_keys st" by blast
      from known_report_succeeds [where byFP = byFP, OF Cons.prems(1) v Some this] show ?thesis by blast
    qed
  next
    case (Some e)
    let ?st = "st\<lparr>res := (res st)\<lparr>Rejected := Rejected (res st) @ [(f, e)]\<rparr>\<rparr>"
    have "scan_ready ids ?st" using Cons.prems(1) by (simp add: scan_ready_def)
    moreover have "row_keys st \<subseteq> row_keys ?st" by simp
    ultimately show ?thesis using Some by fastforce
  qed
  then obtain st1 where st1: "scan_ready ids st1" "row_keys st \<subseteq> row_keys st1"
    "reconcile_fresh sql_Upsert newID mi now byFP (f # fs) st = reconcile_fresh sql_Upsert newID mi now byFP fs st1"
    by blast
  have "\<forall>fp p. byFP fp = Some p \<longrightarrow> rkey p \<in> row_keys st1" using Cons.prems(2) st1(2) by blast
  from Cons.IH [OF st1(1) this] st1(2) show ?case unfolding st1(3) by blast
qed

text \<open>
  (C15) A scan always completes on a healthy database: when no statement fails and the id generator
  keeps producing unused ids, \<open>Reconcile\<close> returns without an error, whatever the findings are
  (malformed ones included) and whatever their evidence holds.
\<close>

theorem reconcile_succeeds:
  assumes "sql_good d" "faults d = []" "\<forall>k. newID now k = Inr (ids k)" "inj ids"
    and "\<forall>k \<ge> n. ids k \<notin> c_id ` set (findings d)"
  shows "\<exists>st'. sql_reconcile newID mi tgt now fresh d n = (None, st')"
proof -
  obtain existing d' where lst: "sql_ListByTarget (module_ID mi) tgt d = (Inr existing, d')"
    and same: "findings d' = findings d" "faults d' = []"
    using assms(2) by (auto simp: sql_ListByTarget_def query_def exec_def)
  note tab = sql.list_table [OF assms(1) TrueI lst]
  have ex: "\<forall>r \<in> set existing. sql_keep (evidence r) \<noteq> None \<and> rkey r \<in> row_key ` set (findings d)"
  proof
    fix r assume "r \<in> set existing"
    then have look: "sql_lookup d (module_ID mi, fingerprint r) = Some r"
      using lists_table_set tab by blast
    then obtain w where "w \<in> set (findings d)" "r = scanRecord w"
      by (auto simp: sql_lookup_iff [OF assms(1)])
    then have "rkey r \<in> row_key ` set (findings d)" by (simp del: scanRecord_fields)
    with sql.lookup_kept [OF assms(1) TrueI look]
    show "sql_keep (evidence r) \<noteq> None \<and> rkey r \<in> row_key ` set (findings d)" by simp
  qed
  let ?st = "\<lparr>res = empty_result, seen = [], db = d', drawn = n\<rparr>"
  have "\<forall>fp p. by_fingerprint existing fp = Some p \<longrightarrow> rkey p \<in> row_key ` set (findings (db ?st))"
    using ex same by_fingerprint_key by simp
  moreover have "scan_ready ids ?st" using same assms(5) by (simp add: scan_ready_def)
  ultimately obtain st1 where
    st1: "reconcile_fresh sql_Upsert newID mi now (by_fingerprint existing) fresh ?st = (None, st1)"
      "faults (db st1) = []" "row_key ` set (findings (db ?st)) \<subseteq> row_key ` set (findings (db st1))"
    using reconcile_fresh_succeeds [where st = ?st and newID = newID and now = now and ids = ids
      and byFP = "by_fingerprint existing" and mi = mi and fresh = fresh] assms(3,4) by metis
  have "\<forall>r \<in> set existing. sql_keep (evidence r) \<noteq> None \<and> rkey r \<in> row_key ` set (findings (db st1))"
    using ex st1(3) same(1) by auto
  with st1(2) obtain st2 where "reconcile_absent sql_Upsert mi now existing st1 = (None, st2)"
    using reconcile_absent_succeeds by blast
  with st1(1) lst show ?thesis by (simp add: Reconcile_def reconcile_with_def)
qed

lemma demo_ids_fresh: "\<forall>k \<ge> n. show_nat k \<notin> c_id ` set (findings (demo_db st s))"
proof -
  have "show_nat k \<noteq> ''x''" for k
    using show_nat_digits [of "CHR ''x''" k] by (auto simp: byte_def)
  then show ?thesis by (simp add: demo_db_def demo_record_def new_record_def excluded_row_def)
qed

lemma reconcile_succeeds_witness:
  "\<exists>st'. sql_reconcile demo_ids demo_module ''example.com'' 7 [demo_finding ''f1'', demo_finding []]
     (demo_db StatusOpen 1) 0 = (None, st')"
proof (rule reconcile_succeeds [where ids = show_nat])
  show "sql_good (demo_db StatusOpen 1)" by (rule demo_db_good)
  show "inj show_nat" by (simp add: inj_def show_nat_inject)
  show "\<forall>k \<ge> 0. show_nat k \<notin> c_id ` set (findings (demo_db StatusOpen 1))"
    by (rule demo_ids_fresh)
qed (simp_all add: demo_ids_def demo_db_def)

subsection \<open>What a scan leaves behind\<close>

text \<open>
  No reported fingerprint is stored for another target; and, in \<open>scan_input\<close>, none is reported twice.
\<close>

definition own_reports :: "sqldb \<Rightarrow> module_info \<Rightarrow> gostring \<Rightarrow> finding list \<Rightarrow> bool" where
  "own_reports d mi tgt fresh \<longleftrightarrow>
     (\<forall>f \<in> set fresh. well_formed f \<longrightarrow>
        (case sql_lookup d (module_ID mi, fingerprint f) of None \<Rightarrow> True | Some r \<Rightarrow> target r = tgt))"

definition scan_input :: "sqldb \<Rightarrow> module_info \<Rightarrow> gostring \<Rightarrow> finding list \<Rightarrow> bool" where
  "scan_input d mi tgt fresh \<longleftrightarrow>
     distinct (map fingerprint (filter well_formed fresh)) \<and> own_reports d mi tgt fresh"

lemma own_reportsD:
  "own_reports d mi tgt fresh \<Longrightarrow>
     \<forall>f r. f \<in> set fresh \<longrightarrow> well_formed f \<longrightarrow>
       sql_lookup d (module_ID mi, fingerprint f) = Some r \<longrightarrow> target r = tgt"
  by (auto simp: own_reports_def)

lemma scan_inputD:
  assumes "scan_input d mi tgt fresh"
  shows "distinct (map fingerprint (filter well_formed fresh))"
    and "\<forall>f r. f \<in> set fresh \<longrightarrow> well_formed f \<longrightarrow>
          sql_lookup d (module_ID mi, fingerprint f) = Some r \<longrightarrow> target r = tgt"
  using assms own_reportsD by (auto simp: scan_input_def)

definition demo_scan :: "finding_status \<Rightarrow> int \<Rightarrow> finding list \<Rightarrow> goerror option \<times> sqldb rstate" where
  "demo_scan st k fresh =
     sql_reconcile demo_ids demo_module ''example.com'' 7 fresh (demo_db st k) 0"

lemma demo_scan_run:
  assumes "fst (demo_scan st k fresh) = None"
  shows "sql_reconcile demo_ids demo_module ''example.com'' 7 fresh (demo_db st k) 0 =
    (None, snd (demo_scan st k fresh))"
  using assms by (simp add: demo_scan_def prod_eq_iff)

lemma demo_scan_changed: "fst (demo_scan StatusOpen 1 [demo_finding ''f2'', demo_finding []]) = None"
  by code_simp

lemma demo_input_changed:
  "scan_input (demo_db StatusOpen 1) demo_module ''example.com'' [demo_finding ''f2'', demo_finding []]"
  by code_simp

text \<open>
  (C5) What a scan announces. The rejected findings are the malformed ones with their errors, in
  order; the newly open ones are the well-formed findings whose fingerprint was unknown or
  resolved, in order, each with status open; the resolved ones are the live records of the target
  that were not reported and whose absence reached the threshold. (A reported fingerprint is not stored
  for another target; one reported twice is announced twice.)
\<close>

theorem reconcile_announces:
  assumes "sql_reconcile newID mi tgt now fresh d n = (None, st')"
    and "sql_good d" "own_reports d mi tgt fresh"
  shows "Rejected (res st') = rejections fresh
    \<and> map fingerprint (NewlyOpen (res st')) =
        map fingerprint (filter (\<lambda>f. well_formed f
          \<and> opens (sql_lookup d (module_ID mi, fingerprint f))) fresh)
    \<and> (\<forall>x. x \<in> set (NewlyOpen (res st')) \<longrightarrow> status x = StatusOpen)
    \<and> set (Resolved (res st')) =
        {finding_of (absent_record mi now r) | r fp.
           sql_lookup d (module_ID mi, fp) = Some r \<and> target r = tgt \<and> fresh_of fresh fp = None
           \<and> \<not> leave_absent r \<and> absentStreak r + 1 \<ge> ResolveAfterOrDefault mi}"
  using sql.reconcile_reports [OF assms(1,2) TrueI own_reportsD [OF assms(3)]] by blast

lemma reconcile_announces_witness:
  "map fingerprint (NewlyOpen (res (snd (demo_scan StatusOpen 1 [demo_finding ''f2'', demo_finding []])))) =
     [''f2'']"
proof -
  have "map fingerprint (filter (\<lambda>f. well_formed f
      \<and> opens (sql_lookup (demo_db StatusOpen 1) (module_ID demo_module, fingerprint f)))
      [demo_finding ''f2'', demo_finding []]) = [''f2'']"
    by code_simp
  with reconcile_announces
    [OF demo_scan_run [OF demo_scan_changed] demo_db_good demo_input_changed [unfolded scan_input_def, THEN conjunct2]]
  show ?thesis by metis
qed

subsection \<open>Histories of scans\<close>

abbreviation sql_scans where
  "sql_scans \<equiv> scans sql_ListByTarget sql_Upsert"

definition history_ok :: "(gostring \<Rightarrow> gostring) \<Rightarrow> gostring \<Rightarrow> (instant \<times> finding list) list \<Rightarrow> bool" where
  "history_ok owner tgt history \<longleftrightarrow>
     (\<forall>(now, fresh) \<in> set history. distinct (map fingerprint (filter well_formed fresh))
        \<and> (\<forall>f \<in> set fresh. well_formed f \<longrightarrow> owner (fingerprint f) = tgt \<and> target f = tgt))"

text \<open>
  Through any history of scans of a target, whatever they report, a stored record keeps its
  id, target, check and time of first sight, and a record the user suppressed stays suppressed.
  (Every fingerprint belongs to the one target it is computed from.)
\<close>

theorem decisions_survive_scans:
  assumes "sql_scans newID mi tgt history d n = Some (d', n')"
    and "sql_good d" "history_ok owner tgt history"
    and "\<forall>fp r. sql_lookup d (module_ID mi, fp) = Some r \<longrightarrow> target r = owner fp"
    and "sql_lookup d (module_ID mi, fp) = Some r"
  shows "\<exists>r'. sql_lookup d' (module_ID mi, fp) = Some r' \<and> same_identity r' r
    \<and> (status r = StatusSuppressed \<longrightarrow> status r' = StatusSuppressed)"
  using sql.scans_keep_record [OF assms(1,2) TrueI _ _ assms(5), of owner] assms(3,4)
  by (simp add: sql.owned_def history_ok_def)

definition demo_history :: "(instant \<times> finding list) list" where
  "demo_history = [(7, [demo_finding ''f1'']), (8, [])]"

definition demo_scans :: "finding_status \<Rightarrow> (instant \<times> finding list) list \<Rightarrow> (sqldb \<times> nat) option" where
  "demo_scans st history =
     sql_scans demo_ids demo_module ''example.com'' history (demo_db st 0) 0"

lemma demo_scans_run:
  assumes "demo_scans st history \<noteq> None"
  shows "sql_scans demo_ids demo_module ''example.com'' history (demo_db st 0) 0 =
    Some (fst (the (demo_scans st history)), snd (the (demo_scans st history)))"
  using assms by (auto simp: demo_scans_def)

lemma demo_module_ID: "module_ID demo_module = ''asm''"
  by (simp add: demo_module_def)

lemma demo_record_status: "status (demo_record st k) = st"
  by (simp add: demo_record_def)

lemma demo_lookup:
  "sql_lookup (demo_db st k) (m, fp) =
     (if m = ''asm'' \<and> fp = ''f1'' then Some (demo_record st k) else None)"
  by (auto simp: sql_lookup_def demo_db_def excluded_row_def scanRecord_def row_key_def demo_record_def
      new_record_def demo_finding_def)

lemma demo_suppressed_history: "demo_scans StatusSuppressed demo_history \<noteq> None"
  by code_simp

lemma decisions_survive_scans_witness:
  "\<exists>r'. sql_lookup (fst (the (demo_scans StatusSuppressed demo_history))) (''asm'', ''f1'') = Some r'
     \<and> status r' = StatusSuppressed"
proof -
  have look: "sql_lookup (demo_db StatusSuppressed 0) (module_ID demo_module, ''f1'') =
      Some (demo_record StatusSuppressed 0)" by code_simp
  have hist: "history_ok (\<lambda>_. ''example.com'') ''example.com'' demo_history" by code_simp
  have own: "\<forall>fp r. sql_lookup (demo_db StatusSuppressed 0) (module_ID demo_module, fp) = Some r
      \<longrightarrow> target r = ''example.com''"
    by (simp add: demo_lookup demo_record_def new_record_def demo_finding_def)
  obtain r' where
    r': "sql_lookup (fst (the (demo_scans StatusSuppressed demo_history))) (module_ID demo_module, ''f1'') = Some r'"
      "status (demo_record StatusSuppressed 0) = StatusSuppressed \<longrightarrow> status r' = StatusSuppressed"
    using decisions_survive_scans
      [OF demo_scans_run [OF demo_suppressed_history] demo_db_good hist own look] by (elim exE conjE)
  show ?thesis
    by (rule exI [of _ r']) (use r' in \<open>simp only: demo_module_ID demo_record_status simp_thms\<close>)
qed

text \<open>
  The order in which SQLite returns the existing rows does not matter: two runs that differ
  only in it store the same records, and announce the same findings, the resolved ones up to order.
\<close>

theorem row_order_irrelevant:
  assumes "reconcile_with sql_Upsert newID mi now ex1 fresh st = (None, st1)"
    and "reconcile_with sql_Upsert newID mi now ex2 fresh st = (None, st2)"
    and "mset ex1 = mset ex2" "seen st = []"
    and "sql_ListByTarget (module_ID mi) tgt d = (Inr ex1, db st)" "sql_good d"
    and "scan_input d mi tgt fresh"
  shows "sql_lookup (db st1) = sql_lookup (db st2)
    \<and> NewlyOpen (res st1) = NewlyOpen (res st2) \<and> Rejected (res st1) = Rejected (res st2)
    \<and> mset (Resolved (res st1)) = mset (Resolved (res st2))"
proof -
  from sql.list_table [OF assms(6) TrueI assms(5)]
  have g: "sql_good (db st)" "sql_lookup (db st) = sql_lookup d"
    and tab: "lists_table ex1 (\<lambda>fp. sql_lookup (db st) (module_ID mi, fp)) (\<lambda>r. target r = tgt)"
    by auto
  note R = sql.reconcile_order_irrelevant [OF assms(1-3) g(1) TrueI tab
      scan_inputD(1) [OF assms(7)] assms(4) scan_inputD(2) [OF assms(7), folded g(2)]]
  show ?thesis using R by (auto simp: fun_eq_iff)
qed

definition demo_start :: "sqldb rstate" where
  "demo_start = \<lparr>res = empty_result, seen = [], db = demo_db StatusOpen 1, drawn = 0\<rparr>"

lemma row_order_irrelevant_witness:
  "mset (Resolved (res (snd (reconcile_with sql_Upsert demo_ids demo_module 7
      [demo_record StatusOpen 1] [] demo_start)))) =
   mset (Resolved (res (snd (reconcile_with sql_Upsert demo_ids demo_module 7
      (rev [demo_record StatusOpen 1]) [] demo_start))))"
proof -
  have run: "reconcile_with sql_Upsert demo_ids demo_module 7 ex [] demo_start =
      (None, snd (reconcile_with sql_Upsert demo_ids demo_module 7 ex [] demo_start))"
    if "ex = [demo_record StatusOpen 1]" for ex
    unfolding that prod_eq_iff snd_conv fst_conv by (rule conjI, code_simp, rule refl)
  have lst: "sql_ListByTarget (module_ID demo_module) ''example.com'' (demo_db StatusOpen 1) =
      (Inr [demo_record StatusOpen 1], db demo_start)"
    by (simp add: sql_ListByTarget_def query_def exec_def demo_db_def demo_module_def demo_start_def)
      (simp add: excluded_row_def scanRecord_def demo_record_def new_record_def demo_finding_def)
  have "scan_input (demo_db StatusOpen 1) demo_module ''example.com'' []"
    by (simp add: scan_input_def own_reports_def)
  from row_order_irrelevant [OF run [OF refl] run [of "rev [demo_record StatusOpen 1]"] _ _ lst
      demo_db_good this]
  show ?thesis by (simp add: demo_start_def)
qed

end
