(* ===== verification/StoreProperties.thy ===== *)
theory StoreProperties
  imports ReconcileSqlite
begin

section \<open>Properties of the stores\<close>

text \<open>
  Retention, the round trip of a record through the database, the bound on stored evidence, the
  user's target list, and the agreement of the two implementations of the store.
\<close>

subsection \<open>Round trip and retention\<close>

text \<open>
  Reading back what was written: after a successful \<open>Upsert\<close> of a record (of the same
  identity as the stored one, if there is one), \<open>Get\<close> returns it, its evidence as JSON keeps it,
  and every other record is untouched.
\<close>

theorem upsert_get_roundtrip:
  assumes "sql_good d" "sql_Upsert r d = (None, d')"
    and "\<forall>q. sql_lookup d (rkey r) = Some q \<longrightarrow> same_identity r q"
    and "sql_Get m fp d' = (Inr found, d'')"
  shows "if (m, fp) = rkey r
         then (\<exists>ev. sql_keep (evidence r) = Some ev \<and> found = Some (r\<lparr>evidence := ev\<rparr>))
         else found = sql_lookup d (m, fp)"
proof -
  note U = sql.upsert_exact [OF assms(1) TrueI assms(2,3)]
  from sql.get_ok [OF U(1) TrueI assms(4)] have "found = sql_lookup d' (m, fp)" by simp
  with U(2) U(3) [OF TrueI] show ?thesis by auto
qed

lemma upsert_get_roundtrip_witness:
  "\<exists>ev. sql_keep (evidence (demo_record StatusAcknowledged 0)) = Some ev \<and>
     fst (sql_Get ''asm'' ''f1'' (snd (sql_Upsert (demo_record StatusAcknowledged 0) (demo_db StatusOpen 1)))) =
       Inr (Some ((demo_record StatusAcknowledged 0)\<lparr>evidence := ev\<rparr>))"
proof -
  let ?r = "demo_record StatusAcknowledged 0" and ?d = "demo_db StatusOpen 1"
  have up: "sql_Upsert ?r ?d = (None, snd (sql_Upsert ?r ?d))"
    unfolding prod_eq_iff by (simp, code_simp)
  have get: "sql_Get ''asm'' ''f1'' (snd (sql_Upsert ?r ?d)) =
      (Inr (map_option scanRecord (find (\<lambda>w. c_module w = ''asm'' \<and> c_fingerprint w = ''f1'')
         (findings (snd (sql_Upsert ?r ?d))))), snd (sql_Upsert ?r ?d))"
    by (simp add: sql_Get_def exec_def sql_Upsert_def demo_db_def Let_def split: sum.split)
  have key: "rkey ?r = (''asm'', ''f1'')" by code_simp
  have same: "\<forall>q. sql_lookup ?d (rkey ?r) = Some q \<longrightarrow> same_identity ?r q"
    unfolding key demo_lookup by (simp add: same_identity_def demo_record_def new_record_def)
  from upsert_get_roundtrip [OF demo_db_good up same get] show ?thesis
    unfolding key get by simp
qed

text \<open>
  The retention job deletes exactly the records that were resolved before the cutoff, reports
  how many there were, and keeps every other record and every target.
\<close>

theorem prune_deletes_expired:
  assumes "sql_good d" "sql_PruneResolvedBefore cutoff d = (Inr n, d')"
  shows "sql_good d' \<and> n + length (findings d') = length (findings d) \<and> targets d' = targets d
    \<and> (\<forall>k. sql_lookup d' k = (case sql_lookup d k of None \<Rightarrow> None
         | Some r \<Rightarrow> if expired cutoff r then None else Some r))"
  using sql_Prune_lookup [OF assms] by blast

definition demo_resolved :: sqldb where
  "demo_resolved = (demo_db StatusResolved 2)\<lparr>findings :=
     map (\<lambda>w. w\<lparr>c_resolved_at := Some 5\<rparr>) (findings (demo_db StatusResolved 2))\<rparr>"

lemma prune_deletes_expired_witness:
  "sql_lookup (snd (sql_PruneResolvedBefore 9 demo_resolved)) (''asm'', ''f1'') = None"
proof -
  have good: "sql_good demo_resolved"
    using demo_db_good by (simp add: demo_resolved_def sql_good_def demo_db_def)
  have run: "sql_PruneResolvedBefore 9 demo_resolved = (Inr 1, snd (sql_PruneResolvedBefore 9 demo_resolved))"
    unfolding prod_eq_iff by (simp, code_simp)
  have look: "map_option (expired 9) (sql_lookup demo_resolved (''asm'', ''f1'')) = Some True"
    by (simp add: sql_lookup_def demo_resolved_def demo_db_def row_key_def excluded_row_def
        scanRecord_def expired_def demo_record_def new_record_def demo_finding_def)
  from prune_deletes_expired [OF good run] look show ?thesis
    by (auto split: option.splits)
qed

subsection \<open>The evidence bound\<close>

lemma show_nat_length: "n < 10 ^ k \<Longrightarrow> 0 < k \<Longrightarrow> length (show_nat n) \<le> k"
proof (induction k arbitrary: n)
  case (Suc k)
  show ?case
  proof (cases "n < 10")
    case False
    then have "k > 0" using Suc.prems by (cases k) auto
    moreover have "n div 10 < 10 ^ k" using Suc.prems by (simp add: less_mult_imp_div_less mult.commute)
    ultimately show ?thesis using Suc.IH False by (simp add: show_nat.simps [of n])
  qed (simp add: show_nat.simps [of n])
qed simp

lemma marker_sorted:
  "sort_key fst [(''_truncated'', a), (''_original_bytes'', b), (''_note'', c)] =
     [(''_note'', c), (''_original_bytes'', b), (''_truncated'', a :: gostring)]"
  by code_simp

lemma marker_marshal:
  "json_marshal (AMap [(''_truncated'', ABool True), (''_original_bytes'', ANum (int n)),
     (''_note'', AStr ''evidence exceeded MaxEvidenceBytes and was dropped'')]) =
   Some (''{'' @ json_string ''_note'' @ '':'' @ json_string ''evidence exceeded MaxEvidenceBytes and was dropped'' @
     '','' @ json_string ''_original_bytes'' @ '':'' @ show_nat n @ '','' @ json_string ''_truncated'' @ '':true}'')"
  by (simp add: json_object_def marker_sorted show_int_def)

lemma marker_lengths:
  "length (json_string ''_note'') = 7" "length (json_string ''_original_bytes'') = 17"
  "length (json_string ''_truncated'') = 12"
  "length (json_string ''evidence exceeded MaxEvidenceBytes and was dropped'') = 52"
  "length (json_string ''_error'') = 8"
  "length (json_string ''evidence not serialisable; dropped'') = 36"
  by (simp_all add: length_json_string_plain plain_char_def byte_def)

lemma error_marker:
  "\<exists>b. json_marshal (AMap [(''_error'', AStr ''evidence not serialisable; dropped'')]) = Some b
     \<and> length b = 47"
  by (simp add: json_object_def marker_lengths)

text \<open>
  The cap on evidence: what \<open>capEvidence\<close> leaves always serialises, to at most
  \<open>MaxEvidenceBytes\<close> bytes, and evidence that serialises within the bound is left as it is. (A
  length is a 64-bit integer, so it has at most nineteen digits in the marker.)
\<close>

theorem capEvidence_bounded:
  assumes "evidence f = Some ev"
    and "\<forall>b. json_marshal (AMap ev) = Some b \<longrightarrow> length b < 2 ^ 63"
  shows "\<exists>ev' b. evidence (capEvidence f) = Some ev' \<and> json_marshal (AMap ev') = Some b
    \<and> length b \<le> MaxEvidenceBytes
    \<and> ((\<exists>b. json_marshal (AMap ev) = Some b \<and> length b \<le> MaxEvidenceBytes) \<longrightarrow> ev' = ev)"
proof (cases "json_marshal (AMap ev)")
  case None
  with error_marker show ?thesis
    by (auto simp: capEvidence_def assms(1) MaxEvidenceBytes_def simp del: json_marshal.simps)
next
  case (Some b)
  show ?thesis
  proof (cases "length b > MaxEvidenceBytes")
    case True
    have "(2 :: nat) ^ 63 < 10 ^ 19" by simp
    then have "length b < 10 ^ 19" using assms(2) Some by (meson less_trans)
    then have "length (show_nat (length b)) \<le> 19" by (rule show_nat_length) simp
    with True Some show ?thesis
      by (simp add: capEvidence_def assms(1) marker_marshal marker_lengths MaxEvidenceBytes_def
          del: json_marshal.simps)
  next
    case False
    with Some show ?thesis by (simp add: capEvidence_def assms(1) del: json_marshal.simps)
  qed
qed

lemma capEvidence_bounded_witness:
  "\<exists>ev' b. evidence (capEvidence ((demo_finding ''f'')\<lparr>evidence := Some [(''port'', ANum 23)]\<rparr>)) = Some ev'
    \<and> json_marshal (AMap ev') = Some b \<and> length b \<le> MaxEvidenceBytes"
proof -
  let ?f = "(demo_finding ''f'')\<lparr>evidence := Some [(''port'', ANum 23)]\<rparr>"
  have ev: "evidence ?f = Some [(''port'', ANum 23)]" by simp
  have "\<forall>b. json_marshal (AMap [(''port'', ANum 23)]) = Some b \<longrightarrow> length b < 2 ^ 63"
    by (simp add: json_object_def length_json_string_plain plain_char_def byte_def show_int_def show_nat.simps)
  from capEvidence_bounded [OF ev this] show ?thesis by blast
qed

subsection \<open>The target list\<close>

text \<open>
  The saved targets of a module form a list without repeated canonical forms: saving a new
  target appends it, saving a known one (in any spelling) changes nothing, deleting removes it, and
  other modules' lists stay as they are.
\<close>

theorem saved_targets_contract:
  assumes "sql_targets_good d" "sql_SaveTarget m raw can d = (None, d1)"
    and "sql_DeleteTarget m can' d1 = (None, d2)"
  shows "sql_targets_of d1 = (sql_targets_of d)(m :=
      (if can \<in> snd ` set (sql_targets_of d m) then sql_targets_of d m
       else sql_targets_of d m @ [(raw, can)]))
    \<and> sql_targets_of d2 = (sql_targets_of d1)(m := filter (\<lambda>t. snd t \<noteq> can') (sql_targets_of d1 m))
    \<and> sql_targets_good d2"
  using sql_t.save_content [OF assms(1,2)] sql_t.delete_content [OF _ assms(3)] by auto

lemma saved_targets_contract_witness:
  "sql_targets_of (snd (sql_SaveTarget ''asm'' ''Ex.com'' ''ex.com'' (sql_migrate []))) ''asm'' =
     [(''Ex.com'', ''ex.com'')]"
proof -
  have good: "sql_targets_good (sql_migrate [])"
    by (simp add: sql_targets_good_def sql_targets_of_def sql_migrate_def)
  let ?d1 = "snd (sql_SaveTarget ''asm'' ''Ex.com'' ''ex.com'' (sql_migrate []))"
  have s: "sql_SaveTarget ''asm'' ''Ex.com'' ''ex.com'' (sql_migrate []) = (None, ?d1)"
    by (simp add: sql_SaveTarget_def exec_def sql_migrate_def)
  have d: "sql_DeleteTarget ''asm'' ''b'' ?d1 = (None, snd (sql_DeleteTarget ''asm'' ''b'' ?d1))"
    by (simp add: sql_SaveTarget_def sql_DeleteTarget_def exec_def sql_migrate_def)
  from saved_targets_contract [OF good s d] show ?thesis
    by (simp add: sql_targets_of_def sql_migrate_def)
qed

subsection \<open>Agreement of the two stores\<close>

text \<open>
  The engine does not see which store it runs on: when the in-memory store and the database
  hold the same records, a scan over either rejects the same findings, announces the same
  fingerprints as newly open, and resolves the same records.
\<close>

theorem stores_agree:
  assumes "Reconcile mem_ListByTarget mem_Upsert newID mi tgt now fresh s n = (None, st1)"
    and "sql_reconcile newID' mi tgt now fresh d n' = (None, st2)"
    and "mem_good s" "sql_good d" "no_nul (module_ID mi)"
    and "\<forall>fp. mem_lookup s (module_ID mi, fp) = sql_lookup d (module_ID mi, fp)"
    and "own_reports d mi tgt fresh"
  shows "Rejected (res st1) = Rejected (res st2)
    \<and> map fingerprint (NewlyOpen (res st1)) = map fingerprint (NewlyOpen (res st2))
    \<and> set (Resolved (res st1)) = set (Resolved (res st2))"
proof -
  have own: "\<forall>f r. f \<in> set fresh \<longrightarrow> well_formed f \<longrightarrow>
      mem_lookup s (module_ID mi, fingerprint f) = Some r \<longrightarrow> target r = tgt"
    using own_reportsD [OF assms(7)] by (simp only: assms(6))
  note M = mem.reconcile_reports [OF assms(1,3,5) own]
  note S = sql.reconcile_reports [OF assms(2,4) TrueI own_reportsD [OF assms(7)]]
  show ?thesis
    unfolding M(1) M(2) M(4) S(1) S(2) S(4) using assms(6) by simp
qed

lemma stores_agree_witness:
  "map fingerprint (NewlyOpen (res (snd (Reconcile mem_ListByTarget mem_Upsert demo_ids demo_module
      ''example.com'' 7 [demo_finding ''f2''] NewMemStore 0)))) =
   map fingerprint (NewlyOpen (res (snd (sql_reconcile demo_ids demo_module
      ''example.com'' 7 [demo_finding ''f2''] (sql_migrate []) 0))))"
proof -
  let ?m = "Reconcile mem_ListByTarget mem_Upsert demo_ids demo_module ''example.com'' 7 [demo_finding ''f2''] NewMemStore 0"
  let ?s = "sql_reconcile demo_ids demo_module ''example.com'' 7 [demo_finding ''f2''] (sql_migrate []) 0"
  have "fst ?m = None" "fst ?s = None" by code_simp+
  then have runs: "?m = (None, snd ?m)" "?s = (None, snd ?s)" by (simp_all add: prod_eq_iff)
  have good: "mem_good NewMemStore" "no_nul (module_ID demo_module)" by code_simp+
  have look: "\<forall>fp. mem_lookup NewMemStore (module_ID demo_module, fp) =
      sql_lookup (sql_migrate []) (module_ID demo_module, fp)"
    by (simp add: mem_lookup_def NewMemStore_def sql_lookup_def sql_migrate_def)
  have "own_reports (sql_migrate []) demo_module ''example.com'' [demo_finding ''f2'']" by code_simp
  from stores_agree [OF runs good(1) sql_good_migrate good(2) look this] show ?thesis by blast
qed

end
