(* ===== verification/Ulid.thy ===== *)
theory Ulid
  imports GoStrings "HOL-Library.Word"
begin

section \<open>Record identifiers (\<open>store/ulid.go\<close>)\<close>

text \<open>
  A ULID is 48 bits of millisecond timestamp and 80 bits of entropy, sixteen bytes, rendered as
  26 characters of Crockford's base 32. The rendering shifts a pair of 64-bit words, as the code
  does; the theorems say it is the base-32 numeral of the 128-bit number, that it is one to
  one, and that it sorts as the bytes do, so that ids sort by creation time. The entropy source is
  a parameter: the ten bytes it delivers, or its error.
\<close>

unbundle bit_operations_syntax

definition crockford :: gostring where
  "crockford = ''0123456789ABCDEFGHJKMNPQRSTVWXYZ''"

text \<open>\<open>binary.BigEndian.Uint64\<close>\<close>

definition be64 :: "8 word list \<Rightarrow> 64 word" where
  "be64 bs = foldl (\<lambda>w b. push_bit 8 w OR ucast b) 0 bs"

fun crockford_loop :: "nat \<Rightarrow> 64 word \<Rightarrow> 64 word \<Rightarrow> gostring \<Rightarrow> gostring" where
  "crockford_loop 0 hi lo out = out"
| "crockford_loop (Suc i) hi lo out =
     crockford_loop i (drop_bit 5 hi) (drop_bit 5 lo OR push_bit 59 hi)
       (crockford ! unat (lo AND 0x1F) # out)"

definition encodeCrockford :: "8 word list \<Rightarrow> gostring" where
  "encodeCrockford b = crockford_loop 26 (be64 (take 8 b)) (be64 (take 8 (drop 8 b))) []"

definition UnixMilli :: "instant \<Rightarrow> int" where
  "UnixMilli t = t div 1000000"

definition ulid_time :: "instant \<Rightarrow> 8 word list" where
  "ulid_time t =
     (let ms = word_of_int (UnixMilli t) :: 64 word
      in [ucast (drop_bit 40 ms), ucast (drop_bit 32 ms), ucast (drop_bit 24 ms),
          ucast (drop_bit 16 ms), ucast (drop_bit 8 ms), ucast ms])"

definition NewULID :: "(goerror + 8 word list) \<Rightarrow> instant \<Rightarrow> goerror + gostring" where
  "NewULID entropy t =
     (case entropy of Inl e \<Rightarrow> Inl e | Inr bs \<Rightarrow> Inr (encodeCrockford (ulid_time t @ bs)))"

subsection \<open>Numerals\<close>

text \<open>The value of a numeral in base \<open>B\<close>, and the numeral of a value with \<open>n\<close> digits.\<close>

definition numeral_value :: "nat \<Rightarrow> nat list \<Rightarrow> nat" where
  "numeral_value B ds = foldl (\<lambda>v d. v * B + d) 0 ds"

fun digits_of :: "nat \<Rightarrow> nat \<Rightarrow> nat \<Rightarrow> nat list" where
  "digits_of B 0 v = []"
| "digits_of B (Suc n) v = digits_of B n (v div B) @ [v mod B]"

lemma numeral_value_snoc [simp]: "numeral_value B (ds @ [d]) = numeral_value B ds * B + d"
  by (simp add: numeral_value_def)

lemma numeral_value_Nil [simp]: "numeral_value B [] = 0"
  by (simp add: numeral_value_def)

lemma length_digits_of [simp]: "length (digits_of B n v) = n"
  by (induction n arbitrary: v) auto

lemma digits_of_less: "0 < B \<Longrightarrow> d \<in> set (digits_of B n v) \<Longrightarrow> d < B"
  by (induction n arbitrary: v) auto

lemma numeral_value_digits_of: "v < B ^ n \<Longrightarrow> numeral_value B (digits_of B n v) = v"
proof (induction n arbitrary: v)
  case (Suc n)
  then have "v div B < B ^ n" by (simp add: less_mult_imp_div_less mult.commute)
  with Suc.IH show ?case by simp
qed simp

lemma numeral_value_append:
  "numeral_value B (xs @ ys) = numeral_value B xs * B ^ length ys + numeral_value B ys"
proof (induction ys rule: rev_induct)
  case (snoc y ys)
  then show ?case by (simp flip: append_assoc add: algebra_simps)
qed simp

lemma numeral_value_less:
  "\<forall>d \<in> set ds. d < B \<Longrightarrow> numeral_value B ds < B ^ length ds"
proof (induction ds rule: rev_induct)
  case (snoc d ds)
  then have le: "numeral_value B ds + 1 \<le> B ^ length ds" and "d < B" by auto
  from le have "(numeral_value B ds + 1) * B \<le> B ^ length ds * B" by (rule mult_le_mono1)
  with \<open>d < B\<close> show ?case by (simp add: algebra_simps)
qed simp

text \<open>Numerals of one length sort as their values do.\<close>

lemma numeral_order:
  assumes "length xs = length ys" "\<forall>d \<in> set xs \<union> set ys. d < B"
  shows "xs < ys \<longleftrightarrow> numeral_value B xs < numeral_value B ys"
  using assms
proof (induction xs ys rule: list_induct2)
  case (Cons x xs y ys)
  have val: "numeral_value B (z # zs) = z * B ^ length zs + numeral_value B zs" for z zs
    using numeral_value_append [of B "[z]" zs] by (simp add: numeral_value_def)
  let ?P = "B ^ length ys"
  have bx: "numeral_value B xs < ?P" and by': "numeral_value B ys < ?P"
    using numeral_value_less [of xs B] numeral_value_less [of ys B] Cons.prems Cons.hyps by auto
  consider "x < y" | "x = y" | "y < x" by linarith
  then show ?case
  proof cases
    case 1
    then have "(x + 1) * ?P \<le> y * ?P" by (intro mult_le_mono1) simp
    with 1 bx show ?thesis by (simp add: val Cons.hyps algebra_simps)
  next
    case 2
    with Cons show ?thesis by (simp add: val)
  next
    case 3
    then have "(y + 1) * ?P \<le> x * ?P" by (intro mult_le_mono1) simp
    with 3 by' show ?thesis by (simp add: val Cons.hyps algebra_simps)
  qed
qed simp

lemma map_less_iff:
  assumes "length xs = length ys"
    and "\<And>a b. a \<in> set xs \<union> set ys \<Longrightarrow> b \<in> set xs \<union> set ys \<Longrightarrow> f a < f b \<longleftrightarrow> a < (b :: 'a :: linorder)"
    and "\<And>a b. a \<in> set xs \<union> set ys \<Longrightarrow> b \<in> set xs \<union> set ys \<Longrightarrow> f a = (f b :: 'b :: linorder) \<longleftrightarrow> a = b"
  shows "map f xs < map f ys \<longleftrightarrow> xs < ys"
  using assms by (induction xs ys rule: list_induct2) auto

subsection \<open>The rendering is the base-32 numeral\<close>

lemma unat_less_size: "unat (w :: 'a :: len word) < 2 ^ LENGTH('a)"
  by (rule unsigned_less)

lemma div_shift_pair:
  "(h * 2 ^ 64 + l) div 32 = (h div 32) * 2 ^ 64 + ((h mod 32) * 2 ^ 59 + l div (32 :: nat))"
proof -
  have "(h * 2 ^ 64 + l) div 32 = (l + h * 2 ^ 59 * 32) div 32" by (simp add: ac_simps)
  also have "\<dots> = h * 2 ^ 59 + l div 32" by (simp only: div_mult_self1)
  finally have step: "(h * 2 ^ 64 + l) div 32 = h * 2 ^ 59 + l div 32" .
  define q r where "q = h div 32" and "r = h mod 32"
  then have "h = q * 32 + r" by simp
  then have "h * 2 ^ 59 = q * 2 ^ 64 + r * 2 ^ 59" by (simp add: algebra_simps)
  with step show ?thesis by (simp only: q_def r_def add.assoc)
qed

lemma mod_shift_pair: "(h * 2 ^ 64 + l) mod 32 = l mod (32 :: nat)"
proof -
  have "(h * 2 ^ 64 + l) mod 32 = (l + h * 2 ^ 59 * 32) mod 32" by (simp add: ac_simps)
  then show ?thesis by (simp only: mod_mult_self1)
qed

lemma unat_shift_pair:
  fixes hi lo :: "64 word"
  defines "v \<equiv> unat hi * 2 ^ 64 + unat lo"
  shows "unat (drop_bit 5 hi) * 2 ^ 64 + unat (drop_bit 5 lo OR push_bit 59 hi) = v div 32"
    and "unat (lo AND 0x1F) = v mod 32"
proof -
  have "drop_bit 5 lo OR push_bit 59 hi = drop_bit 5 lo + push_bit 59 hi"
  proof (rule disjunctive_add [symmetric])
    fix n
    show "\<not> bit (drop_bit 5 lo) n \<or> \<not> bit (push_bit 59 hi) n"
      using bit_imp_le_length [of lo "5 + n"] by (auto simp: bit_simps)
  qed
  moreover have "unat (push_bit 59 hi) = (unat hi mod 32) * 2 ^ 59"
  proof -
    have "unat (push_bit 59 hi) = (unat hi * 2 ^ 59) mod 2 ^ 64"
      by (simp add: push_bit_eq_mult unat_word_ariths)
    also have "(2 :: nat) ^ 64 = 32 * 2 ^ 59" by simp
    finally show ?thesis by (simp only: mult_mod_left)
  qed
  moreover have dl: "unat (drop_bit 5 lo) = unat lo div 32"
    by (simp only: unat_drop_bit_eq) (simp add: drop_bit_eq_div)
  moreover have "unat lo < 2 ^ 64" using unat_less_size [of lo] by simp
  moreover have "unat hi mod 32 < 32" by simp
  ultimately have "unat (drop_bit 5 lo OR push_bit 59 hi) = unat lo div 32 + (unat hi mod 32) * 2 ^ 59"
    by (simp add: unat_word_ariths)
  moreover have "unat (drop_bit 5 hi) = unat hi div 32"
    by (simp only: unat_drop_bit_eq) (simp add: drop_bit_eq_div)
  moreover have "v div 32 = (unat hi div 32) * 2 ^ 64 + ((unat hi mod 32) * 2 ^ 59 + unat lo div 32)"
    unfolding v_def by (rule div_shift_pair)
  ultimately show "unat (drop_bit 5 hi) * 2 ^ 64 + unat (drop_bit 5 lo OR push_bit 59 hi) = v div 32"
    by simp
  have "lo AND 0x1F = take_bit 5 lo" by (simp add: take_bit_eq_mask mask_eq_exp_minus_1)
  then have "unat (lo AND 0x1F) = take_bit 5 (unat lo)"
    by (simp only: unsigned_take_bit_eq)
  then have "unat (lo AND 0x1F) = unat lo mod 32" by (simp add: take_bit_eq_mod)
  also have "\<dots> = v mod 32" unfolding v_def by (simp only: mod_shift_pair)
  finally show "unat (lo AND 0x1F) = v mod 32" .
qed

lemma crockford_loop_eq:
  "crockford_loop n hi lo out =
     map ((!) crockford) (digits_of 32 n (unat hi * 2 ^ 64 + unat lo)) @ out"
proof (induction n arbitrary: hi lo out)
  case (Suc n)
  show ?case
    by (simp only: crockford_loop.simps Suc.IH unat_shift_pair(1) digits_of.simps
        unat_shift_pair(2) [where hi = hi and lo = lo]) simp
qed simp

lemma be64_value: "length bs \<le> 8 \<Longrightarrow> unat (be64 bs) = numeral_value 256 (map unat bs)"
proof (induction bs rule: rev_induct)
  case (snoc b bs)
  have "push_bit 8 w OR ucast b = push_bit 8 w + ucast b" for w :: "64 word"
  proof (rule disjunctive_add [symmetric])
    fix n
    show "\<not> bit (push_bit 8 w) n \<or> \<not> bit (ucast b :: 64 word) n"
      using bit_imp_le_length [of b n] by (auto simp: bit_simps)
  qed
  then have step: "be64 (bs @ [b]) = be64 bs * 256 + ucast b"
    by (simp add: be64_def push_bit_eq_mult)
  have "numeral_value 256 (map unat bs) < 256 ^ length bs"
    using numeral_value_less [of "map unat bs" 256] unat_less_size [where 'a = 8] by simp
  also have "(256 :: nat) ^ length bs \<le> 256 ^ 7" using snoc.prems by (intro power_increasing) auto
  finally have bound: "numeral_value 256 (map unat bs) < 256 ^ 7" .
  have b: "unat b < 256" using unat_less_size [of b] by simp
  have "unat (ucast b :: 64 word) = unat b" using b by (simp add: unsigned_ucast_eq take_bit_nat_eq_self)
  with snoc bound b show ?case
    unfolding step by (simp add: unat_word_ariths)
qed (simp add: be64_def)

text \<open>The number an identifier stands for: its sixteen bytes, read in base 256.\<close>

definition ulid_value :: "8 word list \<Rightarrow> nat" where
  "ulid_value b = numeral_value 256 (map unat b)"

lemma ulid_value_less: "length b = 16 \<Longrightarrow> ulid_value b < 2 ^ 128"
  using numeral_value_less [of "map unat b" 256] unat_less_size [where 'a = 8] by (simp add: ulid_value_def)

lemma encodeCrockford_digits:
  assumes "length b = 16"
  shows "encodeCrockford b = map ((!) crockford) (digits_of 32 26 (ulid_value b))"
proof -
  have "map unat b = map unat (take 8 b) @ map unat (take 8 (drop 8 b))"
    using assms by (simp flip: map_append)
  then have "ulid_value b = unat (be64 (take 8 b)) * 2 ^ 64 + unat (be64 (take 8 (drop 8 b)))"
    using assms by (simp add: ulid_value_def numeral_value_append be64_value)
  then show ?thesis by (simp only: encodeCrockford_def crockford_loop_eq append_Nil2)
qed

lemma crockford_mono:
  assumes "a < 32" "b < 32"
  shows "crockford ! a < crockford ! b \<longleftrightarrow> a < b" "crockford ! a = crockford ! b \<longleftrightarrow> a = b"
proof -
  have sorted: "sorted_wrt (<) crockford" by code_simp
  have len: "length crockford = 32" by (simp add: crockford_def)
  show "crockford ! a < crockford ! b \<longleftrightarrow> a < b"
    using sorted_wrt_nth_less [OF sorted, of a b] sorted_wrt_nth_less [OF sorted, of b a] assms len
    by (metis linorder_less_linear order_less_asym)
  then show "crockford ! a = crockford ! b \<longleftrightarrow> a = b"
    using sorted_wrt_nth_less [OF sorted, of a b] sorted_wrt_nth_less [OF sorted, of b a] assms len
    by (metis linorder_less_linear order_less_irrefl)
qed

text \<open>
  The rendering of sixteen bytes has 26 characters of the alphabet, and they are the base-32
  numeral of the 128-bit number: the double-word shifts lose nothing.
\<close>

theorem encodeCrockford_numeral:
  assumes "length b = 16"
  shows "length (encodeCrockford b) = 26 \<and> set (encodeCrockford b) \<subseteq> set crockford
    \<and> (\<exists>ds. encodeCrockford b = map ((!) crockford) ds \<and> (\<forall>d \<in> set ds. d < 32)
         \<and> numeral_value 32 ds = numeral_value 256 (map unat b))"
proof -
  let ?ds = "digits_of 32 26 (ulid_value b)"
  have small: "\<forall>d \<in> set ?ds. d < 32" using digits_of_less by auto
  have "length crockford = 32" by (simp add: crockford_def)
  then have "set (encodeCrockford b) \<subseteq> set crockford"
    using small by (auto simp: encodeCrockford_digits [OF assms])
  moreover have "ulid_value b < 32 ^ 26"
    using ulid_value_less [OF assms] by (rule less_trans) simp
  then have "numeral_value 32 ?ds = ulid_value b" by (rule numeral_value_digits_of)
  ultimately show ?thesis
    using small encodeCrockford_digits [OF assms]
    by (intro conjI exI [of _ ?ds]) (simp_all add: ulid_value_def)
qed

lemma encodeCrockford_numeral_witness: "length (encodeCrockford (replicate 16 (0xA7 :: 8 word))) = 26"
  using encodeCrockford_numeral [of "replicate 16 (0xA7 :: 8 word)"] by simp

text \<open>Ids compare as strings exactly as their bytes and as their numbers compare.\<close>

lemma encodeCrockford_less_value:
  assumes "length x = 16" "length y = 16"
  shows "encodeCrockford x < encodeCrockford y \<longleftrightarrow> ulid_value x < ulid_value y"
proof -
  let ?d = "\<lambda>b. digits_of 32 26 (ulid_value b)"
  have pow: "ulid_value x < 32 ^ 26" if "length x = 16" for x
    using ulid_value_less [OF that] by (rule less_trans) simp
  have "encodeCrockford x < encodeCrockford y \<longleftrightarrow> ?d x < ?d y"
    unfolding encodeCrockford_digits [OF assms(1)] encodeCrockford_digits [OF assms(2)]
    by (rule map_less_iff) (auto dest!: digits_of_less [rotated] simp: crockford_mono)
  also have "\<dots> \<longleftrightarrow> ulid_value x < ulid_value y"
    using numeral_order [of "?d x" "?d y" 32] digits_of_less [of 32]
      numeral_value_digits_of [OF pow [OF assms(1)]] numeral_value_digits_of [OF pow [OF assms(2)]] by auto
  finally show ?thesis .
qed

lemma ulid_value_order:
  assumes "length x = 16" "length y = 16"
  shows "ulid_value x < ulid_value y \<longleftrightarrow> x < y"
proof -
  have "\<forall>d \<in> set (map unat x) \<union> set (map unat y). d < 256"
    using unat_less_size [where 'a = 8] by auto
  from numeral_order [OF _ this] assms have "map unat x < map unat y \<longleftrightarrow> ulid_value x < ulid_value y"
    by (simp add: ulid_value_def)
  moreover have "map unat x < map unat y \<longleftrightarrow> x < y"
    by (rule map_less_iff) (simp_all add: assms word_less_nat_alt word_unat_eq_iff)
  ultimately show ?thesis by simp
qed

text \<open>
  (C40) The rendering preserves order, so it is one to one: two ids compare as strings exactly as
  their sixteen bytes compare.
\<close>

theorem encodeCrockford_order:
  assumes "length b = 16" "length c = 16"
  shows "(encodeCrockford b < encodeCrockford c \<longleftrightarrow> b < c) \<and> (encodeCrockford b = encodeCrockford c \<longleftrightarrow> b = c)"
  using encodeCrockford_less_value ulid_value_order assms by (metis linorder_neq_iff)

lemma encodeCrockford_order_witness:
  "encodeCrockford (replicate 16 (1 :: 8 word)) < encodeCrockford (replicate 16 (2 :: 8 word))"
  using encodeCrockford_order [of "replicate 16 (1 :: 8 word)" "replicate 16 (2 :: 8 word)"]
  by (simp add: numeral_eq_Suc)

subsection \<open>Ids sort by creation time\<close>

lemma unat_drop_bit_div: "unat (drop_bit n w) = unat (w :: 'a :: len word) div 2 ^ n"
  by (simp only: unat_drop_bit_eq) (simp only: drop_bit_eq_div)

lemma unat_low_byte: "unat (ucast w :: 8 word) = unat (w :: 64 word) mod 256"
  by (simp add: unsigned_ucast_eq take_bit_eq_mod)

lemma ulid_time_digits: "map unat (ulid_time t) = digits_of 256 6 (unat (word_of_int (UnixMilli t) :: 64 word))"
proof -
  have six: "6 = Suc (Suc (Suc (Suc (Suc (Suc 0)))))" by simp
  show ?thesis
    by (simp add: ulid_time_def Let_def unat_low_byte unat_drop_bit_div six flip: div_mult2_eq)
qed

text \<open>
  Ids sort by creation time: of two ids drawn in different milliseconds, the later one is the
  greater string, whatever the entropy of either.
\<close>

theorem ulids_sort_by_time:
  assumes "0 \<le> UnixMilli t" "UnixMilli t < UnixMilli t'" "UnixMilli t' < 2 ^ 48"
    and "length e = 10" "length e' = 10"
  shows "\<exists>i i'. NewULID (Inr e) t = Inr i \<and> NewULID (Inr e') t' = Inr i' \<and> i < i'"
proof -
  have len: "length (ulid_time t @ e) = 16" if "length e = 10" for t e
    using that by (simp add: ulid_time_def Let_def)
  have val: "ulid_value (ulid_time t @ e) = nat (UnixMilli t) * 256 ^ 10 + numeral_value 256 (map unat e)"
    if "0 \<le> UnixMilli t" "UnixMilli t < 2 ^ 48" "length e = 10" for t e
  proof -
    have "unat (word_of_int (UnixMilli t) :: 64 word) = nat (UnixMilli t)"
      using that(1,2) by (simp add: unsigned_of_int take_bit_int_eq_self)
    moreover have "nat (UnixMilli t) < 256 ^ 6" using that(1,2) by (simp add: nat_less_iff)
    ultimately show ?thesis
      using that(3) by (simp add: ulid_value_def numeral_value_append ulid_time_digits numeral_value_digits_of)
  qed
  have "numeral_value 256 (map unat e) < 256 ^ 10"
    using numeral_value_less [of "map unat e" 256] unat_less_size [where 'a = 8] assms(4) by simp
  moreover have "nat (UnixMilli t) + 1 \<le> nat (UnixMilli t')" using assms(1,2) by simp
  then have "(nat (UnixMilli t) + 1) * 256 ^ 10 \<le> nat (UnixMilli t') * 256 ^ 10" by (rule mult_le_mono1)
  ultimately have "ulid_value (ulid_time t @ e) < ulid_value (ulid_time t' @ e')"
    using val [of t e] val [of t' e'] assms by simp
  then show ?thesis
    using encodeCrockford_less_value [OF len len, of e e'] assms(4,5) by (simp add: NewULID_def)
qed

lemma ulids_sort_by_time_witness:
  "\<exists>i i'. NewULID (Inr (replicate 10 0xFF)) 1700000000000000000 = Inr i
     \<and> NewULID (Inr (replicate 10 0)) 1700000000001000000 = Inr i' \<and> i < i'"
  by (rule ulids_sort_by_time) (simp_all add: UnixMilli_def)

end
