(* ===== verification/VerifyGate.thy ===== *)
theory VerifyGate
  imports GoStrings
begin

section \<open>Domain ownership (\<open>verify/verify.go\<close>)\<close>

text \<open>
  The authorisation gate: a challenge is issued per domain, and a domain may be probed only once
  the token was seen in a DNS TXT record or in a file it serves. The resolver and the HTTP client
  are parameters, optional as in the code, giving the answer the network has for a name or a URL
  during one check; every access is recorded, in order, in the trace a check returns. The
  challenges are kept by either of two stores, which share the contract \<open>challenge_store\<close>.
\<close>

type_synonym vstate = gostring

definition StatePending :: vstate where "StatePending = ''pending''"
definition StateVerified :: vstate where "StateVerified = ''verified''"

lemma vstate_distinct [simp]: "StatePending \<noteq> StateVerified" "StateVerified \<noteq> StatePending"
  by (simp_all add: StatePending_def StateVerified_def)

type_synonym vmethod = gostring

definition MethodDNS :: vmethod where "MethodDNS = ''dns''"
definition MethodHTTP :: vmethod where "MethodHTTP = ''http''"

definition tokenPrefix :: gostring where "tokenPrefix = ''hexward-verify=''"
definition dnsLabel :: gostring where "dnsLabel = ''_hexward-verify''"
definition httpPath :: gostring where "httpPath = ''/.well-known/hexward-verify.txt''"
definition legacyTokenPrefix :: gostring where "legacyTokenPrefix = ''sentinel-verify=''"
definition legacyDNSLabel :: gostring where "legacyDNSLabel = ''_sentinel-verify''"
definition legacyHTTPPath :: gostring where "legacyHTTPPath = ''/.well-known/sentinel-verify.txt''"

record challenge =
  Domain :: gostring
  Token :: gostring
  State :: vstate
  CreatedAt :: instant
  VerifiedAt :: "instant option"

definition DNSRecordName :: "challenge \<Rightarrow> gostring" where
  "DNSRecordName c = dnsLabel @ ''.'' @ Domain c"
definition DNSRecordValue :: "challenge \<Rightarrow> gostring" where
  "DNSRecordValue c = tokenPrefix @ Token c"
definition HTTPURL :: "challenge \<Rightarrow> gostring" where
  "HTTPURL c = ''http://'' @ Domain c @ httpPath"
definition HTTPFileContents :: "challenge \<Rightarrow> gostring" where
  "HTTPFileContents c = tokenPrefix @ Token c"
definition LegacyDNSRecordName :: "challenge \<Rightarrow> gostring" where
  "LegacyDNSRecordName c = legacyDNSLabel @ ''.'' @ Domain c"
definition LegacyDNSRecordValue :: "challenge \<Rightarrow> gostring" where
  "LegacyDNSRecordValue c = legacyTokenPrefix @ Token c"
definition LegacyHTTPURL :: "challenge \<Rightarrow> gostring" where
  "LegacyHTTPURL c = ''http://'' @ Domain c @ legacyHTTPPath"
definition LegacyHTTPFileContents :: "challenge \<Rightarrow> gostring" where
  "LegacyHTTPFileContents c = legacyTokenPrefix @ Token c"

subsection \<open>Domains\<close>

definition normalizeDomain :: "gostring \<Rightarrow> gostring" where
  "normalizeDomain in' =
     (let s = TrimSpace (ToLower in');
          s = (case Index s ''://'' of Some i \<Rightarrow> drop (i + 3) s | None \<Rightarrow> s);
          s = (case IndexAny s ''/?#'' of Some i \<Rightarrow> take i s | None \<Rightarrow> s);
          s = (case LastIndexByte s (CHR '':'') of
                 Some i \<Rightarrow> if \<not> Contains s '']'' then take i s else s
               | None \<Rightarrow> s)
      in TrimSuffix s ''.'')"

text \<open>\<open>NewChallenge\<close>, with the sixteen bytes the entropy source delivers, or its error.\<close>

definition NewChallenge ::
  "(goerror + gostring) \<Rightarrow> gostring \<Rightarrow> instant \<Rightarrow> goerror + challenge" where
  "NewChallenge entropy domain now =
     (let d = normalizeDomain domain in
      if d = [] then Inl ''empty domain''
      else case entropy of
             Inl e \<Rightarrow> Inl e
           | Inr b \<Rightarrow> Inr \<lparr>Domain = d, Token = hex_encode b, State = StatePending, CreatedAt = now,
                         VerifiedAt = None\<rparr>)"

subsection \<open>Checking a challenge\<close>

datatype net_event =
    TXTQuery gostring
  | HTTPGet gostring
  | Resolve gostring
  | Dial gostring int
  | TLSProbe gostring gostring

record verifier =
  LookupTXT :: "(gostring \<Rightarrow> goerror + gostring list) option"
  FetchHTTP :: "(gostring \<Rightarrow> goerror + gostring) option"

fun dns_holds :: "(gostring \<Rightarrow> goerror + gostring list) \<Rightarrow> gostring list \<Rightarrow> gostring list \<Rightarrow>
  bool \<times> net_event list" where
  "dns_holds lookup want [] = (False, [])"
| "dns_holds lookup want (name # names) =
     (let (rest, tr) = dns_holds lookup want names in
      case lookup name of
        Inl e \<Rightarrow> (rest, TXTQuery name # tr)
      | Inr records \<Rightarrow>
          if list_ex (\<lambda>r. TrimSpace r \<in> set want) records then (True, [TXTQuery name])
          else (rest, TXTQuery name # tr))"

fun http_holds :: "(gostring \<Rightarrow> goerror + gostring) \<Rightarrow> gostring list \<Rightarrow> gostring list \<Rightarrow>
  bool \<times> net_event list" where
  "http_holds fetch want [] = (False, [])"
| "http_holds fetch want (url # urls) =
     (let (rest, tr) = http_holds fetch want urls in
      case fetch url of
        Inl e \<Rightarrow> (rest, HTTPGet url # tr)
      | Inr body \<Rightarrow>
          if TrimSpace body \<in> set want then (True, [HTTPGet url])
          else (rest, HTTPGet url # tr))"

text \<open>
  \<open>Satisfied\<close> never returns an error: the verdict, the method of the first proof found, and the
  trace of lookups.
\<close>

definition Satisfied :: "verifier \<Rightarrow> challenge \<Rightarrow> bool \<times> vmethod \<times> net_event list" where
  "Satisfied v c =
     (let (dns, tr1) = (case LookupTXT v of
            None \<Rightarrow> (False, [])
          | Some lookup \<Rightarrow> dns_holds lookup [DNSRecordValue c, LegacyDNSRecordValue c]
                             [DNSRecordName c, LegacyDNSRecordName c])
      in if dns then (True, MethodDNS, tr1)
         else
           (let (http, tr2) = (case FetchHTTP v of
                  None \<Rightarrow> (False, [])
                | Some fetch \<Rightarrow> http_holds fetch [HTTPFileContents c, LegacyHTTPFileContents c]
                                  [HTTPURL c, LegacyHTTPURL c])
            in if http then (True, MethodHTTP, tr1 @ tr2) else (False, [], tr1 @ tr2)))"

lemma dns_holds_iff:
  "fst (dns_holds lookup want names) \<longleftrightarrow>
     (\<exists>name \<in> set names. \<exists>records. lookup name = Inr records
        \<and> (\<exists>r \<in> set records. TrimSpace r \<in> set want))"
  by (induction names) (auto simp: Let_def list_ex_iff split: prod.splits sum.splits)

lemma http_holds_iff:
  "fst (http_holds fetch want urls) \<longleftrightarrow>
     (\<exists>url \<in> set urls. \<exists>body. fetch url = Inr body \<and> TrimSpace body \<in> set want)"
  by (induction urls) (auto simp: Let_def split: prod.splits sum.splits)

lemma dns_holds_trace: "set (snd (dns_holds lookup want names)) \<subseteq> TXTQuery ` set names"
  by (induction names) (auto simp: Let_def split: prod.splits sum.splits)

lemma http_holds_trace: "set (snd (http_holds fetch want urls)) \<subseteq> HTTPGet ` set urls"
  by (induction urls) (auto simp: Let_def split: prod.splits sum.splits)

text \<open>What the network must show for a proof to be accepted.\<close>

definition dns_proof :: "verifier \<Rightarrow> challenge \<Rightarrow> bool" where
  "dns_proof v c \<longleftrightarrow>
     (\<exists>lookup name records r. LookupTXT v = Some lookup \<and> name \<in> {DNSRecordName c, LegacyDNSRecordName c}
        \<and> lookup name = Inr records \<and> r \<in> set records
        \<and> TrimSpace r \<in> {DNSRecordValue c, LegacyDNSRecordValue c})"

definition http_proof :: "verifier \<Rightarrow> challenge \<Rightarrow> bool" where
  "http_proof v c \<longleftrightarrow>
     (\<exists>fetch url body. FetchHTTP v = Some fetch \<and> url \<in> {HTTPURL c, LegacyHTTPURL c}
        \<and> fetch url = Inr body \<and> TrimSpace body \<in> {HTTPFileContents c, LegacyHTTPFileContents c})"

text \<open>The lookups a check may make: four names, all under the challenge's own domain.\<close>

definition proof_events :: "challenge \<Rightarrow> net_event set" where
  "proof_events c = {TXTQuery (DNSRecordName c), TXTQuery (LegacyDNSRecordName c),
     HTTPGet (HTTPURL c), HTTPGet (LegacyHTTPURL c)}"

lemma Satisfied_cases:
  "Satisfied v c =
     (if dns_proof v c then (True, MethodDNS, snd (snd (Satisfied v c)))
      else if http_proof v c then (True, MethodHTTP, snd (snd (Satisfied v c)))
      else (False, [], snd (snd (Satisfied v c))))"
proof -
  have dns: "dns_proof v c \<longleftrightarrow> (case LookupTXT v of None \<Rightarrow> False | Some lookup \<Rightarrow>
      fst (dns_holds lookup [DNSRecordValue c, LegacyDNSRecordValue c] [DNSRecordName c, LegacyDNSRecordName c]))"
    unfolding dns_proof_def dns_holds_iff by (cases "LookupTXT v") (simp_all, blast)
  have http: "http_proof v c \<longleftrightarrow> (case FetchHTTP v of None \<Rightarrow> False | Some fetch \<Rightarrow>
      fst (http_holds fetch [HTTPFileContents c, LegacyHTTPFileContents c] [HTTPURL c, LegacyHTTPURL c]))"
    unfolding http_proof_def http_holds_iff by (cases "FetchHTTP v") (simp_all, blast)
  show ?thesis
    unfolding dns http Satisfied_def Let_def
    by (cases "LookupTXT v"; cases "FetchHTTP v"; simp del: dns_holds.simps http_holds.simps split: prod.splits)
qed

lemma Satisfied_trace: "set (snd (snd (Satisfied v c))) \<subseteq> proof_events c"
proof -
  have "set (snd (dns_holds lookup want [DNSRecordName c, LegacyDNSRecordName c])) \<subseteq> proof_events c" for lookup want
    using dns_holds_trace [of lookup want "[DNSRecordName c, LegacyDNSRecordName c]"]
    by (auto simp: proof_events_def simp del: dns_holds.simps)
  moreover have "set (snd (http_holds fetch want [HTTPURL c, LegacyHTTPURL c])) \<subseteq> proof_events c" for fetch want
    using http_holds_trace [of fetch want "[HTTPURL c, LegacyHTTPURL c]"]
    by (auto simp: proof_events_def simp del: http_holds.simps)
  ultimately show ?thesis
    unfolding Satisfied_def Let_def
    by (cases "LookupTXT v"; cases "FetchHTTP v"; simp del: dns_holds.simps http_holds.simps split: prod.splits)
      (metis snd_conv)+
qed

text \<open>
  A challenge is satisfied exactly when its own token is published: a TXT record at the
  current or the pre-rename name, or a file at the current or the pre-rename URL, equals one of the
  two token strings up to surrounding white space. DNS takes precedence, a failed lookup counts as
  absent, and the check touches nothing but those four names of the challenge's domain.
\<close>

theorem Satisfied_iff_token_published:
  "(fst (Satisfied v c) \<longleftrightarrow> dns_proof v c \<or> http_proof v c)
   \<and> fst (snd (Satisfied v c)) = (if dns_proof v c then MethodDNS else if http_proof v c then MethodHTTP else [])
   \<and> set (snd (snd (Satisfied v c))) \<subseteq> proof_events c"
  using Satisfied_cases [of v c] Satisfied_trace [of v c] by (metis fst_conv snd_conv)

subsection \<open>Domains are what users mean\<close>

text \<open>
  A host as the user may write it: visible ASCII without the characters that delimit a URL, not
  empty, not ending in a dot.
\<close>

definition url_delims :: "char set" where
  "url_delims = set '':/?#]''"

definition host_text :: "gostring \<Rightarrow> bool" where
  "host_text h \<longleftrightarrow> h \<noteq> [] \<and> visible h \<and> set h \<inter> url_delims = {} \<and> last h \<noteq> CHR ''.''"

definition port_text :: "gostring \<Rightarrow> bool" where
  "port_text p \<longleftrightarrow> p = [] \<or> (\<exists>ds. p = CHR '':'' # ds \<and> visible ds \<and> set ds \<inter> url_delims = {})"

definition path_text :: "gostring \<Rightarrow> bool" where
  "path_text p \<longleftrightarrow> p = [] \<or> (\<exists>c ds. p = c # ds \<and> c \<in> set ''/?#'' \<and> visible ds)"

lemma lower_delims: "lower_char c \<in> url_delims \<longleftrightarrow> c \<in> url_delims"
proof -
  have "byte (lower_char c) = byte d \<longleftrightarrow> byte c = byte d" if "d \<in> url_delims" for d
    using that by (auto simp: url_delims_def byte_lower_char) (auto simp: byte_def)
  then show ?thesis by (metis byte_inject)
qed

lemma lower_delim_id: "c \<in> url_delims \<Longrightarrow> lower_char c = c"
  by (auto simp: url_delims_def lower_char_def byte_def)

lemma Index_scheme: "CHR '':'' \<notin> set u \<Longrightarrow> Index (u @ ''://'' @ v) ''://'' = Some (length u)"
  by (induction u) (auto simp: HasPrefix_def)

lemma Index_no_colon: "CHR '':'' \<notin> set u \<Longrightarrow> Index u ''://'' = None"
  by (induction u) (auto simp: HasPrefix_iff)

lemma IndexAny_append: "set u \<inter> set cs = {} \<Longrightarrow> IndexAny (u @ v) cs = map_option ((+) (length u)) (IndexAny v cs)"
  by (cases "IndexAny v cs") (induction u, auto)+

lemma LastIndexByte_append: "x \<notin> set v \<Longrightarrow> LastIndexByte (u @ x # v) x = Some (length u)"
proof -
  assume v: "x \<notin> set v"
  then have "LastIndexByte v x = None" by (simp add: LastIndexByte_None_iff)
  then show ?thesis by (induction u) auto
qed

text \<open>The steps of the normalisation after the scheme is gone, on a lower-case host.\<close>

lemma strip_path_port:
  assumes h: "set h \<inter> url_delims = {}" and port: "p = [] \<or> (\<exists>ds. p = CHR '':'' # ds \<and> set ds \<inter> url_delims = {})"
    and path: "q = [] \<or> hd q \<in> set ''/?#''"
  shows "(case LastIndexByte (case IndexAny (h @ p @ q) ''/?#'' of Some i \<Rightarrow> take i (h @ p @ q) | None \<Rightarrow> h @ p @ q) (CHR '':'') of
           Some i \<Rightarrow> if \<not> Contains (case IndexAny (h @ p @ q) ''/?#'' of Some i \<Rightarrow> take i (h @ p @ q) | None \<Rightarrow> h @ p @ q) '']''
                     then take i (case IndexAny (h @ p @ q) ''/?#'' of Some i \<Rightarrow> take i (h @ p @ q) | None \<Rightarrow> h @ p @ q)
                     else (case IndexAny (h @ p @ q) ''/?#'' of Some i \<Rightarrow> take i (h @ p @ q) | None \<Rightarrow> h @ p @ q)
         | None \<Rightarrow> (case IndexAny (h @ p @ q) ''/?#'' of Some i \<Rightarrow> take i (h @ p @ q) | None \<Rightarrow> h @ p @ q)) = h"
proof -
  have hp: "set (h @ p) \<inter> set ''/?#'' = {}"
    using h port by (auto simp: url_delims_def)
  have "IndexAny q ''/?#'' = (if q = [] then None else Some 0)" using path by (cases q) auto
  with IndexAny_append [OF hp, of q]
  have cut: "(case IndexAny (h @ p @ q) ''/?#'' of Some i \<Rightarrow> take i (h @ p @ q) | None \<Rightarrow> h @ p @ q) = h @ p"
    by (cases "q = []") auto
  have nb: "\<not> Contains (h @ p) '']''" using h port by (auto simp: url_delims_def)
  show ?thesis
  proof (cases "p = []")
    case True
    have "LastIndexByte h (CHR '':'') = None"
      using h by (auto simp: LastIndexByte_None_iff url_delims_def)
    with True show ?thesis unfolding cut by simp
  next
    case False
    with port obtain ds where ds: "p = CHR '':'' # ds" "set ds \<inter> url_delims = {}" by blast
    then have "LastIndexByte (h @ p) (CHR '':'') = Some (length h)"
      using LastIndexByte_append [of "CHR '':''" ds h] by (auto simp: url_delims_def)
    with nb show ?thesis unfolding cut by simp
  qed
qed

text \<open>The parts of a written domain, in lower case.\<close>

lemma ToLower_no_delims: "set (ToLower s) \<inter> url_delims = {} \<longleftrightarrow> set s \<inter> url_delims = {}"
  using lower_delims by (auto simp: ToLower_def)

lemma ToLower_no_colon:
  assumes "CHR '':'' \<notin> set q"
  shows "CHR '':'' \<notin> set (ToLower q)"
proof
  assume "CHR '':'' \<in> set (ToLower q)"
  then obtain c where c: "c \<in> set q" "CHR '':'' = lower_char c" by (auto simp: ToLower_def)
  have "lower_char c \<in> url_delims" unfolding c(2) [symmetric] by (simp add: url_delims_def)
  then have "lower_char c = c" using lower_delims lower_delim_id by blast
  with c assms show False by simp
qed

lemma port_text_lower:
  assumes "port_text p"
  shows "ToLower p = [] \<or> (\<exists>ds. ToLower p = CHR '':'' # ds \<and> set ds \<inter> url_delims = {})"
proof (cases "p = []")
  case False
  then obtain ds where ds: "p = CHR '':'' # ds" "set ds \<inter> url_delims = {}"
    using assms by (auto simp: port_text_def)
  then have "ToLower p = CHR '':'' # ToLower ds" by (simp add: ToLower_def lower_char_def byte_def)
  with ds(2) ToLower_no_delims [of ds] show ?thesis by blast
qed (simp add: ToLower_def)

lemma path_text_lower:
  assumes "path_text q"
  shows "ToLower q = [] \<or> hd (ToLower q) \<in> set ''/?#''"
proof (cases q)
  case (Cons c ds)
  then have c: "c \<in> set ''/?#''" using assms by (auto simp: path_text_def)
  then have "lower_char c = c" by (intro lower_delim_id) (auto simp: url_delims_def)
  with c Cons show ?thesis by (simp add: ToLower_def)
qed (simp add: ToLower_def)

lemma TrimSuffix_dot_lower:
  assumes "host_text h" "dot = [] \<or> dot = ''.''"
  shows "TrimSuffix (ToLower h @ dot) ''.'' = ToLower h"
proof (cases "dot = []")
  case True
  have "byte (lower_char (last h)) \<noteq> byte (CHR ''.'')"
    using assms(1) by (auto simp: host_text_def byte_lower_char byte_inject) (simp_all add: byte_def)
  then have "last (ToLower h) \<noteq> CHR ''.''"
    using assms(1) by (auto simp: host_text_def ToLower_def last_map)
  then have "\<not> HasSuffix (ToLower h) ''.''" by (auto simp: HasSuffix_iff)
  with True show ?thesis by (simp add: TrimSuffix_def)
next
  case False
  with assms(2) show ?thesis by (simp add: TrimSuffix_def)
qed

text \<open>Cutting the scheme off, when there is one.\<close>

lemma cut_scheme:
  assumes "set sch \<inter> url_delims = {}" "pre = [] \<and> CHR '':'' \<notin> set r \<or> pre = sch @ ''://''"
  shows "(case Index (pre @ r) ''://'' of Some i \<Rightarrow> drop (i + 3) (pre @ r) | None \<Rightarrow> pre @ r) = r"
proof (cases "pre = sch @ ''://''")
  case True
  have "CHR '':'' \<notin> set sch" using assms(1) by (auto simp: url_delims_def)
  from Index_scheme [OF this] show ?thesis by (simp add: True)
next
  case False
  with assms(2) have "pre = []" "CHR '':'' \<notin> set r" by auto
  with Index_no_colon show ?thesis by simp
qed

text \<open>
  Every common way of writing a domain names the same domain: whatever the letter case, with
  or without a scheme, a trailing dot, a port, and a path, query or fragment (without a scheme of
  its own when none is given), \<open>normalizeDomain\<close> yields the lower-case host.
\<close>

theorem normalizeDomain_host:
  assumes "host_text h" "port_text p" "path_text q" "dot = [] \<or> dot = ''.''"
    and "visible sch" "set sch \<inter> url_delims = {}"
    and "pre = [] \<and> CHR '':'' \<notin> set q \<and> p = [] \<or> pre = sch @ ''://''"
  shows "normalizeDomain (pre @ h @ dot @ p @ q) = ToLower h"
proof -
  let ?L = ToLower
  have "visible h" "visible p" "visible q" "visible dot" "visible pre"
    using assms(1-5,7) by (auto simp: host_text_def port_text_def path_text_def visible_Cons byte_def)
  then have trim: "TrimSpace (?L (pre @ h @ dot @ p @ q)) = ?L pre @ ?L h @ ?L dot @ ?L p @ ?L q"
    using TrimSpace_visible visible_ToLower by (simp add: ToLower_def)
  have dotL: "?L dot = dot" using assms(4) by (auto simp: ToLower_def lower_char_def byte_def)
  have host: "set (?L h @ dot) \<inter> url_delims = {}"
    using assms(1,4) ToLower_no_delims [of h] by (auto simp: host_text_def url_delims_def)
  have pre: "?L pre = [] \<and> CHR '':'' \<notin> set (?L h @ dot @ ?L p @ ?L q) \<or> ?L pre = ?L sch @ ''://''"
    using assms(7)
  proof
    assume "pre = [] \<and> CHR '':'' \<notin> set q \<and> p = []"
    then show ?thesis using host ToLower_no_colon [of q] by (auto simp: ToLower_def url_delims_def)
  qed (simp add: ToLower_def lower_char_def byte_def)
  have "set (?L sch) \<inter> url_delims = {}" using assms(6) ToLower_no_delims by blast
  note cut = cut_scheme [OF this pre]
  have parts: "?L h @ dot @ ?L p @ ?L q = (?L h @ dot) @ ?L p @ ?L q" by simp
  have "normalizeDomain (pre @ h @ dot @ p @ q) = TrimSuffix (?L h @ dot) ''.''"
    unfolding normalizeDomain_def Let_def trim dotL cut
    unfolding parts strip_path_port [OF host port_text_lower [OF assms(2)] path_text_lower [OF assms(3)]] by (rule refl)
  with TrimSuffix_dot_lower [OF assms(1,4)] show ?thesis by simp
qed

lemma normalizeDomain_host_witness:
  "normalizeDomain ''HTTPS://Example.com.:443/x'' = ''example.com''"
proof -
  have "normalizeDomain (''HTTPS://'' @ ''Example.com'' @ ''.'' @ '':443'' @ ''/x'') = ToLower ''Example.com''"
    by (rule normalizeDomain_host [where sch = "''HTTPS''"])
      (simp_all add: host_text_def port_text_def path_text_def visible_def byte_def url_delims_def)
  moreover have "ToLower ''Example.com'' = ''example.com''" by code_simp
  ultimately show ?thesis by simp
qed

text \<open>
  A fresh challenge is never a verified one: \<open>NewChallenge\<close> yields a pending challenge for the
  normalised domain, whose token is 32 hexadecimal digits, different for different entropy.
\<close>

theorem NewChallenge_fresh:
  assumes "NewChallenge (Inr b) domain now = Inr c"
  shows "State c = StatePending \<and> VerifiedAt c = None \<and> Domain c = normalizeDomain domain \<and> Domain c \<noteq> []
    \<and> length (Token c) = 2 * length b
    \<and> (NewChallenge (Inr b') domain now = Inr c' \<longrightarrow> Token c' = Token c \<longrightarrow> b' = b)"
  using assms by (auto simp: NewChallenge_def Let_def hex_encode_inject split: if_splits)

lemma NewChallenge_fresh_witness:
  "\<exists>c. NewChallenge (Inr (replicate 16 (CHR ''a''))) ''example.com'' 5 = Inr c \<and> State c = StatePending"
proof -
  have "normalizeDomain ''example.com'' \<noteq> []" by code_simp
  then obtain c where c: "NewChallenge (Inr (replicate 16 (CHR ''a''))) ''example.com'' 5 = Inr c"
    by (simp add: NewChallenge_def Let_def)
  with NewChallenge_fresh [OF c] show ?thesis by blast
qed

end
