(* ===== verification/ChallengeStore.thy ===== *)
theory ChallengeStore
  imports VerifyGate
begin

section \<open>Challenge stores (\<open>verify/memstore.go\<close>, \<open>store/verify_sqlite.go\<close>)\<close>

text \<open>
  The interface \<open>verify.Store\<close>, the contract its clients rely on, and its two implementations.
  \<open>held\<close> is the challenge stored for a module and a domain; an operation that reports an error
  leaves it as it was.
\<close>

locale challenge_store =
  fixes put :: "gostring \<Rightarrow> challenge \<Rightarrow> 's \<Rightarrow> goerror option \<times> 's"
    and get :: "gostring \<Rightarrow> gostring \<Rightarrow> 's \<Rightarrow> (goerror + challenge option) \<times> 's"
    and list_challenges :: "gostring \<Rightarrow> 's \<Rightarrow> (goerror + challenge list) \<times> 's"
    and del :: "gostring \<Rightarrow> gostring \<Rightarrow> 's \<Rightarrow> goerror option \<times> 's"
    and held :: "'s \<Rightarrow> gostring \<Rightarrow> gostring \<Rightarrow> challenge option"
    and vgood :: "'s \<Rightarrow> bool"
    and vaccepts :: "gostring \<Rightarrow> bool"
  assumes held_domain: "vgood s \<Longrightarrow> vaccepts m \<Longrightarrow> held s m d = Some c \<Longrightarrow> Domain c = d"
    and put_ok: "vgood s \<Longrightarrow> vaccepts m \<Longrightarrow> put m c s = (None, s') \<Longrightarrow>
        vgood s' \<and> (\<forall>m' d. vaccepts m' \<longrightarrow>
          held s' m' d = (if m' = m \<and> d = Domain c then Some c else held s m' d))"
    and put_err: "vgood s \<Longrightarrow> put m c s = (Some e, s') \<Longrightarrow> vgood s' \<and> held s' = held s"
    and get_ok: "vgood s \<Longrightarrow> vaccepts m \<Longrightarrow> get m d s = (Inr q, s') \<Longrightarrow>
        q = held s m d \<and> vgood s' \<and> held s' = held s"
    and get_err: "vgood s \<Longrightarrow> get m d s = (Inl e, s') \<Longrightarrow> vgood s' \<and> held s' = held s"
    and list_ok: "vgood s \<Longrightarrow> vaccepts m \<Longrightarrow> list_challenges m s = (Inr cs, s') \<Longrightarrow>
        vgood s' \<and> held s' = held s \<and> distinct (map Domain cs)
        \<and> (\<forall>c. c \<in> set cs \<longleftrightarrow> held s m (Domain c) = Some c)"
    and del_ok: "vgood s \<Longrightarrow> vaccepts m \<Longrightarrow> del m d s = (None, s') \<Longrightarrow>
        vgood s' \<and> (\<forall>m' d'. vaccepts m' \<longrightarrow>
          held s' m' d' = (if m' = m \<and> d' = d then None else held s m' d'))"
begin

text \<open>An update reports its success or leaves the store as it was.\<close>

lemma put_cases:
  assumes "vgood s" "vaccepts m" "put m c s = (oe, s')"
  shows "vgood s' \<and> (\<forall>m' d. vaccepts m' \<longrightarrow>
    held s' m' d = (if oe = None \<and> m' = m \<and> d = Domain c then Some c else held s m' d))"
  using put_ok [OF assms(1,2)] put_err [OF assms(1)] assms(3) by (cases oe) auto

end

subsection \<open>In memory\<close>

type_synonym chmem = "(gostring \<times> challenge) list"

definition challenge_key :: "gostring \<Rightarrow> gostring \<Rightarrow> gostring" where
  "challenge_key module_id domain = module_id @ mkbyte 0 # domain"

definition NewChallengeStore :: chmem where
  "NewChallengeStore = []"

definition chmem_Put :: "gostring \<Rightarrow> challenge \<Rightarrow> chmem \<Rightarrow> goerror option \<times> chmem" where
  "chmem_Put module_id c m = (None, AList.update (challenge_key module_id (Domain c)) c m)"

definition chmem_Get :: "gostring \<Rightarrow> gostring \<Rightarrow> chmem \<Rightarrow> (goerror + challenge option) \<times> chmem" where
  "chmem_Get module_id domain m = (Inr (map_of m (challenge_key module_id domain)), m)"

definition chmem_List :: "gostring \<Rightarrow> chmem \<Rightarrow> (goerror + challenge list) \<times> chmem" where
  "chmem_List module_id m =
     (Inr (map snd (filter (\<lambda>(k, c). length k > length module_id \<and> take (length module_id) k = module_id
                                \<and> k ! length module_id = mkbyte 0) m)), m)"

definition chmem_Delete :: "gostring \<Rightarrow> gostring \<Rightarrow> chmem \<Rightarrow> goerror option \<times> chmem" where
  "chmem_Delete module_id domain m = (None, AList.delete (challenge_key module_id domain) m)"

text \<open>
  A key is a module id, a zero byte and a domain, so it can be taken apart as long as module ids
  are free of zero bytes; the store then holds every challenge under its own domain.
\<close>

definition chmem_good :: "chmem \<Rightarrow> bool" where
  "chmem_good m \<longleftrightarrow> distinct (map fst m)
     \<and> (\<forall>(k, c) \<in> set m. \<exists>mid. no_nul mid \<and> k = challenge_key mid (Domain c))"

lemma challenge_key_inject:
  "no_nul m \<Longrightarrow> no_nul m' \<Longrightarrow> challenge_key m d = challenge_key m' d' \<longleftrightarrow> m = m' \<and> d = d'"
proof -
  assume "no_nul m" "no_nul m'"
  moreover have "mkbyte 0 \<notin> set w \<Longrightarrow> takeWhile (\<lambda>c. c \<noteq> mkbyte 0) (w @ mkbyte 0 # z) = w" for w z
    by (induction w) auto
  ultimately have "m @ mkbyte 0 # d = m' @ mkbyte 0 # d' \<Longrightarrow> m = m'"
    unfolding no_nul_def by metis
  then show ?thesis by (auto simp: challenge_key_def)
qed

lemma challenge_key_prefix:
  assumes "no_nul m" "no_nul mid"
  shows "length (challenge_key mid d) > length m \<and> take (length m) (challenge_key mid d) = m
      \<and> challenge_key mid d ! length m = mkbyte 0 \<longleftrightarrow> mid = m"
proof
  assume "length (challenge_key mid d) > length m \<and> take (length m) (challenge_key mid d) = m
    \<and> challenge_key mid d ! length m = mkbyte 0"
  then have "challenge_key mid d = challenge_key m (drop (Suc (length m)) (challenge_key mid d))"
    unfolding challenge_key_def [of m] by (metis Cons_nth_drop_Suc append_take_drop_id)
  then show "mid = m" using challenge_key_inject [OF assms(2,1)] by blast
qed (simp add: challenge_key_def nth_append)

lemma chmem_lookup:
  assumes "chmem_good m" "no_nul mid"
  shows "map_of m (challenge_key mid d) = Some c \<longleftrightarrow> (challenge_key mid d, c) \<in> set m \<and> Domain c = d"
proof -
  have "map_of m (challenge_key mid d) = Some c \<longleftrightarrow> (challenge_key mid d, c) \<in> set m"
    using assms(1) by (simp add: chmem_good_def)
  moreover have "Domain c = d" if "(challenge_key mid d, c) \<in> set m"
    using assms that challenge_key_inject by (fastforce simp: chmem_good_def)
  ultimately show ?thesis by blast
qed

lemma chmem_list_set:
  assumes "chmem_good m" "no_nul mid" "chmem_List mid m = (Inr cs, m')"
  shows "c \<in> set cs \<longleftrightarrow> (challenge_key mid (Domain c), c) \<in> set m" and "distinct (map Domain cs)"
proof -
  let ?P = "\<lambda>(k, c). length k > length mid \<and> take (length mid) k = mid \<and> k ! length mid = mkbyte 0"
  have cs: "cs = map snd (filter ?P m)" using assms(3) unfolding chmem_List_def by blast
  have key: "?P (k, c) \<longleftrightarrow> k = challenge_key mid (Domain c)" if "(k, c) \<in> set m" for k c
    using assms(1,2) that challenge_key_prefix by (fastforce simp: chmem_good_def)
  show "c \<in> set cs \<longleftrightarrow> (challenge_key mid (Domain c), c) \<in> set m"
    unfolding cs using key by (force simp: image_iff)
  have "map fst (filter ?P m) = map (\<lambda>c. challenge_key mid (Domain c)) cs"
    unfolding cs using key by auto
  moreover have "distinct (map fst (filter ?P m))"
    using assms(1) by (auto simp: chmem_good_def distinct_map_filter)
  ultimately have "distinct (map (\<lambda>c. challenge_key mid (Domain c)) cs)" by simp
  then have "distinct (map (challenge_key mid) (map Domain cs))" by (simp add: comp_def)
  then show "distinct (map Domain cs)" by (metis distinct_map)
qed

interpretation chmem: challenge_store chmem_Put chmem_Get chmem_List chmem_Delete
    "\<lambda>s m d. map_of s (challenge_key m d)" chmem_good no_nul
proof (unfold_locales, goal_cases)
  case (1 s m d c)
  then show ?case by (simp add: chmem_lookup)
next
  case (2 s m c s')
  then have s': "s' = AList.update (challenge_key m (Domain c)) c s" by (simp add: chmem_Put_def)
  have "chmem_good s'"
    using 2(1,2) unfolding s' chmem_good_def by (auto dest!: set_update_subset)
  then show ?case by (auto simp: s' map_of_update challenge_key_inject 2(2))
next
  case (6 s m cs s')
  have "s' = s" using 6(3) by (simp add: chmem_List_def)
  with 6(1) chmem_list_set [OF 6] chmem_lookup [OF 6(1,2)] show ?case by auto
next
  case (7 s m d s')
  then have s': "s' = AList.delete (challenge_key m d) s" by (simp add: chmem_Delete_def)
  have "chmem_good s'"
    using 7(1) unfolding s' chmem_good_def by (auto simp: AList.delete_eq intro: distinct_map_filter)
  then show ?case by (auto simp: s' challenge_key_inject 7(2) AList.delete_conv')
qed (auto simp: chmem_Put_def chmem_Get_def chmem_List_def)

subsection \<open>In SQLite\<close>

text \<open>
  The table \<open>verify_challenges\<close> with its unique key, and the driver's answers to come, as in the
  finding store: \<open>Some e\<close> for a statement that fails, success once the list is used up.
\<close>

record vrow =
  v_module :: gostring
  v_domain :: gostring
  v_token :: gostring
  v_state :: gostring
  v_created_at :: instant
  v_verified_at :: "instant option"

record vdb =
  verify_challenges :: "vrow list"
  v_faults :: "goerror option list"

definition vexec :: "vdb \<Rightarrow> goerror option \<times> vdb" where
  "vexec d = (case v_faults d of [] \<Rightarrow> (None, d) | x # xs \<Rightarrow> (x, d\<lparr>v_faults := xs\<rparr>))"

lemma vexec_tables: "vexec d = (x, d') \<Longrightarrow> verify_challenges d' = verify_challenges d"
  by (auto simp: vexec_def split: list.splits)

definition NewSQLiteVerifyStore :: "goerror option list \<Rightarrow> vdb" where
  "NewSQLiteVerifyStore fs = \<lparr>verify_challenges = [], v_faults = fs\<rparr>"

definition scanChallenge :: "vrow \<Rightarrow> challenge" where
  "scanChallenge w = \<lparr>Domain = v_domain w, Token = v_token w, State = v_state w,
     CreatedAt = v_created_at w, VerifiedAt = v_verified_at w\<rparr>"

definition challenge_row :: "gostring \<Rightarrow> challenge \<Rightarrow> vrow" where
  "challenge_row module_id c = \<lparr>v_module = module_id, v_domain = Domain c, v_token = Token c,
     v_state = State c, v_created_at = CreatedAt c, v_verified_at = VerifiedAt c\<rparr>"

definition vkey :: "vrow \<Rightarrow> gostring \<times> gostring" where
  "vkey w = (v_module w, v_domain w)"

definition vsql_Put :: "gostring \<Rightarrow> challenge \<Rightarrow> vdb \<Rightarrow> goerror option \<times> vdb" where
  "vsql_Put module_id c d =
     (case vexec d of
        (Some e, d) \<Rightarrow> (Some e, d)
      | (None, d) \<Rightarrow>
          (let x = challenge_row module_id c in
           if list_ex (\<lambda>w. vkey w = vkey x) (verify_challenges d) then
             (None, d\<lparr>verify_challenges :=
                map (\<lambda>w. if vkey w = vkey x
                      then w\<lparr>v_token := v_token x, v_state := v_state x, v_created_at := v_created_at x,
                             v_verified_at := v_verified_at x\<rparr> else w) (verify_challenges d)\<rparr>)
           else (None, d\<lparr>verify_challenges := verify_challenges d @ [x]\<rparr>)))"

definition vsql_Get :: "gostring \<Rightarrow> gostring \<Rightarrow> vdb \<Rightarrow> (goerror + challenge option) \<times> vdb" where
  "vsql_Get module_id domain d =
     (case vexec d of
        (Some e, d) \<Rightarrow> (Inl e, d)
      | (None, d) \<Rightarrow>
          (Inr (map_option scanChallenge
             (find (\<lambda>w. v_module w = module_id \<and> v_domain w = domain) (verify_challenges d))), d))"

definition vsql_List :: "gostring \<Rightarrow> vdb \<Rightarrow> (goerror + challenge list) \<times> vdb" where
  "vsql_List module_id d =
     (case vexec d of
        (Some e, d) \<Rightarrow> (Inl e, d)
      | (None, d) \<Rightarrow>
          (Inr (map scanChallenge
             (sort_key v_domain (filter (\<lambda>w. v_module w = module_id) (verify_challenges d)))), d))"

definition vsql_Delete :: "gostring \<Rightarrow> gostring \<Rightarrow> vdb \<Rightarrow> goerror option \<times> vdb" where
  "vsql_Delete module_id domain d =
     (case vexec d of
        (Some e, d) \<Rightarrow> (Some e, d)
      | (None, d) \<Rightarrow>
          (None, d\<lparr>verify_challenges :=
             filter (\<lambda>w. \<not> (v_module w = module_id \<and> v_domain w = domain)) (verify_challenges d)\<rparr>))"

definition vsql_held :: "vdb \<Rightarrow> gostring \<Rightarrow> gostring \<Rightarrow> challenge option" where
  "vsql_held d m dm = map_option scanChallenge (find (\<lambda>w. vkey w = (m, dm)) (verify_challenges d))"

definition vsql_good :: "vdb \<Rightarrow> bool" where
  "vsql_good d \<longleftrightarrow> distinct (map vkey (verify_challenges d))"

lemma scanChallenge_row: "scanChallenge (challenge_row m c) = c"
  by (simp add: scanChallenge_def challenge_row_def)

lemma vsql_held_iff:
  assumes "vsql_good d"
  shows "vsql_held d m dm = Some c \<longleftrightarrow>
    (\<exists>w \<in> set (verify_challenges d). vkey w = (m, dm) \<and> c = scanChallenge w)"
proof -
  have "find (\<lambda>w. vkey w = k) ws = Some w \<longleftrightarrow> w \<in> set ws \<and> vkey w = k"
    if "distinct (map vkey ws)" for k ws w
    using that by (induction ws) auto
  then show ?thesis using assms by (auto simp: vsql_held_def vsql_good_def)
qed

lemma vsql_tables:
  "verify_challenges d' = verify_challenges d \<Longrightarrow> vsql_held d' = vsql_held d \<and> vsql_good d' = vsql_good d"
  by (simp add: vsql_held_def vsql_good_def fun_eq_iff)

lemma vkey_scan: "vkey w = (m, d) \<Longrightarrow> Domain (scanChallenge w) = d"
  by (simp add: vkey_def scanChallenge_def)

text \<open>The statement on the rows: the row of the key is overwritten, or a new one is added.\<close>

definition overwrite :: "vrow \<Rightarrow> vrow \<Rightarrow> vrow" where
  "overwrite x w = (if vkey w = vkey x
     then w\<lparr>v_token := v_token x, v_state := v_state x, v_created_at := v_created_at x, v_verified_at := v_verified_at x\<rparr>
     else w)"

lemma vkey_overwrite [simp]: "vkey (overwrite x w) = vkey w"
  by (simp add: overwrite_def vkey_def)

lemma scan_overwrite:
  "scanChallenge (overwrite (challenge_row m c) w) = (if vkey w = (m, Domain c) then c else scanChallenge w)"
  by (simp add: overwrite_def vkey_def scanChallenge_def challenge_row_def)

lemma vkey_challenge_row [simp]: "vkey (challenge_row m c) = (m, Domain c)"
  by (simp add: vkey_def challenge_row_def)

lemma vsql_Put_cases:
  assumes "vsql_Put m c d = (None, d')"
  obtains (old) "(m, Domain c) \<in> vkey ` set (verify_challenges d)"
      "verify_challenges d' = map (overwrite (challenge_row m c)) (verify_challenges d)"
  | (new) "(m, Domain c) \<notin> vkey ` set (verify_challenges d)"
      "verify_challenges d' = verify_challenges d @ [challenge_row m c]"
proof -
  obtain d1 where e: "vexec d = (None, d1)"
    using assms by (auto simp: vsql_Put_def split: prod.splits option.splits)
  note t = vexec_tables [OF e]
  have ex: "list_ex (\<lambda>w. vkey w = (m, Domain c)) (verify_challenges d) \<longleftrightarrow>
      (m, Domain c) \<in> vkey ` set (verify_challenges d)"
    unfolding list_ex_iff image_iff by metis
  have "overwrite (challenge_row m c) = (\<lambda>w. if vkey w = (m, Domain c)
      then w\<lparr>v_token := v_token (challenge_row m c), v_state := v_state (challenge_row m c),
        v_created_at := v_created_at (challenge_row m c), v_verified_at := v_verified_at (challenge_row m c)\<rparr> else w)"
    by (rule ext) (simp add: overwrite_def)
  with assms e ex old new show thesis
    by (cases "(m, Domain c) \<in> vkey ` set (verify_challenges d)") (auto simp: vsql_Put_def Let_def t)
qed

lemma vsql_Put_good:
  assumes "vsql_good d" "vsql_Put m c d = (None, d')"
  shows "vsql_good d'"
  using assms(2)
proof (cases rule: vsql_Put_cases)
  case old
  have "vkey \<circ> overwrite (challenge_row m c) = vkey" by (simp add: fun_eq_iff)
  with old(2) assms(1) show ?thesis by (simp add: vsql_good_def)
next
  case new
  with assms(1) show ?thesis by (simp add: vsql_good_def del: image_iff)
qed

lemma vsql_Put_rows:
  assumes "vsql_good d" "vsql_Put m c d = (None, d')"
  shows "vsql_good d'"
    and "vsql_held d' m' dm = (if m' = m \<and> dm = Domain c then Some c else vsql_held d m' dm)"
proof -
  show good: "vsql_good d'" by (rule vsql_Put_good [OF assms])
  note held = vsql_held_iff [OF good] vsql_held_iff [OF assms(1)]
  have "vsql_held d' m' dm = Some q \<longleftrightarrow>
      (if m' = m \<and> dm = Domain c then Some c else vsql_held d m' dm) = Some q" for q
    using assms(2)
  proof (cases rule: vsql_Put_cases)
    case old
    have step: "vsql_held d' m' dm = Some q \<longleftrightarrow> (\<exists>w \<in> set (verify_challenges d). vkey w = (m', dm)
        \<and> q = (if vkey w = (m, Domain c) then c else scanChallenge w))"
      unfolding held old(2) by (simp add: scan_overwrite)
    show ?thesis
    proof (cases "(m', dm) = (m, Domain c)")
      case True
      then show ?thesis using old(1) unfolding step by auto
    next
      case False
      then have "(\<exists>w \<in> set (verify_challenges d). vkey w = (m', dm)
          \<and> q = (if vkey w = (m, Domain c) then c else scanChallenge w)) \<longleftrightarrow> vsql_held d m' dm = Some q"
        unfolding held by metis
      with False show ?thesis unfolding step by auto
    qed
  next
    case new
    then have "vkey w \<noteq> (m, Domain c)" if "w \<in> set (verify_challenges d)" for w using that by (metis image_eqI)
    with new(2) show ?thesis by (auto simp: held scanChallenge_row)
  qed
  then show "vsql_held d' m' dm = (if m' = m \<and> dm = Domain c then Some c else vsql_held d m' dm)"
    by (rule option_ext)
qed

interpretation vsql: challenge_store vsql_Put vsql_Get vsql_List vsql_Delete vsql_held vsql_good "\<lambda>_. True"
proof (unfold_locales, goal_cases)
  case (1 s m d c)
  then show ?case by (auto simp: vsql_held_iff vkey_scan)
next
  case (2 s m c s')
  then show ?case using vsql_Put_rows by blast
next
  case (3 s m c e s')
  then have "verify_challenges s' = verify_challenges s"
    by (auto simp: vsql_Put_def Let_def dest: vexec_tables split: prod.splits option.splits if_splits)
  with 3(1) vsql_tables show ?case by metis
next
  case (4 s m d q s')
  have "(\<lambda>w. v_module w = m \<and> v_domain w = d) = (\<lambda>w. vkey w = (m, d))" by (auto simp: vkey_def)
  with 4(3) have "verify_challenges s' = verify_challenges s \<and> q = vsql_held s m d"
    by (auto simp: vsql_Get_def vsql_held_def dest: vexec_tables split: prod.splits option.splits)
  with 4(1) vsql_tables show ?case by metis
next
  case (5 s m d e s')
  then have "verify_challenges s' = verify_challenges s"
    by (auto simp: vsql_Get_def dest: vexec_tables split: prod.splits option.splits)
  with 5(1) vsql_tables show ?case by metis
next
  case (6 s m cs s')
  then have tab: "verify_challenges s' = verify_challenges s"
    and cs: "cs = map scanChallenge (sort_key v_domain (filter (\<lambda>w. v_module w = m) (verify_challenges s)))"
    by (auto simp: vsql_List_def dest: vexec_tables split: prod.splits option.splits)
  let ?ws = "filter (\<lambda>w. v_module w = m) (verify_challenges s)"
  have "c \<in> set cs \<longleftrightarrow> vsql_held s m (Domain c) = Some c" for c
    unfolding cs vsql_held_iff [OF 6(1)] by (auto simp: vkey_def scanChallenge_def)
  moreover have "distinct (map Domain cs)"
  proof -
    have "distinct (map vkey ?ws)" using 6(1) by (simp add: vsql_good_def distinct_map_filter)
    moreover have "map vkey ?ws = map (Pair m) (map v_domain ?ws)" by (auto simp: vkey_def)
    ultimately have "distinct (map v_domain ?ws)" by (metis distinct_map)
    then have "distinct (map v_domain (sort_key v_domain ?ws))"
      by (metis mset_map mset_eq_imp_distinct_iff mset_sort)
    moreover have "map Domain cs = map v_domain (sort_key v_domain ?ws)"
      unfolding cs by (simp add: scanChallenge_def)
    ultimately show ?thesis by simp
  qed
  moreover have "vsql_good s' \<and> vsql_held s' = vsql_held s" using 6(1) vsql_tables [OF tab] by blast
  ultimately show ?case by blast
next
  case (7 s m d s')
  then have rows: "verify_challenges s' =
      filter (\<lambda>w. \<not> (v_module w = m \<and> v_domain w = d)) (verify_challenges s)"
    by (auto simp: vsql_Delete_def dest: vexec_tables split: prod.splits option.splits)
  have good: "vsql_good s'" using 7(1) by (simp add: vsql_good_def rows distinct_map_filter)
  have "vsql_held s' m' d' = (if m' = m \<and> d' = d then None else vsql_held s m' d')" for m' d'
    by (rule option_ext)
      (auto simp: vsql_held_iff [OF good] vsql_held_iff [OF 7(1)] rows vkey_def)
  with good show ?case by blast
qed

end
