(* ===== verification/AsmDiscover.thy ===== *)
theory AsmDiscover
  imports VerifyGate
begin

section \<open>Asset discovery (\<open>asm/discover.go\<close>)\<close>

text \<open>
  Candidate names from Certificate Transparency, kept if they resolve. The HTTP client, the JSON
  decoder of the crt.sh answer (to its \<open>name_value\<close> fields) and the resolver are parameters, and so
  is the order in which the candidate map is visited. \<open>Discover\<close> returns its inventory with the
  trace of network accesses; it never fails.
\<close>

record assets =
  Hostnames :: "gostring list"
  Sources :: "gostring list"
  Wildcards :: "gostring list"

record discoverer =
  disc_httpGet :: "gostring \<Rightarrow> goerror + gostring"
  disc_rows :: "gostring \<Rightarrow> goerror + gostring list"
  disc_resolve :: "gostring \<Rightarrow> bool"
  ctBudget :: int

definition appendUnique :: "gostring list \<Rightarrow> gostring \<Rightarrow> gostring list" where
  "appendUnique s v = (if v \<in> set s then s else s @ [v])"

definition ct_url :: "gostring \<Rightarrow> gostring" where
  "ct_url root = ''https://crt.sh/?q=%25.'' @ root @ ''&output=json''"

text \<open>One line of a certificate's names, over the names and the wildcards seen so far.\<close>

definition ct_line ::
  "gostring \<Rightarrow> gostring \<Rightarrow> gostring list \<times> gostring list \<Rightarrow> gostring list \<times> gostring list" where
  "ct_line root raw acc =
     (let (names, wildcards) = acc;
          n = ToLower (TrimSpace raw);
          wild = HasPrefix n ''*.'';
          wildcards = (if wild \<and> HasSuffix (TrimSuffix n ''.'') root \<and> n \<notin> set wildcards
                       then wildcards @ [n] else wildcards);
          n = (if wild then TrimPrefix n ''*.'' else n)
      in if n = [] \<or> CHR '' '' \<in> set n \<or> \<not> HasSuffix n root then (names, wildcards)
         else if n \<in> set names then (names, wildcards)
         else (names @ [n], wildcards))"

definition ctNames ::
  "discoverer \<Rightarrow> gostring \<Rightarrow> goerror + gostring list \<times> gostring list" where
  "ctNames d root =
     (case disc_httpGet d (ct_url root) of
        Inl e \<Rightarrow> Inl e
      | Inr body \<Rightarrow>
          (case disc_rows d body of
             Inl e \<Rightarrow> Inl e
           | Inr rows \<Rightarrow>
               Inr (fold (ct_line root) (concat (map (\<lambda>r. SplitByte r (mkbyte 10)) rows)) ([], []))))"

fun resolve_live :: "(gostring \<Rightarrow> bool) \<Rightarrow> int \<Rightarrow> gostring list \<Rightarrow> gostring list" where
  "resolve_live resolve budget [] = []"
| "resolve_live resolve budget (name # rest) =
     (if budget \<le> 0 then []
      else (if resolve name then [name] else []) @ resolve_live resolve (budget - 1) rest)"

definition Discover ::
  "discoverer \<Rightarrow> (gostring list \<Rightarrow> gostring list) \<Rightarrow> gostring \<Rightarrow> assets \<times> net_event list" where
  "Discover d order root0 =
     (let root = ToLower (TrimSuffix root0 ''.'');
          (names, wildcards) = (case ctNames d root of Inl e \<Rightarrow> ([], []) | Inr nw \<Rightarrow> nw);
          sources = (if names \<noteq> [] then [''certificate-transparency''] else []);
          candidates = order (remdups (root # names));
          examined = take (nat (ctBudget d)) candidates;
          live = resolve_live (disc_resolve d) (ctBudget d) candidates;
          sources = (if live \<noteq> [] then appendUnique sources ''dns'' else sources)
      in (\<lparr>Hostnames = sort (remdups (live @ [root])), Sources = sources, Wildcards = sort wildcards\<rparr>,
          HTTPGet (ct_url root) # map Resolve examined))"

subsection \<open>The inventory\<close>

lemma resolve_live_eq:
  "resolve_live resolve budget names = filter resolve (take (nat budget) names)"
proof (induction resolve budget names rule: resolve_live.induct)
  case (2 resolve budget name rest)
  show ?case
  proof (cases "budget \<le> 0")
    case False
    then have "nat budget = Suc (nat (budget - 1))" by simp
    with 2 False show ?thesis by simp
  qed simp
qed simp

definition ct_name_ok :: "gostring \<Rightarrow> gostring \<Rightarrow> bool" where
  "ct_name_ok root n \<longleftrightarrow> n \<noteq> [] \<and> CHR '' '' \<notin> set n \<and> HasSuffix n root"

lemma ct_line_ok:
  assumes "ct_line root raw (names, wildcards) = (names', wildcards')"
    and "distinct names" "\<forall>n \<in> set names. ct_name_ok root n"
  shows "distinct names' \<and> (\<forall>n \<in> set names'. ct_name_ok root n) \<and> set names \<subseteq> set names'"
  using assms by (auto simp: ct_line_def ct_name_ok_def Let_def split: if_splits)

lemma ct_lines_ok:
  assumes "fold (ct_line root) raws (names, wildcards) = (names', wildcards')"
    and "distinct names" "\<forall>n \<in> set names. ct_name_ok root n"
  shows "distinct names' \<and> (\<forall>n \<in> set names'. ct_name_ok root n)"
  using assms
proof (induction raws arbitrary: names wildcards)
  case (Cons raw raws)
  obtain ns ws where step: "ct_line root raw (names, wildcards) = (ns, ws)" by (cases "ct_line root raw (names, wildcards)")
  from ct_line_ok [OF step Cons.prems(2,3)] Cons.IH [of ns ws] Cons.prems(1) show ?case
    by (simp add: step)
qed simp

lemma ctNames_ok:
  assumes "ctNames d root = Inr (names, wildcards)"
  shows "distinct names \<and> (\<forall>n \<in> set names. ct_name_ok root n)"
  using assms ct_lines_ok [of root _ "[]" "[]" names wildcards]
  by (auto simp: ctNames_def split: sum.splits)

text \<open>The names Certificate Transparency contributes to an inventory.\<close>

definition ct_candidates :: "discoverer \<Rightarrow> gostring \<Rightarrow> gostring list" where
  "ct_candidates d root = (case ctNames d root of Inl e \<Rightarrow> [] | Inr (names, wildcards) \<Rightarrow> names)"

lemma Discover_Hostnames:
  assumes "root = ToLower (TrimSuffix root0 ''.'')"
  shows "Hostnames (fst (Discover d order root0)) =
    sort (remdups (filter (disc_resolve d)
      (take (nat (ctBudget d)) (order (remdups (root # ct_candidates d root)))) @ [root]))"
  by (simp add: Discover_def Let_def resolve_live_eq ct_candidates_def assms split: sum.split prod.split)

text \<open>
  The inventory of a root domain: sorted, without repetition, always containing the root, and
  otherwise only names that a certificate carries, that end in the root and that resolve. The
  network sees one query to crt.sh and at most \<open>ctBudget\<close> resolutions.
\<close>

theorem Discover_inventory:
  assumes "\<And>ns. mset (order ns) = mset ns" "root = ToLower (TrimSuffix root0 ''.'')"
  shows "sorted (Hostnames (fst (Discover d order root0))) \<and> distinct (Hostnames (fst (Discover d order root0)))
    \<and> root \<in> set (Hostnames (fst (Discover d order root0)))
    \<and> (\<forall>h. h \<in> set (Hostnames (fst (Discover d order root0))) \<longrightarrow> h = root \<or>
         h \<in> set (ct_candidates d root) \<and> HasSuffix h root \<and> disc_resolve d h)
    \<and> length (snd (Discover d order root0)) \<le> 1 + nat (ctBudget d)"
proof -
  have perm: "set (order ns) = set ns" for ns
    using arg_cong [OF assms(1) [of ns], of set_mset] by simp
  have suffix: "HasSuffix h root" if h: "h \<in> set (ct_candidates d root)" for h
  proof -
    obtain names wildcards where "ctNames d root = Inr (names, wildcards)" "h \<in> set names"
      using h by (cases "ctNames d root") (auto simp: ct_candidates_def)
    with ctNames_ok show ?thesis by (auto simp: ct_name_ok_def)
  qed
  have "length (snd (Discover d order root0)) \<le> 1 + nat (ctBudget d)"
    by (simp add: Discover_def Let_def split: prod.split)
  then show ?thesis
    unfolding Discover_Hostnames [OF assms(2)]
    using suffix perm by (auto dest!: in_set_takeD)
qed

definition demo_discoverer :: discoverer where
  "demo_discoverer = \<lparr>disc_httpGet = (\<lambda>u. Inr ''body''), disc_rows = (\<lambda>b. Inr [''api.example.com'', ''b.example.com'']),
     disc_resolve = (\<lambda>h. h \<noteq> ''b.example.com''), ctBudget = 500\<rparr>"

lemma Discover_inventory_witness:
  "''example.com'' \<in> set (Hostnames (fst (Discover demo_discoverer rev ''Example.com.'')))"
proof -
  have "''example.com'' = ToLower (TrimSuffix ''Example.com.'' ''.'')" by code_simp
  from Discover_inventory [of rev, OF _ this] show ?thesis by simp
qed

text \<open>
  While the budget covers every candidate, the inventory does not depend on the order in which
  the candidate map is visited.
\<close>

theorem Discover_order_irrelevant:
  assumes "\<And>ns. mset (order ns) = mset ns" "\<And>ns. mset (order' ns) = mset ns"
    and "root = ToLower (TrimSuffix root0 ''.'')"
    and "int (length (ct_candidates d root)) < ctBudget d"
  shows "Hostnames (fst (Discover d order root0)) = Hostnames (fst (Discover d order' root0))"
proof -
  let ?c = "remdups (root # ct_candidates d root)"
  have "length ?c \<le> nat (ctBudget d)"
    using length_remdups_leq [of "root # ct_candidates d root"] assms(4)
    by (simp del: length_remdups_leq remdups.simps)
  moreover have "length (order ?c) = length ?c" "length (order' ?c) = length ?c"
    using assms(1,2) by (metis size_mset)+
  moreover have "set (order ?c) = set ?c" "set (order' ?c) = set ?c"
    using assms(1,2) by (metis set_mset_mset)+
  ultimately have "set (filter (disc_resolve d) (take (nat (ctBudget d)) (order ?c)) @ [root]) =
      set (filter (disc_resolve d) (take (nat (ctBudget d)) (order' ?c)) @ [root])"
    by (simp del: remdups.simps)
  then show ?thesis
    unfolding Discover_Hostnames [OF assms(3)]
    by (intro sorted_distinct_set_unique) (simp_all del: remdups.simps)
qed

lemma Discover_order_irrelevant_witness:
  "Hostnames (fst (Discover demo_discoverer rev ''Example.com.'')) =
   Hostnames (fst (Discover demo_discoverer id ''Example.com.''))"
proof -
  have "''example.com'' = ToLower (TrimSuffix ''Example.com.'' ''.'')" by code_simp
  moreover have "int (length (ct_candidates demo_discoverer ''example.com'')) < ctBudget demo_discoverer"
    by code_simp
  ultimately show ?thesis by (intro Discover_order_irrelevant) simp_all
qed

text \<open>
  The suffix test has no dot boundary: a certificate for an unrelated registered domain whose
  name merely ends in the root's text is taken into the inventory, and from there to the prober.
\<close>

theorem ctNames_admits_foreign_domain:
  "ct_line ''example.com'' ''notexample.com'' ([], []) = ([''notexample.com''], [])"
  by code_simp

end
