(* ===== verification/GoStd.thy ===== *)
theory GoStd
  imports GoStrings
begin

section \<open>Times, addresses and quoting (\<open>time\<close>, \<open>net\<close>, \<open>strconv\<close>)\<close>

text \<open>
  The rest of the standard library the program leans on: civil dates and the three layouts it
  prints times in, durations in whole days, the test for an IP literal, joining a host and a port,
  and quoting. Dates are rendered in UTC. In a quoted string every valid rune beyond ASCII is
  taken for printable.
\<close>

subsection \<open>Civil dates\<close>

definition day_ns :: int where "day_ns = 86400 * 1000000000"

text \<open>Year, month and day of a day number counted from the Unix epoch (proleptic Gregorian).\<close>

definition civil_of_days :: "int \<Rightarrow> int \<times> int \<times> int" where
  "civil_of_days d =
     (let z = d + 719468;
          era = z div 146097;
          doe = z - era * 146097;
          yoe = (doe - doe div 1460 + doe div 36524 - doe div 146096) div 365;
          doy = doe - (365 * yoe + yoe div 4 - yoe div 100);
          mp = (5 * doy + 2) div 153;
          day = doy - (153 * mp + 2) div 5 + 1;
          month = (if mp < 10 then mp + 3 else mp - 9);
          year = yoe + era * 400
      in (if month \<le> 2 then year + 1 else year, month, day))"

definition pad_left :: "nat \<Rightarrow> char \<Rightarrow> gostring \<Rightarrow> gostring" where
  "pad_left n c s = replicate (n - length s) c @ s"

definition month_abbrev :: "gostring list" where
  "month_abbrev = [''Jan'', ''Feb'', ''Mar'', ''Apr'', ''May'', ''Jun'', ''Jul'', ''Aug'', ''Sep'',
     ''Oct'', ''Nov'', ''Dec'']"

definition clock_text :: "instant \<Rightarrow> gostring" where
  "clock_text t =
     (let s = t mod day_ns div 1000000000;
          two = (\<lambda>n. pad_left 2 (CHR ''0'') (show_int n))
      in two (s div 3600) @ '':'' @ two (s div 60 mod 60) @ '':'' @ two (s mod 60))"

text \<open>\<open>time.RFC3339\<close> in UTC, \<open>time.Stamp\<close>, and the layout \<open>2 Jan 2006\<close>.\<close>

definition format_RFC3339 :: "instant \<Rightarrow> gostring" where
  "format_RFC3339 t =
     (let (y, m, d) = civil_of_days (t div day_ns);
          two = (\<lambda>n. pad_left 2 (CHR ''0'') (show_int n))
      in pad_left 4 (CHR ''0'') (show_int y) @ ''-'' @ two m @ ''-'' @ two d @ ''T'' @ clock_text t @ ''Z'')"

definition format_Stamp :: "instant \<Rightarrow> gostring" where
  "format_Stamp t =
     (let (y, m, d) = civil_of_days (t div day_ns)
      in month_abbrev ! nat (m - 1) @ '' '' @ pad_left 2 (CHR '' '') (show_int d) @ '' '' @ clock_text t)"

definition format_day :: "instant \<Rightarrow> gostring" where
  "format_day t =
     (let (y, m, d) = civil_of_days (t div day_ns)
      in show_int d @ '' '' @ month_abbrev ! nat (m - 1) @ '' '' @ show_int y)"

lemma civil_epoch: "civil_of_days 0 = (1970, 1, 1)" "civil_of_days 19782 = (2024, 2, 29)"
  by code_simp+

subsection \<open>Durations\<close>

text \<open>
  \<open>t.Sub(u)\<close> saturates at the bounds of a 64-bit duration. \<open>int(d.Hours() / 24)\<close> goes through
  floating point; the model truncates the exact quotient, which is what the code computes for
  spans of a few years, the ones whose value decides anything.
\<close>

definition max_duration :: duration where "max_duration = 2 ^ 63 - 1"

definition time_Sub :: "instant \<Rightarrow> instant \<Rightarrow> duration" where
  "time_Sub t u = max (- max_duration - 1) (min max_duration (t - u))"

definition whole_days :: "duration \<Rightarrow> int" where
  "whole_days d = (if d < 0 then - ((- d) div day_ns) else d div day_ns)"

subsection \<open>Addresses\<close>

definition is_digit :: "char \<Rightarrow> bool" where
  "is_digit c \<longleftrightarrow> 48 \<le> byte c \<and> byte c \<le> 57"

definition is_hex_digit :: "char \<Rightarrow> bool" where
  "is_hex_digit c \<longleftrightarrow> is_digit c \<or> 97 \<le> byte c \<and> byte c \<le> 102 \<or> 65 \<le> byte c \<and> byte c \<le> 70"

definition dec_octet :: "gostring \<Rightarrow> bool" where
  "dec_octet s \<longleftrightarrow> s \<noteq> [] \<and> list_all is_digit s \<and> (length s > 1 \<longrightarrow> hd s \<noteq> CHR ''0'') \<and> read_nat s \<le> 255"

definition is_ipv4 :: "gostring \<Rightarrow> bool" where
  "is_ipv4 s \<longleftrightarrow> (let fs = SplitByte s (CHR ''.'') in length fs = 4 \<and> list_all dec_octet fs)"

text \<open>
  The fields of an IPv6 literal from the one at byte offset \<open>i\<close> of the address on; \<open>e\<close> tells
  whether a double colon was seen.
\<close>

function ipv6_fields :: "nat \<Rightarrow> bool \<Rightarrow> gostring \<Rightarrow> bool" where
  "ipv6_fields i e s =
     (if i \<ge> 16 then s = [] \<and> \<not> e
      else
        (let ds = takeWhile is_hex_digit s;
             r = dropWhile is_hex_digit s
         in if ds = [] \<or> length ds > 4 then False
            else if r \<noteq> [] \<and> hd r = CHR ''.'' then
              (e \<or> i = 12) \<and> i + 4 \<le> 16 \<and> is_ipv4 s \<and> (if i + 4 < 16 then e else \<not> e)
            else if r = [] then (if i + 2 < 16 then e else \<not> e)
            else if hd r \<noteq> CHR '':'' \<or> tl r = [] then False
            else if hd (tl r) = CHR '':'' then
              (if e then False
               else if tl (tl r) = [] then i + 2 < 16
               else ipv6_fields (i + 2) True (tl (tl r)))
            else ipv6_fields (i + 2) e (tl r)))"
  by pat_completeness auto
termination
  by (relation "measure (\<lambda>(i, e, s). 16 - i)") auto

declare ipv6_fields.simps [simp del]

definition is_ipv6 :: "gostring \<Rightarrow> bool" where
  "is_ipv6 s \<longleftrightarrow>
     CHR ''%'' \<notin> set s \<and>
     (if take 2 s = ''::'' then drop 2 s = [] \<or> ipv6_fields 0 True (drop 2 s)
      else ipv6_fields 0 False s)"

text \<open>\<open>net.ParseIP(s) != nil\<close>: the first dot or colon decides the family.\<close>

definition ParseIP_ok :: "gostring \<Rightarrow> bool" where
  "ParseIP_ok s \<longleftrightarrow>
     (case find (\<lambda>c. c = CHR ''.'' \<or> c = CHR '':'' \<or> c = CHR ''%'') s of
        None \<Rightarrow> False
      | Some c \<Rightarrow> if c = CHR ''.'' then is_ipv4 s else if c = CHR '':'' then is_ipv6 s else False)"

definition JoinHostPort :: "gostring \<Rightarrow> gostring \<Rightarrow> gostring" where
  "JoinHostPort host port =
     (if CHR '':'' \<in> set host then ''['' @ host @ '']:'' @ port else host @ '':'' @ port)"

lemma ParseIP_examples:
  "ParseIP_ok ''192.0.2.1''" "\<not> ParseIP_ok ''example.com''" "\<not> ParseIP_ok ''1.2.3''"
  "ParseIP_ok ''::1''" "ParseIP_ok ''2001:db8::ff''"
  by code_simp+

subsection \<open>Quoting\<close>

definition hex2 :: "nat \<Rightarrow> gostring" where
  "hex2 n = [hex_digit (n div 16), hex_digit (n mod 16)]"

definition quote_rune :: "gostring \<Rightarrow> gostring" where
  "quote_rune r =
     (case r of
        [c] \<Rightarrow>
          (let b = byte c; bs = mkbyte 0x5C in
           if b = 0x22 \<or> b = 0x5C then [bs, c]
           else if b = 7 then [bs, CHR ''a'']
           else if b = 8 then [bs, CHR ''b'']
           else if b = 12 then [bs, CHR ''f'']
           else if b = 10 then [bs, CHR ''n'']
           else if b = 13 then [bs, CHR ''r'']
           else if b = 9 then [bs, CHR ''t'']
           else if b = 11 then [bs, CHR ''v'']
           else if b < 0x20 \<or> b \<ge> 0x7F then bs # CHR ''x'' # hex2 b
           else [c])
      | _ \<Rightarrow> r)"

function quote_body :: "gostring \<Rightarrow> gostring" where
  "quote_body [] = []"
| "quote_body (c # s) =
     (case rune_width (c # s) of
        None \<Rightarrow> quote_rune [c] @ quote_body s
      | Some n \<Rightarrow> quote_rune (take n (c # s)) @ quote_body (drop (n - 1) s))"
  by pat_completeness auto
termination
  by (relation "measure length") auto

text \<open>\<open>strconv.Quote\<close>, the verb \<open>%q\<close>.\<close>

definition go_quote :: "gostring \<Rightarrow> gostring" where
  "go_quote s = mkbyte 0x22 # quote_body s @ [mkbyte 0x22]"

end
