(* ===== verification/TlsProbe.thy ===== *)
theory TlsProbe
  imports CoreFinding GoStd
begin

section \<open>The TLS grading engine (\<open>internal/tlsprobe\<close>)\<close>

text \<open>
  A certificate is what the grading reads of it. Chain building, host name matching and the names
  of cipher suites belong to \<open>crypto/x509\<close> and \<open>crypto/tls\<close>; they are the parameters of a
  \<open>tls_lib\<close>. A dial is a parameter too: the connection state it ends in, or its error.
\<close>

definition SevCritical :: gostring where "SevCritical = ''critical''"
definition SevHigh :: gostring where "SevHigh = ''high''"
definition SevMedium :: gostring where "SevMedium = ''medium''"
definition SevLow :: gostring where "SevLow = ''low''"
definition SevInfo :: gostring where "SevInfo = ''info''"

lemma Sev_known:
  "SevCritical \<in> known_severities" "SevHigh \<in> known_severities" "SevMedium \<in> known_severities"
  "SevLow \<in> known_severities" "SevInfo \<in> known_severities"
  by (simp_all add: known_severities_def SevCritical_def SevHigh_def SevMedium_def SevLow_def
      SevInfo_def status_simps)

lemma Sev_distinct [simp]:
  "SevCritical \<noteq> SevHigh" "SevCritical \<noteq> SevMedium" "SevHigh \<noteq> SevMedium"
  "SevHigh \<noteq> SevCritical" "SevMedium \<noteq> SevCritical" "SevMedium \<noteq> SevHigh"
  by (simp_all add: SevCritical_def SevHigh_def SevMedium_def)

datatype public_key = RSAKey int | ECDSAKey | OtherKey

record certificate =
  Subject :: gostring
  Issuer :: gostring
  NotBefore :: instant
  NotAfter :: instant
  SerialNumber :: gostring
  DNSNames :: "gostring list"
  PublicKey :: public_key
  SignatureAlgorithm :: gostring

record tls_state =
  PeerCertificates :: "certificate list"
  TLSVersion :: int
  CipherSuite :: int

record tls_lib =
  VerifyHostname_ok :: "certificate \<Rightarrow> gostring \<Rightarrow> bool"
  Verify_ok :: "certificate \<Rightarrow> certificate list \<Rightarrow> instant \<Rightarrow> bool"
  InsecureCipherSuites :: "int list"
  CipherSuiteName :: "int \<Rightarrow> gostring"

record grade =
  g_Check :: gostring
  g_Severity :: gostring
  g_Title :: gostring
  g_Remediation :: gostring
  g_Discriminator :: gostring
  g_Evidence :: "(gostring \<times> jany) list"

text \<open>A map written over another one: the later entries win.\<close>

definition map_over :: "(gostring \<times> jany) list \<Rightarrow> (gostring \<times> jany) list \<Rightarrow> (gostring \<times> jany) list" where
  "map_over base extra = fold (\<lambda>(k, v). AList.update k v) extra base"

lemma map_of_map_over: "map_of (map_over base extra) = map_of base ++ map_of (rev extra)"
  by (induction extra arbitrary: base) (auto simp: map_over_def map_of_update)

definition tls_evidence :: "certificate \<Rightarrow> (gostring \<times> jany) list \<Rightarrow> (gostring \<times> jany) list" where
  "tls_evidence leaf extra =
     map_over [(''subject'', AStr (Subject leaf)), (''issuer'', AStr (Issuer leaf)),
       (''not_before'', AStr (format_RFC3339 (NotBefore leaf))),
       (''not_after'', AStr (format_RFC3339 (NotAfter leaf))),
       (''serial'', AStr (SerialNumber leaf))] extra"

definition VersionTLS10 :: int where "VersionTLS10 = 0x0301"
definition VersionTLS11 :: int where "VersionTLS11 = 0x0302"
definition VersionTLS12 :: int where "VersionTLS12 = 0x0303"
definition VersionTLS13 :: int where "VersionTLS13 = 0x0304"

definition hex4 :: "int \<Rightarrow> gostring" where
  "hex4 v = hex2 (nat (v div 256)) @ hex2 (nat (v mod 256))"

definition VersionName :: "int \<Rightarrow> gostring" where
  "VersionName v =
     (if v = VersionTLS10 then ''TLS 1.0''
      else if v = VersionTLS11 then ''TLS 1.1''
      else if v = VersionTLS12 then ''TLS 1.2''
      else if v = VersionTLS13 then ''TLS 1.3''
      else ''unknown (0x'' @ hex4 v @ '')'')"

subsection \<open>The grades\<close>

definition gradeExpiry :: "certificate \<Rightarrow> instant \<Rightarrow> grade list" where
  "gradeExpiry leaf now =
     (if now > NotAfter leaf then
        (let days = whole_days (time_Sub now (NotAfter leaf)) in
         [\<lparr>g_Check = ''tls.expired'', g_Severity = SevCritical,
           g_Title = ''Certificate EXPIRED '' @ show_int days @ '' day(s) ago'',
           g_Remediation = ''Replace this certificate immediately '' @ [mkbyte 0xE2, mkbyte 0x80, mkbyte 0x94] @
             '' clients are already failing. If you use ACME/Let's Encrypt, the renewal automation has broken; check its logs.'',
           g_Discriminator = [],
           g_Evidence = tls_evidence leaf [(''expired_days_ago'', ANum days)]\<rparr>])
      else
        (let daysLeft = whole_days (time_Sub (NotAfter leaf) now) in
         if daysLeft > 30 then []
         else
           (let sev = (if daysLeft \<le> 1 then SevCritical else if daysLeft \<le> 7 then SevHigh else SevMedium) in
            [\<lparr>g_Check = ''tls.expiry'', g_Severity = sev,
              g_Title = ''Certificate expires in '' @ show_int daysLeft @ '' day(s)'',
              g_Remediation = ''Renew the certificate before it expires. If renewal is automated (ACME), verify the timer/cron actually runs and can reach the CA.'',
              g_Discriminator = [],
              g_Evidence = tls_evidence leaf [(''days_left'', ANum daysLeft)]\<rparr>])))"

definition gradeHostname :: "tls_lib \<Rightarrow> certificate \<Rightarrow> gostring \<Rightarrow> grade list" where
  "gradeHostname lib leaf host =
     (if host = [] \<or> ParseIP_ok host then []
      else if \<not> VerifyHostname_ok lib leaf host then
        [\<lparr>g_Check = ''tls.hostname_mismatch'', g_Severity = SevHigh,
          g_Title = ''Certificate does not cover '' @ go_quote host,
          g_Remediation = ''Reissue the certificate with this hostname in its SAN list, or point the service at the certificate that actually covers it.'',
          g_Discriminator = [],
          g_Evidence = tls_evidence leaf [(''requested_host'', AStr host), (''sans'', AStrs (DNSNames leaf))]\<rparr>]
      else [])"

definition self_signed :: "certificate list \<Rightarrow> bool" where
  "self_signed certs \<longleftrightarrow> length certs = 1 \<and> Issuer (hd certs) = Subject (hd certs)"

definition gradeChain :: "tls_lib \<Rightarrow> tls_state \<Rightarrow> instant \<Rightarrow> grade list" where
  "gradeChain lib state now =
     (let certs = PeerCertificates state; leaf = hd certs; selfSigned = self_signed certs in
      if Verify_ok lib leaf (tl certs) now then []
      else if \<not> selfSigned \<and> length certs = 1 then
        [\<lparr>g_Check = ''tls.incomplete_chain'', g_Severity = SevMedium,
          g_Title = ''Server sends no intermediate certificates'',
          g_Remediation = ''Configure the server to send the full chain (leaf + intermediates). Most CAs ship a 'fullchain' bundle '' @
            [mkbyte 0xE2, mkbyte 0x80, mkbyte 0x94] @ '' deploy that file instead of the bare certificate.'',
          g_Discriminator = [],
          g_Evidence = tls_evidence leaf [(''presented_chain_length'', ANum 1)]\<rparr>]
      else
        [\<lparr>g_Check = ''tls.untrusted_chain'', g_Severity = SevHigh,
          g_Title = (if selfSigned then ''Certificate is self-signed'' else ''Certificate chain is not trusted''),
          g_Remediation = ''Install a certificate from a trusted CA (e.g. via ACME/Let's Encrypt), or distribute your private CA to every client that must trust this service.'',
          g_Discriminator = [],
          g_Evidence = tls_evidence leaf [(''self_signed'', ABool selfSigned),
            (''presented_chain_length'', ANum (int (length certs)))]\<rparr>])"

definition gradeProtocol :: "tls_state \<Rightarrow> grade list" where
  "gradeProtocol state =
     (if TLSVersion state \<ge> VersionTLS12 then []
      else
        (let v = VersionName (TLSVersion state) in
         [\<lparr>g_Check = ''tls.weak_protocol'', g_Severity = SevHigh,
           g_Title = ''Connection negotiated obsolete '' @ v,
           g_Remediation = ''Disable TLS 1.0/1.1 on this service and require TLS 1.2 or newer. Modern clients have not needed legacy TLS since 2020.'',
           g_Discriminator = v, g_Evidence = [(''negotiated'', AStr v)]\<rparr>]))"

definition probeLegacy :: "(goerror + tls_state) \<Rightarrow> grade list" where
  "probeLegacy dialled =
     (case dialled of
        Inl e \<Rightarrow> []
      | Inr state \<Rightarrow>
          (let v = VersionName (TLSVersion state) in
           [\<lparr>g_Check = ''tls.legacy_protocol'', g_Severity = SevMedium,
             g_Title = ''Server still accepts legacy '' @ v,
             g_Remediation = ''Raise the server's minimum TLS version to 1.2. The main connection may use TLS 1.3, but accepting 1.0/1.1 leaves a downgrade path open and fails compliance scans.'',
             g_Discriminator = v, g_Evidence = [(''accepted_version'', AStr v)]\<rparr>]))"

definition gradeCipher :: "tls_lib \<Rightarrow> tls_state \<Rightarrow> grade list" where
  "gradeCipher lib state =
     (if list_ex (\<lambda>i. i = CipherSuite state) (InsecureCipherSuites lib) then
        (let name = CipherSuiteName lib (CipherSuite state) in
         [\<lparr>g_Check = ''tls.weak_cipher'', g_Severity = SevHigh,
           g_Title = ''Weak cipher suite negotiated: '' @ name,
           g_Remediation = ''Remove this cipher suite from the server configuration and prefer AEAD suites (AES-GCM or ChaCha20-Poly1305).'',
           g_Discriminator = name, g_Evidence = [(''cipher'', AStr name)]\<rparr>])
      else [])"

definition gradeKeyStrength :: "certificate \<Rightarrow> grade list" where
  "gradeKeyStrength leaf =
     (case PublicKey leaf of
        RSAKey bits \<Rightarrow>
          if bits < 2048 then
            [\<lparr>g_Check = ''tls.weak_key'', g_Severity = SevHigh,
              g_Title = ''RSA key too small: '' @ show_int bits @ '' bits'',
              g_Remediation = ''Reissue the certificate with an RSA key of at least 2048 bits (or switch to an ECDSA P-256 key).'',
              g_Discriminator = ''rsa-'' @ show_int bits,
              g_Evidence = [(''algorithm'', AStr ''RSA''), (''bits'', ANum bits)]\<rparr>]
          else []
      | _ \<Rightarrow> [])"

text \<open>The names \<open>x509\<close> prints for the obsolete algorithms.\<close>

definition obsolete_algorithms :: "gostring list" where
  "obsolete_algorithms = [''SHA1-RSA'', ''ECDSA-SHA1'', ''MD5-RSA'', ''MD2-RSA'']"

definition gradeSignature :: "certificate \<Rightarrow> grade list" where
  "gradeSignature leaf =
     (if SignatureAlgorithm leaf \<in> set obsolete_algorithms then
        (let alg = SignatureAlgorithm leaf in
         [\<lparr>g_Check = ''tls.legacy_signature'', g_Severity = SevHigh,
           g_Title = ''Certificate signed with obsolete algorithm: '' @ alg,
           g_Remediation = ''Reissue the certificate '' @ [mkbyte 0xE2, mkbyte 0x80, mkbyte 0x94] @
             '' SHA-1/MD5 signatures are forgeable and rejected by modern clients. Any current CA will sign with SHA-256 or better.'',
           g_Discriminator = alg, g_Evidence = [(''signature_algorithm'', AStr alg)]\<rparr>])
      else [])"

text \<open>
  \<open>dial\<close> turns a finished handshake without certificates into an error; the connection behind it
  is a parameter. \<open>Probe\<close> runs the grades in their order, and the legacy probe on request.
\<close>

definition tls_dial :: "(goerror + tls_state) \<Rightarrow> goerror + tls_state" where
  "tls_dial conn =
     (case conn of
        Inl e \<Rightarrow> Inl e
      | Inr state \<Rightarrow>
          if PeerCertificates state = [] then Inl ''server presented no certificates'' else Inr state)"

definition tls_Probe ::
  "tls_lib \<Rightarrow> (goerror + tls_state) \<Rightarrow> (goerror + tls_state) \<Rightarrow> bool \<Rightarrow> gostring \<Rightarrow> instant \<Rightarrow>
   goerror + grade list" where
  "tls_Probe lib conn legacy_conn ProbeLegacy serverName now =
     (case tls_dial conn of
        Inl e \<Rightarrow> Inl e
      | Inr state \<Rightarrow>
          (let leaf = hd (PeerCertificates state) in
           Inr (gradeExpiry leaf now @ gradeHostname lib leaf serverName @ gradeChain lib state now @
                gradeProtocol state @ gradeCipher lib state @ gradeKeyStrength leaf @ gradeSignature leaf @
                (if ProbeLegacy then probeLegacy (tls_dial legacy_conn) else []))))"

subsection \<open>What the grades say\<close>

lemma whole_days_nonneg: "0 \<le> d \<Longrightarrow> whole_days d = d div day_ns"
  by (simp add: whole_days_def)

lemma day_ns_pos: "0 < day_ns"
  by (simp add: day_ns_def)

lemma whole_days_le_iff:
  assumes "0 \<le> d" "0 \<le> k"
  shows "whole_days d \<le> k \<longleftrightarrow> d < (k + 1) * day_ns"
proof -
  have d: "d = (d div day_ns) * day_ns + d mod day_ns" "0 \<le> d mod day_ns" "d mod day_ns < day_ns"
    using day_ns_pos by simp_all
  have "d div day_ns \<le> k \<longleftrightarrow> d < (k + 1) * day_ns"
  proof
    assume "d div day_ns \<le> k"
    then have "(d div day_ns) * day_ns \<le> k * day_ns" using day_ns_pos by (intro mult_right_mono) auto
    with d show "d < (k + 1) * day_ns" unfolding distrib_right mult_1 by linarith
  next
    assume less: "d < (k + 1) * day_ns"
    show "d div day_ns \<le> k"
    proof (rule ccontr)
      assume "\<not> d div day_ns \<le> k"
      then have "(k + 1) * day_ns \<le> (d div day_ns) * day_ns" using day_ns_pos by (intro mult_right_mono) auto
      with d less show False by linarith
    qed
  qed
  then show ?thesis using assms by (simp add: whole_days_nonneg)
qed

lemma days_left_le_iff:
  assumes "now \<le> t" "0 \<le> k" "k \<le> 30"
  shows "whole_days (time_Sub t now) \<le> k \<longleftrightarrow> t - now < (k + 1) * day_ns"
proof -
  have k: "(k + 1) * day_ns \<le> max_duration"
  proof -
    have "(k + 1) * day_ns \<le> 31 * day_ns" using assms day_ns_pos by (intro mult_right_mono) auto
    also have "31 * day_ns \<le> max_duration" by (simp add: day_ns_def max_duration_def)
    finally show ?thesis .
  qed
  have nn: "0 \<le> time_Sub t now" using assms by (simp add: time_Sub_def max_duration_def)
  have "time_Sub t now = min max_duration (t - now)" using assms by (simp add: time_Sub_def max_duration_def)
  then have "time_Sub t now < (k + 1) * day_ns \<longleftrightarrow> t - now < (k + 1) * day_ns" using k by auto
  with whole_days_le_iff [OF nn assms(2)] show ?thesis by simp
qed

text \<open>
  The expiry grade, by the time left: an expired certificate is critical; one with less than
  two days left is critical, less than eight high, less than thirty-one medium; with thirty-one
  days or more there is no grade. Never more than one grade is given.
\<close>

theorem gradeExpiry_thresholds:
  "map (\<lambda>g. (g_Check g, g_Severity g)) (gradeExpiry leaf now) =
     (let left = NotAfter leaf - now in
      if left < 0 then [(''tls.expired'', SevCritical)]
      else if left < 2 * day_ns then [(''tls.expiry'', SevCritical)]
      else if left < 8 * day_ns then [(''tls.expiry'', SevHigh)]
      else if left < 31 * day_ns then [(''tls.expiry'', SevMedium)]
      else [])"
proof (cases "now > NotAfter leaf")
  case False
  then have le: "now \<le> NotAfter leaf" by simp
  note D = days_left_le_iff [OF le, of 1, simplified] days_left_le_iff [OF le, of 7, simplified]
    days_left_le_iff [OF le, of 30, simplified]
  have "whole_days (time_Sub (NotAfter leaf) now) > 30 \<longleftrightarrow> \<not> NotAfter leaf - now < 31 * day_ns"
    using D(3) by linarith
  then show ?thesis using le D(1,2) by (simp add: gradeExpiry_def Let_def)
qed (simp add: gradeExpiry_def Let_def)



definition grade_ok :: "grade \<Rightarrow> bool" where
  "grade_ok g \<longleftrightarrow> g_Check g \<noteq> [] \<and> g_Title g \<noteq> [] \<and> g_Remediation g \<noteq> [] \<and> g_Severity g \<in> known_severities"

lemma grades_ok:
  "list_all grade_ok (gradeExpiry leaf now)" "list_all grade_ok (gradeHostname lib leaf host)"
  "list_all grade_ok (gradeChain lib state now)" "list_all grade_ok (gradeProtocol state)"
  "list_all grade_ok (gradeCipher lib state)" "list_all grade_ok (gradeKeyStrength leaf)"
  "list_all grade_ok (gradeSignature leaf)" "list_all grade_ok (probeLegacy dialled)"
  by (simp_all add: gradeExpiry_def gradeHostname_def gradeChain_def gradeProtocol_def gradeCipher_def
      gradeKeyStrength_def gradeSignature_def probeLegacy_def grade_ok_def Sev_known Let_def
      split: public_key.split sum.split)

definition checks_within :: "gostring set \<Rightarrow> grade list \<Rightarrow> bool" where
  "checks_within A gs \<longleftrightarrow> distinct (map g_Check gs) \<and> set (map g_Check gs) \<subseteq> A"

lemma checks_within_append:
  "checks_within A gs \<Longrightarrow> checks_within B hs \<Longrightarrow> A \<inter> B = {} \<Longrightarrow> checks_within (A \<union> B) (gs @ hs)"
  unfolding checks_within_def map_append set_append distinct_append by blast

lemma grade_checks:
  "checks_within {''tls.expired'', ''tls.expiry''} (gradeExpiry leaf now)"
  "checks_within {''tls.hostname_mismatch''} (gradeHostname lib leaf host)"
  "checks_within {''tls.incomplete_chain'', ''tls.untrusted_chain''} (gradeChain lib state now)"
  "checks_within {''tls.weak_protocol''} (gradeProtocol state)"
  "checks_within {''tls.weak_cipher''} (gradeCipher lib state)"
  "checks_within {''tls.weak_key''} (gradeKeyStrength leaf)"
  "checks_within {''tls.legacy_signature''} (gradeSignature leaf)"
  "checks_within {''tls.legacy_protocol''} (probeLegacy dialled)"
  "checks_within {''tls.legacy_protocol''} []"
  by (simp_all add: gradeExpiry_def gradeHostname_def gradeChain_def gradeProtocol_def gradeCipher_def
      gradeKeyStrength_def gradeSignature_def probeLegacy_def Let_def checks_within_def
      split: public_key.split sum.split)

text \<open>
  Whatever the server presents, every grade of a probe names its check, has a title, a
  remediation and a valid severity, and no two grades of one probe share a check.
\<close>

theorem tls_Probe_grades_sound:
  assumes "tls_Probe lib conn legacy ProbeLegacy host now = Inr grades"
  shows "list_all grade_ok grades \<and> distinct (map g_Check grades)"
proof -
  from assms obtain state where st: "tls_dial conn = Inr state"
    by (auto simp: tls_Probe_def split: sum.splits)
  let ?leaf = "hd (PeerCertificates state)"
  define lg where "lg = (if ProbeLegacy then probeLegacy (tls_dial legacy) else [])"
  have grades: "grades = gradeExpiry ?leaf now @ gradeHostname lib ?leaf host @ gradeChain lib state now @
      gradeProtocol state @ gradeCipher lib state @ gradeKeyStrength ?leaf @ gradeSignature ?leaf @ lg"
    using assms st by (simp add: tls_Probe_def Let_def lg_def)
  have "checks_within {''tls.legacy_protocol''} lg" "list_all grade_ok lg"
    by (simp_all add: lg_def grade_checks grades_ok)
  then show ?thesis
  proof -
    assume lg: "checks_within {''tls.legacy_protocol''} lg" "list_all grade_ok lg"
    have "checks_within ({''tls.expired'', ''tls.expiry''} \<union> ({''tls.hostname_mismatch''} \<union>
        ({''tls.incomplete_chain'', ''tls.untrusted_chain''} \<union> ({''tls.weak_protocol''} \<union> ({''tls.weak_cipher''} \<union>
        ({''tls.weak_key''} \<union> ({''tls.legacy_signature''} \<union> {''tls.legacy_protocol''}))))))) grades"
      unfolding grades by (intro checks_within_append grade_checks lg(1)) simp_all
    then show ?thesis using lg(2) by (auto simp: grades grades_ok checks_within_def)
  qed
qed

definition demo_lib :: tls_lib where
  "demo_lib = \<lparr>VerifyHostname_ok = (\<lambda>c h. h \<in> set (DNSNames c)), Verify_ok = (\<lambda>c ics t. False),
     InsecureCipherSuites = [5], CipherSuiteName = (\<lambda>i. ''CS'')\<rparr>"

definition demo_cert :: certificate where
  "demo_cert = \<lparr>Subject = ''CN=a'', Issuer = ''CN=a'', NotBefore = 0, NotAfter = 10, SerialNumber = ''1'',
     DNSNames = [''example.com''], PublicKey = RSAKey 1024, SignatureAlgorithm = ''SHA1-RSA''\<rparr>"

lemma tls_Probe_grades_sound_witness:
  "\<exists>grades. tls_Probe demo_lib (Inr \<lparr>PeerCertificates = [demo_cert], TLSVersion = 0x0302, CipherSuite = 5\<rparr>)
      (Inl ''refused'') True ''example.com'' 20 = Inr grades \<and> distinct (map g_Check grades)"
proof -
  obtain grades where run: "tls_Probe demo_lib (Inr \<lparr>PeerCertificates = [demo_cert], TLSVersion = 0x0302, CipherSuite = 5\<rparr>)
      (Inl ''refused'') True ''example.com'' 20 = Inr grades"
    by (simp add: tls_Probe_def tls_dial_def Let_def)
  with tls_Probe_grades_sound [OF run] show ?thesis by blast
qed

end
