(* ===== verification/AsmCollector.thy ===== *)
theory AsmCollector
  imports ChallengeStore AsmDiscover TlsProbe
begin

section \<open>The attack surface collector (\<open>asm/probe.go\<close>, \<open>asm/collector.go\<close>)\<close>

text \<open>
  The port catalogue and the prober, the collector's three operations, and the authorisation gate.
  A collector is its dependencies: the verifier, the discoverer, the prober and the TLS probe, each
  a function that returns its result with the trace of its network accesses, the challenge store
  given by \<open>Get\<close> and \<open>Put\<close>, and the SHA-256 digest of the fingerprints. \<open>Collect\<close> returns the
  findings or the scan error, the store, and the whole trace, in order.
\<close>

definition moduleID :: gostring where "moduleID = ''asm''"

subsection \<open>Ports\<close>

record exposure =
  e_Host :: gostring
  e_Port :: int
  e_Service :: gostring
  e_Severity :: gostring
  e_Title :: gostring
  e_Remediation :: gostring
  e_Evidence :: "(gostring \<times> jany) list"

record port_class =
  service :: gostring
  class_severity :: gostring
  sensitive :: bool
  class_remediation :: gostring

abbreviation em_dash :: gostring where
  "em_dash \<equiv> [mkbyte 0xE2, mkbyte 0x80, mkbyte 0x94]"

abbreviation pclass :: "gostring \<Rightarrow> gostring \<Rightarrow> bool \<Rightarrow> gostring \<Rightarrow> port_class" where
  "pclass n s b r \<equiv> \<lparr>service = n, class_severity = s, sensitive = b, class_remediation = r\<rparr>"

definition portCatalog :: "(int \<times> port_class) list" where
  "portCatalog =
     [(5432, pclass ''PostgreSQL'' SevCritical True ''Bind PostgreSQL to localhost or a private network and put it behind a firewall. A database reachable from the internet is a direct breach path.''),
      (3306, pclass ''MySQL/MariaDB'' SevCritical True ''Restrict MySQL to trusted networks only; it should not accept connections from the public internet.''),
      (27017, pclass ''MongoDB'' SevCritical True ''Bind MongoDB to localhost/VPC and enable authentication. Exposed MongoDB is a classic ransomware target.''),
      (6379, pclass ''Redis'' SevCritical True (''Never expose Redis to the internet '' @ em_dash @ '' it usually has no auth. Bind to localhost and firewall the port.'')),
      (9200, pclass ''Elasticsearch'' SevCritical True ''Put Elasticsearch behind authentication and a private network. Open clusters leak entire datasets.''),
      (5984, pclass ''CouchDB'' SevCritical True ''Restrict CouchDB to a private network and require authentication.''),
      (3389, pclass ''RDP'' SevHigh True ''Do not expose RDP to the internet. Put it behind a VPN or a bastion, and enable NLA + MFA.''),
      (5900, pclass ''VNC'' SevHigh True ''VNC exposed to the internet is high risk. Tunnel it over SSH/VPN and require strong authentication.''),
      (23, pclass ''Telnet'' SevHigh True ''Telnet is clear-text and must never be internet-facing. Disable it and use SSH instead.''),
      (22, pclass ''SSH'' SevLow False ''SSH exposure is common but keep it patched, key-only, and consider restricting source IPs.''),
      (80, pclass ''HTTP'' SevLow False []),
      (443, pclass ''HTTPS'' SevLow False []),
      (8080, pclass ''HTTP-alt'' SevLow False []),
      (8443, pclass ''HTTPS-alt'' SevLow False []),
      (25, pclass ''SMTP'' SevLow False [])]"

definition classify :: "gostring \<Rightarrow> int \<Rightarrow> port_class \<Rightarrow> exposure" where
  "classify host port class =
     \<lparr>e_Host = host, e_Port = port, e_Service = service class, e_Severity = class_severity class,
      e_Title = (if \<not> sensitive class
                 then ''Open port '' @ show_int port @ '' ('' @ service class @ '') on '' @ host
                 else service class @ '' exposed on '' @ host @ '':'' @ show_int port),
      e_Remediation = (if class_remediation class = []
                       then ''Confirm this service is meant to be internet-facing; if not, restrict it to a private network or firewall the port.''
                       else class_remediation class),
      e_Evidence = [(''host'', AStr host), (''port'', ANum port), (''service'', AStr (service class))]\<rparr>"

definition classifyPort :: "gostring \<Rightarrow> int \<Rightarrow> exposure option" where
  "classifyPort host port = map_option (classify host port) (map_of portCatalog port)"

text \<open>
  One pass of the dialling prober over the catalogue, in the order the map is visited. \<open>cancel i\<close>
  is the context's error when it is done before the \<open>i\<close>-th port; \<open>dial\<close> says whether an address
  accepts the connection.
\<close>

fun probe_ports :: "(nat \<Rightarrow> goerror option) \<Rightarrow> (gostring \<Rightarrow> bool) \<Rightarrow> gostring \<Rightarrow> nat \<Rightarrow>
  (int \<times> port_class) list \<Rightarrow> exposure list \<times> goerror option \<times> net_event list" where
  "probe_ports cancel dial host i [] = ([], None, [])"
| "probe_ports cancel dial host i ((port, class) # rest) =
     (case cancel i of
        Some e \<Rightarrow> ([], Some e, [])
      | None \<Rightarrow>
          (let (out, err, tr) = probe_ports cancel dial host (Suc i) rest in
           (if dial (JoinHostPort host (show_int port)) then classify host port class # out else out,
            err, Dial host port # tr)))"

definition dialProbe :: "(nat \<Rightarrow> goerror option) \<Rightarrow> (gostring \<Rightarrow> bool) \<Rightarrow> (int \<times> port_class) list \<Rightarrow> gostring \<Rightarrow>
  exposure list \<times> goerror option \<times> net_event list" where
  "dialProbe cancel dial order host = probe_ports cancel dial host 0 order"

subsection \<open>Findings\<close>

definition asm_finding ::
  "(gostring \<Rightarrow> gostring) \<Rightarrow> gostring \<Rightarrow> gostring \<Rightarrow> gostring \<Rightarrow> gostring \<Rightarrow> gostring \<Rightarrow> gostring \<Rightarrow>
   (gostring \<times> jany) list \<Rightarrow> finding" where
  "asm_finding sha256 domain chk discriminator sev ttl rem ev =
     \<lparr>fingerprint = Fingerprint sha256 moduleID domain chk discriminator, target = domain,
      check = chk, title = ttl, severity = sev, remediation = rem, evidence = Some ev,
      finding_id = [], finding_module = [], status = [], groupID = None, firstSeen = time_zero,
      lastSeen = time_zero, resolvedAt = None\<rparr>"

definition mergeEvidence :: "(gostring \<times> jany) list \<Rightarrow> (gostring \<times> jany) list \<Rightarrow> (gostring \<times> jany) list" where
  "mergeEvidence base extra = map_over (map_over [] base) extra"

record asm =
  Verifier :: verifier
  Discoverer :: "gostring \<Rightarrow> (goerror + assets) \<times> net_event list"
  Prober :: "gostring \<Rightarrow> exposure list \<times> goerror option \<times> net_event list"
  TLSGrades :: "gostring \<Rightarrow> gostring \<Rightarrow> goerror + grade list"
  Sha256 :: "gostring \<Rightarrow> gostring"

definition asm_Describe :: module_info where
  "asm_Describe = \<lparr>module_ID = moduleID, module_Name = ''Attack Surface Monitor'',
     module_Version = ''0.1.4'', TargetKind = ''domain'', DefaultInterval = 24 * hour, ResolveAfter = 2\<rparr>"

definition tlsFindings :: "asm \<Rightarrow> gostring \<Rightarrow> gostring \<Rightarrow> int \<Rightarrow> finding list \<times> net_event list" where
  "tlsFindings a domain host port =
     (let addr = JoinHostPort host (show_int port) in
      (case TLSGrades a addr host of
         Inl e \<Rightarrow> []
       | Inr grades \<Rightarrow>
           map (\<lambda>g. asm_finding (Sha256 a) domain (g_Check g) (host @ ''|'' @ g_Discriminator g)
                      (g_Severity g) (host @ '': '' @ g_Title g) (g_Remediation g)
                      (mergeEvidence (g_Evidence g) [(''host'', AStr host), (''port'', ANum port)])) grades,
       [TLSProbe addr host]))"

definition exposure_findings :: "asm \<Rightarrow> gostring \<Rightarrow> exposure \<Rightarrow> finding list \<times> net_event list" where
  "exposure_findings a domain e =
     (let f = asm_finding (Sha256 a) domain ''asm.exposure''
                (e_Host e @ '':'' @ show_int (e_Port e) @ ''/'' @ e_Service e)
                (e_Severity e) (e_Title e) (e_Remediation e) (e_Evidence e);
          (tls, tr) = (if e_Port e = 443 \<or> e_Port e = 8443 then tlsFindings a domain (e_Host e) (e_Port e)
                       else ([], []))
      in (f # tls, tr))"

definition wildcard_finding :: "asm \<Rightarrow> gostring \<Rightarrow> gostring \<Rightarrow> finding" where
  "wildcard_finding a domain w =
     asm_finding (Sha256 a) domain ''asm.coverage-wildcard'' w SevInfo
       (''Coverage limit: '' @ w @ '' covers this domain, so its subdomains are not listed in Certificate Transparency'')
       ''Certificate Transparency records the wildcard, not the hostnames it protects, so a subdomain served by this certificate cannot be discovered from CT and may be missing from the inventory. Check the assets listed here against the hosts you know you run under this domain; a host that should be discoverable can be given its own certificate.''
       [(''wildcard'', AStr w), (''root'', AStr domain), (''limit'', AStr ''certificate-transparency'')]"

definition host_findings :: "asm \<Rightarrow> gostring \<Rightarrow> gostring list \<Rightarrow> gostring \<Rightarrow> finding list \<times> net_event list" where
  "host_findings a domain sources host =
     (let f = asm_finding (Sha256 a) domain ''asm.asset'' host SevInfo (''Asset in scope: '' @ host)
                ''Confirm this host should be internet-facing and is accounted for.''
                [(''host'', AStr host), (''sources'', AStrs sources)];
          (exposures, perr, tr) = Prober a host
      in if perr \<noteq> None then ([f], tr)
         else (f # concat (map (fst \<circ> exposure_findings a domain) exposures),
               tr @ concat (map (snd \<circ> exposure_findings a domain) exposures)))"

definition scan_assets :: "asm \<Rightarrow> gostring \<Rightarrow> assets \<Rightarrow> finding list \<times> net_event list" where
  "scan_assets a domain as =
     (map (wildcard_finding a domain) (Wildcards as) @
        concat (map (fst \<circ> host_findings a domain (Sources as)) (Hostnames as)),
      concat (map (snd \<circ> host_findings a domain (Sources as)) (Hostnames as)))"

subsection \<open>Targets and scans\<close>

text \<open>The collector's own copy of the normalisation.\<close>

definition asm_normalizeDomain :: "gostring \<Rightarrow> gostring" where
  "asm_normalizeDomain in' =
     (let s = TrimSpace (ToLower in');
          s = (case Index s ''://'' of Some i \<Rightarrow> drop (i + 3) s | None \<Rightarrow> s);
          s = (case IndexAny s ''/?#'' of Some i \<Rightarrow> take i s | None \<Rightarrow> s);
          s = (case LastIndexByte s (CHR '':'') of
                 Some i \<Rightarrow> if \<not> Contains s '']'' then take i s else s
               | None \<Rightarrow> s)
      in TrimSuffix s ''.'')"

lemma asm_normalizeDomain_eq: "asm_normalizeDomain = normalizeDomain"
  by (simp add: asm_normalizeDomain_def normalizeDomain_def fun_eq_iff)

definition ValidateTarget ::
  "(gostring \<Rightarrow> gostring \<Rightarrow> 's \<Rightarrow> (goerror + challenge option) \<times> 's) \<Rightarrow>
   (gostring \<Rightarrow> challenge \<Rightarrow> 's \<Rightarrow> goerror option \<times> 's) \<Rightarrow>
   (goerror + gostring) \<Rightarrow> instant \<Rightarrow> gostring \<Rightarrow> 's \<Rightarrow> (goerror + scan_target) \<times> 's" where
  "ValidateTarget get put entropy now raw s =
     (let d = asm_normalizeDomain raw in
      if d = [] then (Inl ''enter a domain like example.com'', s)
      else if ParseIP_ok d then (Inl ''enter a domain name, not an IP address'', s)
      else if \<not> Contains d ''.'' then (Inl ''enter a full domain, e.g. example.com'', s)
      else
        (let ok_target = \<lparr>Raw = raw, Canonical = d, Meta = [(''domain'', d)]\<rparr>;
             (found, s) = get moduleID d s
         in case found of
              Inr (Some c) \<Rightarrow> (Inr ok_target, s)
            | _ \<Rightarrow>
                (case NewChallenge entropy d now of
                   Inl e \<Rightarrow> (Inl e, s)
                 | Inr ch \<Rightarrow>
                     (case put moduleID ch s of
                        (Some e, s) \<Rightarrow> (Inl e, s)
                      | (None, s) \<Rightarrow> (Inr ok_target, s)))))"

definition Collect ::
  "(gostring \<Rightarrow> gostring \<Rightarrow> 's \<Rightarrow> (goerror + challenge option) \<times> 's) \<Rightarrow>
   (gostring \<Rightarrow> challenge \<Rightarrow> 's \<Rightarrow> goerror option \<times> 's) \<Rightarrow>
   asm \<Rightarrow> instant \<Rightarrow> scan_target \<Rightarrow> 's \<Rightarrow> (goerror + finding list) \<times> 's \<times> net_event list" where
  "Collect get put a now t s =
     (let domain = Canonical t in
      case get moduleID domain s of
        (Inl e, s) \<Rightarrow> (Inl e, s, [])
      | (Inr None, s) \<Rightarrow> (Inr [], s, [])
      | (Inr (Some ch), s) \<Rightarrow>
          (let (go, s, tr0) =
             (if State ch \<noteq> StateVerified then
                (let (satisfied, m, tr) = Satisfied (Verifier a) ch in
                 if \<not> satisfied then (False, s, tr)
                 else (True, snd (put moduleID (ch\<lparr>State := StateVerified, VerifiedAt := Some now\<rparr>) s), tr))
              else (True, s, []))
           in if \<not> go then (Inr [], s, tr0)
              else
                (case Discoverer a domain of
                   (Inl e, tr1) \<Rightarrow> (Inl e, s, tr0 @ tr1)
                 | (Inr as, tr1) \<Rightarrow>
                     (let (out, tr2) = scan_assets a domain as in (Inr out, s, tr0 @ tr1 @ tr2)))))"

text \<open>
  \<open>New\<close>: the production wiring over a network. The last parameters are the network's answers: which
  addresses accept a connection, when the context of a probe is done, and the TLS connections.
\<close>

definition asm_New ::
  "verifier \<Rightarrow> discoverer \<Rightarrow> (gostring list \<Rightarrow> gostring list) \<Rightarrow> (int \<times> port_class) list \<Rightarrow>
   (nat \<Rightarrow> goerror option) \<Rightarrow> (gostring \<Rightarrow> bool) \<Rightarrow> tls_lib \<Rightarrow> (gostring \<Rightarrow> goerror + tls_state) \<Rightarrow>
   instant \<Rightarrow> (gostring \<Rightarrow> gostring) \<Rightarrow> asm" where
  "asm_New v d name_order port_order cancel dial lib conn now sha256 =
     \<lparr>Verifier = v,
      Discoverer = (\<lambda>domain. (\<lambda>(as, tr). (Inr as, tr)) (Discover d name_order domain)),
      Prober = dialProbe cancel dial port_order,
      TLSGrades = (\<lambda>addr host. tls_Probe lib (conn addr) (Inl []) False host now),
      Sha256 = sha256\<rparr>"

subsection \<open>The prober\<close>

lemma probe_ports_complete:
  assumes "\<And>i. cancel i = None"
  shows "probe_ports cancel dial host i order =
    (map (\<lambda>(port, class). classify host port class)
       (filter (\<lambda>(port, class). dial (JoinHostPort host (show_int port))) order),
     None, map (\<lambda>(port, class). Dial host port) order)"
  by (induction order arbitrary: i) (auto simp: assms)

lemma probe_ports_within:
  "set (fst (probe_ports cancel dial host i order)) \<subseteq> (\<lambda>(port, class). classify host port class) ` set order
   \<and> set (snd (snd (probe_ports cancel dial host i order))) \<subseteq> (\<lambda>(port, class). Dial host port) ` set order"
proof (induction order arbitrary: i)
  case (Cons pc order)
  obtain port cl where pc: "pc = (port, cl)" by (cases pc)
  obtain out err tr where rec: "probe_ports cancel dial host (Suc i) order = (out, err, tr)"
    by (cases "probe_ports cancel dial host (Suc i) order") auto
  show ?case
    using Cons [of "Suc i"] by (cases "cancel i") (auto simp: pc rec Let_def)
qed simp

definition exposure_ok :: "exposure \<Rightarrow> bool" where
  "exposure_ok e \<longleftrightarrow> e_Title e \<noteq> [] \<and> e_Remediation e \<noteq> [] \<and> e_Severity e \<in> known_severities"

lemma classify_ok: "class_severity c \<in> known_severities \<Longrightarrow> exposure_ok (classify host port c)"
  by (simp add: classify_def exposure_ok_def)

lemma portCatalog_severities: "(port, c) \<in> set portCatalog \<Longrightarrow> class_severity c \<in> known_severities"
  using Sev_known by (auto simp: portCatalog_def)

text \<open>
  A probe that is not cancelled dials every port of the catalogue exactly once and reports
  exactly the ones that accept, each classified by its catalogue entry; it touches no other host.
  A cancelled probe reports the context's error.
\<close>

theorem dialProbe_complete:
  "(\<forall>i. cancel i = None) \<longrightarrow>
     dialProbe cancel dial order host =
       (map (\<lambda>(port, class). classify host port class)
          (filter (\<lambda>(port, class). dial (JoinHostPort host (show_int port))) order),
        None, map (\<lambda>(port, class). Dial host port) order)"
  unfolding dialProbe_def using probe_ports_complete by blast

lemma dialProbe_complete_witness:
  "map e_Severity (fst (dialProbe (\<lambda>i. None) (\<lambda>addr. addr = ''h:23'')
     [(23, pclass ''Telnet'' SevHigh True ''x''), (25, pclass ''SMTP'' SevLow False [])] ''h'')) = [''high'']"
proof -
  have addr: "JoinHostPort ''h'' (show_int 23) = ''h:23''" "JoinHostPort ''h'' (show_int 25) \<noteq> ''h:23''"
    by code_simp+
  show ?thesis
    using dialProbe_complete [of "\<lambda>i. None" "\<lambda>addr. addr = ''h:23''"
        "[(23, pclass ''Telnet'' SevHigh True ''x''), (25, pclass ''SMTP'' SevLow False [])]" "''h''"]
    by (simp add: addr classify_def SevHigh_def)
qed

subsection \<open>The findings of a scan\<close>

lemma asm_finding_fields [simp]:
  "target (asm_finding sha256 domain c d sev ttl rem ev) = domain"
  "check (asm_finding sha256 domain c d sev ttl rem ev) = c"
  "title (asm_finding sha256 domain c d sev ttl rem ev) = ttl"
  "severity (asm_finding sha256 domain c d sev ttl rem ev) = sev"
  "remediation (asm_finding sha256 domain c d sev ttl rem ev) = rem"
  "fingerprint (asm_finding sha256 domain c d sev ttl rem ev) = Fingerprint sha256 moduleID domain c d"
  by (simp_all add: asm_finding_def)

lemma asm_finding_well_formed:
  assumes "\<And>x. length (sha256 x) = 32" "domain \<noteq> []" "c \<noteq> []" "ttl \<noteq> []" "rem \<noteq> []" "sev \<in> known_severities"
  shows "well_formed (asm_finding sha256 domain c d sev ttl rem ev)"
proof -
  have "length (Fingerprint sha256 moduleID domain c d) = 32" by (rule length_Fingerprint) (rule assms(1))
  then have "Fingerprint sha256 moduleID domain c d \<noteq> []" by auto
  with assms show ?thesis by (simp add: well_formed_def)
qed

text \<open>What the collector asks of its prober and of the TLS engine; the production ones give it.\<close>

definition asm_sound :: "asm \<Rightarrow> bool" where
  "asm_sound a \<longleftrightarrow> (\<forall>x. length (Sha256 a x) = 32)
     \<and> (\<forall>host. \<forall>e \<in> set (fst (Prober a host)). exposure_ok e)
     \<and> (\<forall>addr host gs. TLSGrades a addr host = Inr gs \<longrightarrow> list_all grade_ok gs)"

lemma tls_Probe_ok: "tls_Probe lib conn legacy b host now = Inr gs \<Longrightarrow> list_all grade_ok gs"
  by (auto simp: tls_Probe_def Let_def grades_ok split: sum.splits)

lemma asm_New_sound:
  assumes "set port_order \<subseteq> set portCatalog" "\<And>x. length (sha256 x) = 32"
  shows "asm_sound (asm_New v d name_order port_order cancel dial lib conn now sha256)"
proof -
  have "exposure_ok e" if "e \<in> set (fst (dialProbe cancel dial port_order host))" for e host
  proof -
    from that probe_ports_within [of cancel dial host 0 port_order]
    obtain port c where "(port, c) \<in> set port_order" "e = classify host port c"
      unfolding dialProbe_def by fastforce
    with assms(1) show ?thesis using classify_ok portCatalog_severities by blast
  qed
  then show ?thesis using assms(2) tls_Probe_ok
    unfolding asm_sound_def asm_New_def by auto
qed

lemma tlsFindings_ok:
  assumes "asm_sound a" "domain \<noteq> []" "f \<in> set (fst (tlsFindings a domain host port))"
  shows "well_formed f \<and> target f = domain"
proof -
  from assms(3) obtain gs g where gs: "TLSGrades a (JoinHostPort host (show_int port)) host = Inr gs" "g \<in> set gs"
    and f: "f = asm_finding (Sha256 a) domain (g_Check g) (host @ ''|'' @ g_Discriminator g)
      (g_Severity g) (host @ '': '' @ g_Title g) (g_Remediation g)
      (mergeEvidence (g_Evidence g) [(''host'', AStr host), (''port'', ANum port)])"
    by (cases "TLSGrades a (JoinHostPort host (show_int port)) host")
      (auto simp: tlsFindings_def Let_def)
  have "list_all grade_ok gs" using assms(1) gs(1) unfolding asm_sound_def by blast
  then have "grade_ok g" using gs(2) by (simp add: list_all_iff)
  then show ?thesis
    using assms(1,2) unfolding f by (simp add: grade_ok_def asm_sound_def asm_finding_well_formed)
qed

lemma exposure_findings_ok:
  assumes "asm_sound a" "domain \<noteq> []" "exposure_ok e" "f \<in> set (fst (exposure_findings a domain e))"
  shows "well_formed f \<and> target f = domain"
  using assms tlsFindings_ok [OF assms(1,2)]
  by (auto simp: exposure_findings_def Let_def exposure_ok_def asm_sound_def asm_finding_well_formed
      split: prod.splits if_splits) (metis fst_conv)+

lemma host_findings_ok:
  assumes "asm_sound a" "domain \<noteq> []" "f \<in> set (fst (host_findings a domain sources host))"
  shows "well_formed f \<and> target f = domain"
proof -
  have sha: "\<And>x. length (Sha256 a x) = 32" using assms(1) by (simp add: asm_sound_def)
  obtain exposures perr tr where p: "Prober a host = (exposures, perr, tr)" by (cases "Prober a host") auto
  have "\<forall>e \<in> set exposures. exposure_ok e"
    using assms(1) p unfolding asm_sound_def by (metis fst_conv)
  then show ?thesis
    using assms exposure_findings_ok [OF assms(1,2)]
    by (auto simp: host_findings_def Let_def p asm_finding_well_formed [OF sha] Sev_known split: if_splits)
qed

lemma scan_assets_ok:
  assumes "asm_sound a" "domain \<noteq> []" "f \<in> set (fst (scan_assets a domain as))"
  shows "well_formed f \<and> target f = domain"
proof -
  have sha: "\<And>x. length (Sha256 a x) = 32" using assms(1) by (simp add: asm_sound_def)
  show ?thesis
    using assms host_findings_ok [OF assms(1,2)]
    by (auto simp: scan_assets_def wildcard_finding_def asm_finding_well_formed [OF sha] Sev_known)
qed

subsection \<open>The authorisation gate\<close>

lemma no_nul_moduleID: "no_nul moduleID"
  by code_simp

text \<open>Whether this scan may probe the domain: it is verified, or a proof is published now.\<close>

definition may_probe :: "verifier \<Rightarrow> challenge option \<Rightarrow> bool" where
  "may_probe v held \<longleftrightarrow>
     (case held of None \<Rightarrow> False
      | Some c \<Rightarrow> State c = StateVerified \<or> dns_proof v c \<or> http_proof v c)"

definition allowed_lookups :: "challenge option \<Rightarrow> net_event set" where
  "allowed_lookups held = (case held of None \<Rightarrow> {} | Some c \<Rightarrow> proof_events c)"

lemma Satisfied_fst: "fst (Satisfied v c) \<longleftrightarrow> dns_proof v c \<or> http_proof v c"
  using Satisfied_cases [of v c] by (metis fst_conv)

context challenge_store
begin

text \<open>
  A scan of a domain that may not be probed ends with no finding (or with the store's read error)
  after at most the proof lookups; a scan that may probe does its proof lookups first.
\<close>

lemma collect_gate:
  assumes run: "Collect get put a now t s = (r, s', tr)"
    and good: "vgood s" and acc: "vaccepts moduleID"
  shows "\<not> may_probe (Verifier a) (held s moduleID (Canonical t)) \<Longrightarrow>
      set tr \<subseteq> allowed_lookups (held s moduleID (Canonical t)) \<and> (r = Inr [] \<or> (\<exists>e. r = Inl e))"
    and "\<exists>tr0 tr1. tr = tr0 @ tr1 \<and> set tr0 \<subseteq> allowed_lookups (held s moduleID (Canonical t))
      \<and> (tr1 \<noteq> [] \<longrightarrow> may_probe (Verifier a) (held s moduleID (Canonical t)))"
proof -
  let ?d = "Canonical t" and ?h = "held s moduleID (Canonical t)"
  obtain q s1 where g: "get moduleID ?d s = (q, s1)" by (cases "get moduleID ?d s")
  have "(\<not> may_probe (Verifier a) ?h \<longrightarrow> set tr \<subseteq> allowed_lookups ?h \<and> (r = Inr [] \<or> (\<exists>e. r = Inl e)))
    \<and> (\<exists>tr0 tr1. tr = tr0 @ tr1 \<and> set tr0 \<subseteq> allowed_lookups ?h \<and> (tr1 \<noteq> [] \<longrightarrow> may_probe (Verifier a) ?h))"
  proof (cases q)
    case (Inl e)
    then have "r = Inl e" "tr = []" using run g by (simp_all add: Collect_def)
    then show ?thesis by simp
  next
    case (Inr oc)
    with get_ok [OF good acc] g have h: "oc = ?h" by simp
    show ?thesis
    proof (cases oc)
      case None
      then show ?thesis using run g Inr by (simp add: Collect_def)
    next
      case (Some c)
      obtain sat m tr0 where S: "Satisfied (Verifier a) c = (sat, m, tr0)" by (cases "Satisfied (Verifier a) c") auto
      have sat: "sat \<longleftrightarrow> dns_proof (Verifier a) c \<or> http_proof (Verifier a) c"
        using Satisfied_fst [of "Verifier a" c] S by simp
      have tr0: "set tr0 \<subseteq> proof_events c" using Satisfied_trace [of "Verifier a" c] S by simp
      have mp: "may_probe (Verifier a) ?h \<longleftrightarrow> State c = StateVerified \<or> sat"
        using h Some by (simp add: may_probe_def sat flip: h)
      have al: "allowed_lookups ?h = proof_events c" using h Some by (simp add: allowed_lookups_def flip: h)
      show ?thesis
      proof (cases "State c = StateVerified \<or> sat")
        case True
        let ?tr0 = "if State c = StateVerified then [] else tr0"
        from True obtain tr1 where "tr = ?tr0 @ tr1"
          using run g Inr Some S
          by (auto simp: Collect_def Let_def split: sum.splits prod.splits if_splits)
        moreover have "set ?tr0 \<subseteq> proof_events c" using tr0 by simp
        ultimately show ?thesis using True mp al by blast
      next
        case False
        then have "r = Inr [] \<and> tr = tr0" using run g Inr Some S by (simp add: Collect_def Let_def)
        with False mp al tr0 show ?thesis by (intro conjI impI exI [of _ tr0] exI [of _ "[]"]) auto
      qed
    qed
  qed
  then show "\<not> may_probe (Verifier a) ?h \<Longrightarrow> set tr \<subseteq> allowed_lookups ?h \<and> (r = Inr [] \<or> (\<exists>e. r = Inl e))"
    and "\<exists>tr0 tr1. tr = tr0 @ tr1 \<and> set tr0 \<subseteq> allowed_lookups ?h \<and> (tr1 \<noteq> [] \<longrightarrow> may_probe (Verifier a) ?h)"
    by blast+
qed

text \<open>
  What a scan does to the stored challenges: nothing but turning the domain's own pending
  challenge into a verified one, and that only on a published proof.
\<close>

lemma collect_challenges:
  assumes run: "Collect get put a now t s = (r, s', tr)"
    and good: "vgood s" and acc: "vaccepts moduleID" "vaccepts m"
  shows "vgood s' \<and> (held s' m d = held s m d \<or>
    m = moduleID \<and> d = Canonical t \<and>
    (\<exists>c. held s m d = Some c \<and> State c \<noteq> StateVerified
      \<and> (dns_proof (Verifier a) c \<or> http_proof (Verifier a) c)
      \<and> held s' m d = Some (c\<lparr>State := StateVerified, VerifiedAt := Some now\<rparr>)))"
proof -
  let ?d = "Canonical t"
  obtain q s1 where g: "get moduleID ?d s = (q, s1)" by (cases "get moduleID ?d s")
  have s1: "vgood s1 \<and> held s1 = held s"
    using g get_ok [OF good acc(1)] get_err [OF good] by (cases q) auto
  show ?thesis
  proof (cases "\<exists>c. q = Inr (Some c) \<and> State c \<noteq> StateVerified \<and> fst (Satisfied (Verifier a) c)")
    case False
    then have "s' = s1"
      using run g by (auto simp: Collect_def Let_def split: sum.splits option.splits prod.splits if_splits)
    with s1 show ?thesis by simp
  next
    case True
    then obtain c where c: "q = Inr (Some c)" "State c \<noteq> StateVerified" "fst (Satisfied (Verifier a) c)" by blast
    have h: "held s moduleID ?d = Some c" using get_ok [OF good acc(1)] g c(1) by simp
    then have dom: "Domain c = ?d" by (rule held_domain [OF good acc(1)])
    let ?c = "c\<lparr>State := StateVerified, VerifiedAt := Some now\<rparr>"
    obtain oe s2 where p: "put moduleID ?c s1 = (oe, s2)" by (cases "put moduleID ?c s1")
    have "s' = s2"
      using run g c p by (auto simp: Collect_def Let_def split: sum.splits option.splits prod.splits if_splits)
    then have "vgood s' \<and> held s' m d = (if oe = None \<and> m = moduleID \<and> d = ?d then Some ?c else held s m d)"
      using put_cases [OF _ acc(1) p] s1 acc(2) dom by auto
    with h c Satisfied_fst show ?thesis by auto
  qed
qed

text \<open>Adding a domain in normal form that the store can read leaves an existing challenge alone.\<close>

lemma validate_challenges:
  assumes run: "ValidateTarget get put entropy now raw s = (Inr t, s')"
    and good: "vgood s" and acc: "vaccepts moduleID"
    and read: "\<exists>q s1. get moduleID (normalizeDomain raw) s = (Inr q, s1)"
    and normal: "normalizeDomain (normalizeDomain raw) = normalizeDomain raw"
  shows "Raw t = raw \<and> Canonical t = normalizeDomain raw \<and> \<not> ParseIP_ok (Canonical t) \<and> vgood s'
    \<and> (case held s moduleID (Canonical t) of
         Some c \<Rightarrow> held s' = held s
       | None \<Rightarrow> \<exists>c. held s' moduleID (Canonical t) = Some c \<and> State c = StatePending)"
proof -
  let ?d = "normalizeDomain raw"
  from read obtain q s1 where g: "get moduleID ?d s = (Inr q, s1)" by blast
  note G = get_ok [OF good acc g]
  have guards: "?d \<noteq> []" "\<not> ParseIP_ok ?d" "Contains ?d ''.''"
    using run by (auto simp: ValidateTarget_def Let_def asm_normalizeDomain_eq split: if_splits)
  have t: "Raw t = raw \<and> Canonical t = ?d"
    using run g guards
    by (auto simp: ValidateTarget_def Let_def asm_normalizeDomain_eq split: option.splits sum.splits prod.splits)
  show ?thesis
  proof (cases q)
    case (Some c)
    then have "s' = s1" using run g guards by (simp add: ValidateTarget_def Let_def asm_normalizeDomain_eq)
    moreover have "held s moduleID (Canonical t) = Some c" using G Some t by simp
    ultimately show ?thesis using G t guards by simp
  next
    case None
    then obtain ch where ch: "NewChallenge entropy ?d now = Inr ch" and p: "put moduleID ch s1 = (None, s')"
      using run g guards
      by (auto simp: ValidateTarget_def Let_def asm_normalizeDomain_eq split: option.splits sum.splits prod.splits)
    have "Domain ch = ?d \<and> State ch = StatePending"
      using ch normal by (auto simp: NewChallenge_def Let_def split: if_splits sum.splits)
    then show ?thesis using put_ok [OF _ acc p] G t guards None acc by auto
  qed
qed

end

text \<open>
  (C1) No unverified domain is ever probed. Over the production challenge store, a scan whose domain
  has no challenge, or a pending one whose token is not published, makes no network access but
  the proof lookups of that challenge, and reports nothing; and whenever a scan goes beyond those
  lookups, it does so after them and the domain is verified or its proof is published.
\<close>

theorem unverified_never_probed:
  assumes "Collect vsql_Get vsql_Put a now t s = (r, s', tr)" "vsql_good s"
  shows "(\<not> may_probe (Verifier a) (vsql_held s moduleID (Canonical t)) \<longrightarrow>
      set tr \<subseteq> allowed_lookups (vsql_held s moduleID (Canonical t)) \<and> (r = Inr [] \<or> (\<exists>e. r = Inl e)))
    \<and> (\<exists>tr0 tr1. tr = tr0 @ tr1 \<and> set tr0 \<subseteq> allowed_lookups (vsql_held s moduleID (Canonical t))
      \<and> (tr1 \<noteq> [] \<longrightarrow> may_probe (Verifier a) (vsql_held s moduleID (Canonical t))))"
  using vsql.collect_gate [OF assms TrueI] by blast

definition demo_challenge :: "vstate \<Rightarrow> challenge" where
  "demo_challenge st = \<lparr>Domain = ''example.com'', Token = ''t0k'', State = st, CreatedAt = 0, VerifiedAt = None\<rparr>"

definition demo_vdb :: "vstate \<Rightarrow> vdb" where
  "demo_vdb st = \<lparr>verify_challenges = [challenge_row moduleID (demo_challenge st)], v_faults = []\<rparr>"

definition demo_asm :: asm where
  "demo_asm = \<lparr>Verifier = \<lparr>LookupTXT = Some (\<lambda>n. Inr []), FetchHTTP = Some (\<lambda>u. Inl ''404'')\<rparr>,
     Discoverer = (\<lambda>d. (Inr \<lparr>Hostnames = [d], Sources = [], Wildcards = []\<rparr>, [Resolve d])),
     Prober = (\<lambda>h. ([], None, [Dial h 22])), TLSGrades = (\<lambda>a h. Inl ''x''), Sha256 = (\<lambda>x. replicate 32 (CHR ''a''))\<rparr>"

definition demo_target :: scan_target where
  "demo_target = \<lparr>Raw = ''example.com'', Canonical = ''example.com'', Meta = []\<rparr>"

lemma demo_vdb_good: "vsql_good (demo_vdb st)"
  by (simp add: vsql_good_def demo_vdb_def)

lemma demo_vdb_held: "vsql_held (demo_vdb st) moduleID ''example.com'' = Some (demo_challenge st)"
  by (simp add: vsql_held_def demo_vdb_def vkey_def challenge_row_def demo_challenge_def scanChallenge_def)

lemma unverified_never_probed_witness:
  "Dial ''example.com'' 22 \<notin>
     set (snd (snd (Collect vsql_Get vsql_Put demo_asm 5 demo_target (demo_vdb StatePending))))"
proof -
  obtain r s' tr where run: "Collect vsql_Get vsql_Put demo_asm 5 demo_target (demo_vdb StatePending) = (r, s', tr)"
    by (metis prod_cases3)
  have "\<not> may_probe (Verifier demo_asm) (vsql_held (demo_vdb StatePending) moduleID (Canonical demo_target))"
    by (simp add: demo_target_def demo_vdb_held may_probe_def demo_challenge_def demo_asm_def
        dns_proof_def http_proof_def)
  with unverified_never_probed [OF run demo_vdb_good]
  have "set tr \<subseteq> allowed_lookups (Some (demo_challenge StatePending))"
    by (simp add: demo_target_def demo_vdb_held)
  then show ?thesis by (auto simp: run allowed_lookups_def proof_events_def)
qed

text \<open>
  Once a challenge is verified, the verifier plays no part in a scan any more: with any other verifier
  the scan returns the same, leaves the same and makes the same network accesses.
\<close>

lemma findings_without_verifier:
  "tlsFindings (a\<lparr>Verifier := v\<rparr>) = tlsFindings a" "wildcard_finding (a\<lparr>Verifier := v\<rparr>) = wildcard_finding a"
  by (simp_all add: tlsFindings_def wildcard_finding_def fun_eq_iff Let_def split: sum.split)

lemma exposures_without_verifier: "exposure_findings (a\<lparr>Verifier := v\<rparr>) = exposure_findings a"
  by (simp add: exposure_findings_def findings_without_verifier fun_eq_iff Let_def)

lemma scan_assets_without_verifier: "scan_assets (a\<lparr>Verifier := v\<rparr>) = scan_assets a"
proof -
  have hf: "host_findings (a\<lparr>Verifier := v\<rparr>) = host_findings a"
    by (simp add: host_findings_def exposures_without_verifier fun_eq_iff Let_def split: prod.split)
  show ?thesis by (rule ext)+ (simp only: scan_assets_def findings_without_verifier hf)
qed

lemma verified_scan:
  assumes "Collect vsql_Get vsql_Put a now t s = (r, s', tr)" "vsql_good s"
    and "vsql_held s moduleID (Canonical t) = Some c" "State c = StateVerified"
  shows "vsql_held s' = vsql_held s" "Collect vsql_Get vsql_Put (a\<lparr>Verifier := v\<rparr>) now t s = (r, s', tr)"
proof -
  obtain q s1 where g: "vsql_Get moduleID (Canonical t) s = (q, s1)" by (cases "vsql_Get moduleID (Canonical t) s")
  have s1: "vsql_held s1 = vsql_held s"
    using g vsql.get_ok [OF assms(2) TrueI] vsql.get_err [OF assms(2)] by (cases q) auto
  have q: "q = Inr (Some c) \<or> (\<exists>e. q = Inl e)"
    using g vsql.get_ok [OF assms(2) TrueI] assms(3) by (cases q) auto
  then show "vsql_held s' = vsql_held s"
    using assms(1,4) g s1 by (auto simp: Collect_def Let_def split: sum.splits prod.splits)
  from q show "Collect vsql_Get vsql_Put (a\<lparr>Verifier := v\<rparr>) now t s = (r, s', tr)"
    using assms(1,4) g
    by (auto simp: Collect_def Let_def scan_assets_without_verifier split: sum.splits prod.splits)
qed

text \<open>
  (C22) Verification is earned, and never taken back. A scan changes no stored challenge but its own
  domain's, and that one only from pending to verified, with its token untouched, when the proof was
  published. A verified challenge it leaves as it is without consulting the verifier: whatever the
  proof lookups would answer now, also that the token is gone, the scan probes and reports the same.
  (The package comment of \<open>verify.go\<close> says otherwise: that a domain whose token later disappears
  reverts to pending and scanning pauses. No code does that.)
\<close>

theorem scan_verifies_only_on_proof:
  assumes "Collect vsql_Get vsql_Put a now t s = (r, s', tr)" "vsql_good s"
  shows "vsql_good s'
    \<and> (\<forall>m d. vsql_held s' m d = vsql_held s m d \<or>
         m = moduleID \<and> d = Canonical t \<and>
         (\<exists>c. vsql_held s m d = Some c \<and> State c \<noteq> StateVerified
           \<and> (dns_proof (Verifier a) c \<or> http_proof (Verifier a) c)
           \<and> vsql_held s' m d = Some (c\<lparr>State := StateVerified, VerifiedAt := Some now\<rparr>)))
    \<and> (\<forall>c. vsql_held s moduleID (Canonical t) = Some c \<and> State c = StateVerified \<longrightarrow>
         vsql_held s' = vsql_held s
         \<and> (\<forall>v. Collect vsql_Get vsql_Put (a\<lparr>Verifier := v\<rparr>) now t s = (r, s', tr)))"
  using vsql.collect_challenges [OF assms TrueI TrueI] verified_scan [OF assms] by blast

lemma scan_verifies_only_on_proof_witness:
  "vsql_held (fst (snd (Collect vsql_Get vsql_Put demo_asm 5 demo_target (demo_vdb StatePending)))) moduleID ''example.com''
     = Some (demo_challenge StatePending)
   \<and> Collect vsql_Get vsql_Put (demo_asm\<lparr>Verifier := \<lparr>LookupTXT = Some (\<lambda>n. Inl ''gone''), FetchHTTP = None\<rparr>\<rparr>) 5
       demo_target (demo_vdb StateVerified)
     = Collect vsql_Get vsql_Put demo_asm 5 demo_target (demo_vdb StateVerified)"
proof (rule conjI, goal_cases)
  case 1
  obtain r s' tr where run: "Collect vsql_Get vsql_Put demo_asm 5 demo_target (demo_vdb StatePending) = (r, s', tr)"
    by (metis prod_cases3)
  have "\<not> dns_proof (Verifier demo_asm) (demo_challenge StatePending)"
    "\<not> http_proof (Verifier demo_asm) (demo_challenge StatePending)"
    by (simp_all add: demo_asm_def dns_proof_def http_proof_def)
  moreover have "vsql_held s' moduleID ''example.com'' = vsql_held (demo_vdb StatePending) moduleID ''example.com'' \<or>
      (\<exists>c. vsql_held (demo_vdb StatePending) moduleID ''example.com'' = Some c
         \<and> (dns_proof (Verifier demo_asm) c \<or> http_proof (Verifier demo_asm) c))"
    using scan_verifies_only_on_proof [OF run demo_vdb_good] by blast
  ultimately show ?case by (auto simp: run demo_vdb_held)
next
  case 2
  obtain r s' tr where run: "Collect vsql_Get vsql_Put demo_asm 5 demo_target (demo_vdb StateVerified) = (r, s', tr)"
    by (metis prod_cases3)
  have "vsql_held (demo_vdb StateVerified) moduleID (Canonical demo_target) = Some (demo_challenge StateVerified)"
    by (simp add: demo_target_def demo_vdb_held)
  with scan_verifies_only_on_proof [OF run demo_vdb_good] show ?case by (simp add: run demo_challenge_def)
qed

text \<open>
  Adding a target. When \<open>ValidateTarget\<close> accepts an input whose normal form is stable and whose
  challenge the store can read, the target is that normal form, a dotted name and no IP address; an
  existing challenge stays exactly as it is (a verified domain stays verified), and a new domain
  gets a pending one.
\<close>

theorem ValidateTarget_keeps_challenge:
  assumes "ValidateTarget vsql_Get vsql_Put entropy now raw s = (Inr t, s')" "vsql_good s"
    and "\<exists>q s1. vsql_Get moduleID (normalizeDomain raw) s = (Inr q, s1)"
    and "normalizeDomain (normalizeDomain raw) = normalizeDomain raw"
  shows "Raw t = raw \<and> Canonical t = normalizeDomain raw \<and> \<not> ParseIP_ok (Canonical t) \<and> vsql_good s'
    \<and> (case vsql_held s moduleID (Canonical t) of
         Some c \<Rightarrow> vsql_held s' = vsql_held s
       | None \<Rightarrow> \<exists>c. vsql_held s' moduleID (Canonical t) = Some c \<and> State c = StatePending)"
  by (rule vsql.validate_challenges [OF assms(1,2) TrueI assms(3,4)])

lemma ValidateTarget_keeps_challenge_witness:
  "vsql_held (snd (ValidateTarget vsql_Get vsql_Put (Inl []) 9 ''https://Example.com/'' (demo_vdb StateVerified)))
     moduleID ''example.com'' = Some (demo_challenge StateVerified)"
proof -
  let ?v = "ValidateTarget vsql_Get vsql_Put (Inl []) 9 ''https://Example.com/'' (demo_vdb StateVerified)"
  have n: "normalizeDomain ''https://Example.com/'' = ''example.com''" by code_simp
  have nn: "normalizeDomain ''example.com'' = ''example.com''" by code_simp
  have g: "vsql_Get moduleID ''example.com'' (demo_vdb StateVerified) =
      (Inr (Some (demo_challenge StateVerified)), demo_vdb StateVerified)"
    by (simp add: vsql_Get_def vexec_def demo_vdb_def challenge_row_def demo_challenge_def scanChallenge_def)
  have "\<not> ParseIP_ok ''example.com''" by code_simp
  then have run: "?v = (Inr \<lparr>Raw = ''https://Example.com/'', Canonical = ''example.com'',
      Meta = [(''domain'', ''example.com'')]\<rparr>, snd ?v)"
    by (simp add: ValidateTarget_def Let_def asm_normalizeDomain_eq n g)
  from ValidateTarget_keeps_challenge [OF run demo_vdb_good] show ?thesis
    by (simp add: n nn g demo_vdb_held)
qed

text \<open>
  The two ways a verified domain loses its verification without the user's doing: the input
  \<open>example.com..\<close> normalises to \<open>example.com.\<close>, for which no challenge exists, and the new
  challenge is issued for \<open>example.com\<close>, over the verified one; and a failed read of the challenge
  counts as a missing one, so the next statement overwrites it.
\<close>

theorem ValidateTarget_resets_verified:
  "(case ValidateTarget vsql_Get vsql_Put (Inr []) 9 ''example.com..'' (demo_vdb StateVerified) of
      (r, s) \<Rightarrow> map_option State (vsql_held s moduleID ''example.com'')) = Some StatePending
   \<and> (case ValidateTarget vsql_Get vsql_Put (Inr []) 9 ''example.com''
            ((demo_vdb StateVerified)\<lparr>v_faults := [Some ''database is locked'', None]\<rparr>) of
      (r, s) \<Rightarrow> map_option State (vsql_held s moduleID ''example.com'')) = Some StatePending"
proof -
  have n2: "normalizeDomain ''example.com..'' = ''example.com.''" by code_simp
  have n1: "normalizeDomain ''example.com.'' = ''example.com''" by code_simp
  have n0: "normalizeDomain ''example.com'' = ''example.com''" by code_simp
  note n = n2 n1 n0
  have ip: "\<not> ParseIP_ok ''example.com.''" "\<not> ParseIP_ok ''example.com''" by code_simp+
  show ?thesis
    by (simp add: ValidateTarget_def Let_def asm_normalizeDomain_eq n ip NewChallenge_def vsql_Get_def vsql_Put_def
        vexec_def demo_vdb_def challenge_row_def demo_challenge_def vkey_def vsql_held_def scanChallenge_def)
qed

subsection \<open>Findings the engine accepts\<close>

text \<open>
  (C36) The collector respects the engine's contract: every finding of a scan in production wiring
  passes the ingest check and belongs to the scanned domain, so the engine rejects none of them
  and never files one under another target.
\<close>

theorem Collect_findings_accepted:
  assumes "set port_order \<subseteq> set portCatalog" "\<forall>x. length (sha256 x) = 32" "Canonical t \<noteq> []"
    and "Collect vsql_Get vsql_Put (asm_New v d name_order port_order cancel dial lib conn now sha256) now t s
           = (Inr fs, s', tr)"
  shows "\<forall>f. f \<in> set fs \<longrightarrow> ValidateForIngest f = None \<and> target f = Canonical t"
proof -
  let ?a = "asm_New v d name_order port_order cancel dial lib conn now sha256"
  have "asm_sound ?a" using assms(1,2) by (intro asm_New_sound) auto
  note ok = scan_assets_ok [OF this assms(3)]
  have "fs = [] \<or> (\<exists>as. fs = fst (scan_assets ?a (Canonical t) as))"
    using assms(4)
    by (auto simp: Collect_def Let_def split: sum.splits option.splits prod.splits if_splits) (metis fst_conv)+
  then show ?thesis using ok by (auto simp: ValidateForIngest_None_iff)
qed

definition demo_prod :: asm where
  "demo_prod = asm_New (Verifier demo_asm) demo_discoverer id
     [(23, pclass ''Telnet'' SevHigh True ''Telnet is clear-text and must never be internet-facing. Disable it and use SSH instead.'')]
     (\<lambda>i. None) (\<lambda>addr. True) demo_lib (\<lambda>addr. Inl ''x'') 5 (\<lambda>x. replicate 32 (CHR ''a''))"

lemma Collect_findings_accepted_witness:
  "\<exists>fs. fst (Collect vsql_Get vsql_Put demo_prod 5 demo_target (demo_vdb StateVerified)) = Inr fs
     \<and> (\<forall>f. f \<in> set fs \<longrightarrow> ValidateForIngest f = None)"
proof -
  have g: "vsql_Get moduleID ''example.com'' (demo_vdb StateVerified) =
      (Inr (Some (demo_challenge StateVerified)), demo_vdb StateVerified)"
    by (simp add: vsql_Get_def vexec_def demo_vdb_def challenge_row_def demo_challenge_def scanChallenge_def)
  obtain as tr1 where D: "Discoverer demo_prod ''example.com'' = (Inr as, tr1)"
    by (cases "Discover demo_discoverer id ''example.com''") (simp add: demo_prod_def asm_New_def)
  obtain fs tr2 where S: "scan_assets demo_prod ''example.com'' as = (fs, tr2)"
    by (cases "scan_assets demo_prod ''example.com'' as")
  have run: "Collect vsql_Get vsql_Put demo_prod 5 demo_target (demo_vdb StateVerified) =
      (Inr fs, demo_vdb StateVerified, tr1 @ tr2)"
    by (simp add: Collect_def demo_target_def g Let_def D S demo_challenge_def)
  from Collect_findings_accepted [OF _ _ _ run [unfolded demo_prod_def]] run
  show ?thesis by (simp add: portCatalog_def demo_target_def)
qed

text \<open>
  Two HTTPS ports of one host share their TLS findings' identities: the discriminator holds
  the host but not the port, so equal grades on 443 and 8443 yield the same fingerprints.
\<close>

theorem tls_ports_share_fingerprints:
  "TLSGrades a (JoinHostPort host (show_int p)) host = TLSGrades a (JoinHostPort host (show_int q)) host \<longrightarrow>
     map fingerprint (fst (tlsFindings a domain host p)) = map fingerprint (fst (tlsFindings a domain host q))"
  by (simp add: tlsFindings_def Let_def split: sum.split)

lemma tls_ports_share_fingerprints_witness:
  "map fingerprint (fst (tlsFindings demo_asm ''example.com'' ''example.com'' 443)) =
   map fingerprint (fst (tlsFindings demo_asm ''example.com'' ''example.com'' 8443))"
  using tls_ports_share_fingerprints [of demo_asm "''example.com''" 443 8443 "''example.com''"]
  by (simp add: demo_asm_def)

end
