(* ===== verification/Scheduler.thy ===== *)
theory Scheduler
  imports Reconcile Complex_Main
begin

section \<open>The scheduler: configuration, registry and one scan (\<open>sched/scheduler.go\<close>)\<close>

text \<open>
  The scheduler's configuration and its arithmetic (defaults, retry backoff, jitter), the registry
  of modules and targets with its operations, one scan from the collector to the result callback,
  and the bookkeeping a module loop does for each finished scan. The concurrent part (worker
  slots, loops, cancellation) is in \<open>SchedulerRun\<close>.

  A collector is the interface value the program registers: its description and its two
  operations, over a state \<open>'w\<close> they may change (the challenge store, the network's answers). An
  error of a scan is either one that \<open>errors.Is\<close> recognises as \<open>context.Canceled\<close> or another one
  with its text. Durations are \<open>int64\<close> nanoseconds: the doubling of the backoff is written with its
  wrap-around.
\<close>

subsection \<open>Configuration\<close>

record sched_config =
  Workers :: int
  ScanTimeout :: duration
  JitterFraction :: rat
  RetryBase :: duration
  RetryMax :: duration
  IntervalOverride :: duration

text \<open>The double nearest to \<open>0.1\<close>.\<close>

definition double_tenth :: rat where
  "double_tenth = 3602879701896397 / 36028797018963968"

definition withDefaults :: "sched_config \<Rightarrow> sched_config" where
  "withDefaults c =
     (let c = (if Workers c \<le> 0 then c\<lparr>Workers := 8\<rparr> else c);
          c = (if ScanTimeout c \<le> 0 then c\<lparr>ScanTimeout := 30 * second\<rparr> else c);
          c = (if JitterFraction c \<le> 0 \<or> JitterFraction c > 1 then c\<lparr>JitterFraction := double_tenth\<rparr> else c);
          c = (if RetryBase c \<le> 0 then c\<lparr>RetryBase := 30 * second\<rparr> else c)
      in (if RetryMax c \<le> 0 then c\<lparr>RetryMax := 15 * minute\<rparr> else c))"

definition config_ok :: "sched_config \<Rightarrow> bool" where
  "config_ok c \<longleftrightarrow> 0 < Workers c \<and> 0 < ScanTimeout c \<and> 0 < JitterFraction c \<and> JitterFraction c \<le> 1
     \<and> 0 < RetryBase c \<and> 0 < RetryMax c"

lemma config_ok_withDefaults [simp]: "config_ok (withDefaults c)"
  by (simp add: config_ok_def withDefaults_def Let_def double_tenth_def)

lemma withDefaults_ok: "config_ok c \<Longrightarrow> withDefaults c = c"
  by (simp add: config_ok_def withDefaults_def Let_def)

subsection \<open>Retry backoff\<close>

definition wrap64 :: "int \<Rightarrow> int" where
  "wrap64 x = (x + 2 ^ 63) mod 2 ^ 64 - 2 ^ 63"

lemma wrap64_id: "- (2 ^ 63) \<le> x \<Longrightarrow> x < 2 ^ 63 \<Longrightarrow> wrap64 x = x"
  by (simp add: wrap64_def)

fun backoff_loop :: "duration \<Rightarrow> nat \<Rightarrow> duration \<Rightarrow> duration" where
  "backoff_loop mx 0 d = (if d > mx then mx else d)"
| "backoff_loop mx (Suc n) d =
     (let d = wrap64 (d * 2) in if d \<ge> mx then mx else backoff_loop mx n d)"

definition backoffFor :: "sched_config \<Rightarrow> int \<Rightarrow> duration" where
  "backoffFor c consecutive = backoff_loop (RetryMax c) (nat (consecutive - 1)) (RetryBase c)"

lemma backoff_loop_doubles:
  assumes "0 < d" "d < 2 ^ 62" "mx \<le> 2 ^ 62"
  shows "backoff_loop mx n d = min mx (d * 2 ^ n)"
  using assms
proof (induction n arbitrary: d)
  case 0
  then show ?case by simp
next
  case (Suc n)
  have w: "wrap64 (d * 2) = d * 2" using Suc.prems by (intro wrap64_id) simp_all
  show ?case
  proof (cases "d * 2 \<ge> mx")
    case True
    have "d * 2 * 1 \<le> d * 2 * 2 ^ n" using Suc.prems by (intro mult_left_mono) simp_all
    with True w show ?thesis by (simp add: min_def ac_simps)
  next
    case False
    then have "backoff_loop mx n (d * 2) = min mx (d * 2 * 2 ^ n)" using Suc.prems by (intro Suc.IH) simp_all
    with False w show ?thesis by (simp add: ac_simps)
  qed
qed

text \<open>
  (C35) The backoff after the \<open>n\<close>-th consecutive failure is the base delay doubled \<open>n - 1\<close> times and
  capped at the maximum, for every configuration after its defaults are filled in; no doubling
  wraps around as long as base and maximum stay below \<open>2^62\<close> nanoseconds (about 146 years). In
  particular the delay is always positive and never above the maximum.
\<close>

theorem backoffFor_doubles:
  assumes "RetryBase c < 2 ^ 62" "RetryMax c \<le> 2 ^ 62" "1 \<le> n"
  defines "c' \<equiv> withDefaults c"
  shows "backoffFor c' n = min (RetryMax c') (RetryBase c' * 2 ^ nat (n - 1))
         \<and> 0 < backoffFor c' n \<and> backoffFor c' n \<le> RetryMax c'"
proof -
  have ok: "config_ok c'" by (simp add: c'_def)
  have small: "RetryBase c' < 2 ^ 62" "RetryMax c' \<le> 2 ^ 62"
    using assms(1,2) by (simp_all add: c'_def withDefaults_def Let_def)
  have "backoffFor c' n = min (RetryMax c') (RetryBase c' * 2 ^ nat (n - 1))"
    using ok small by (simp add: backoffFor_def config_ok_def backoff_loop_doubles)
  with ok show ?thesis by (simp add: config_ok_def min_def)
qed

definition zero_config :: sched_config where
  "zero_config = \<lparr>Workers = 0, ScanTimeout = 0, JitterFraction = 0, RetryBase = 0, RetryMax = 0,
     IntervalOverride = 0\<rparr>"

lemma backoffFor_doubles_witness:
  "map (backoffFor (withDefaults zero_config)) [1, 2, 6] = [30 * second, 60 * second, 15 * minute]"
  using backoffFor_doubles [of zero_config 1] backoffFor_doubles [of zero_config 2]
    backoffFor_doubles [of zero_config 6]
  by (simp add: zero_config_def withDefaults_def Let_def double_tenth_def)

text \<open>
  Above that bound the doubling does wrap: with a base of \<open>2^62\<close> and the largest maximum the delay
  after the second failure is negative, so the target is not held back at all.
\<close>

lemma backoff_wraps: "backoff_loop (2 ^ 63 - 1) 1 (2 ^ 62) = - (2 ^ 63)"
  by (simp add: wrap64_def)

subsection \<open>Jitter\<close>

text \<open>
  \<open>jittered\<close> computes in \<open>float64\<close>: \<open>rnd\<close> rounds an exact result to the nearest double, \<open>u\<close> is the
  draw of the random generator. The conversion back to a duration truncates towards zero.
\<close>

definition truncate_rat :: "rat \<Rightarrow> int" where
  "truncate_rat x = (if x \<ge> 0 then floor x else ceiling x)"

definition jittered :: "(rat \<Rightarrow> rat) \<Rightarrow> sched_config \<Rightarrow> rat \<Rightarrow> duration \<Rightarrow> duration" where
  "jittered rnd c u d =
     (let f = rnd (1 + rnd (JitterFraction c * rnd (u - 1 / 2)))
      in truncate_rat (rnd (rnd (of_int d) * f)))"

text \<open>What is used of rounding: it is monotone and exact on small multiples of one half.\<close>

definition rounding :: "(rat \<Rightarrow> rat) \<Rightarrow> bool" where
  "rounding rnd \<longleftrightarrow> (\<forall>x y. x \<le> y \<longrightarrow> rnd x \<le> rnd y)
     \<and> (\<forall>m. \<bar>m\<bar> \<le> 2 ^ 53 \<longrightarrow> rnd (of_int m / 2) = of_int m / 2)"

lemma rounding_between:
  assumes "rounding rnd" "\<bar>a\<bar> \<le> 2 ^ 53" "\<bar>b\<bar> \<le> 2 ^ 53" "of_int a / 2 \<le> x" "x \<le> of_int b / 2"
  shows "of_int a / 2 \<le> rnd x" "rnd x \<le> of_int b / 2"
  using assms unfolding rounding_def by metis+

lemma rounding_int:
  assumes "rounding rnd" "\<bar>2 * d\<bar> \<le> 2 ^ 53"
  shows "rnd (of_int d) = of_int d"
proof -
  have "rnd (of_int (2 * d) / 2) = of_int (2 * d) / 2"
    using assms unfolding rounding_def by blast
  then show ?thesis by simp
qed

lemma fraction_of_half:
  assumes "0 < j" "j \<le> 1" "- 1 / 2 \<le> w" "w \<le> (1 / 2 :: rat)"
  shows "- 1 / 2 \<le> j * w" "j * w \<le> 1 / 2"
proof -
  have "\<bar>j * w\<bar> \<le> 1 * \<bar>w\<bar>" unfolding abs_mult using assms(1,2) by (intro mult_right_mono) simp_all
  also have "\<dots> \<le> 1 / 2" using assms(3,4) by simp
  finally have "\<bar>j * w\<bar> \<le> 1 / 2" .
  then show "- 1 / 2 \<le> j * w" "j * w \<le> 1 / 2" by (simp_all add: abs_le_iff)
qed

lemma floor_half: "floor (of_int k / 2 :: rat) = k div 2"
  using floor_divide_of_int_eq [of k 2, where 'a = rat] by simp

text \<open>
  A loop never sleeps less than half of its interval nor more than one and a half of it, and
  so never zero, whatever the random draw and the configured fraction (intervals up to 34 days, for
  which the float arithmetic is exact at the bounds).
\<close>

theorem jittered_bounds:
  assumes "rounding rnd" "config_ok c" "0 \<le> u" "u < 1" "2 \<le> d" "3 * d \<le> 2 ^ 53"
  shows "d div 2 \<le> jittered rnd c u d \<and> jittered rnd c u d \<le> (3 * d) div 2 \<and> 0 < jittered rnd c u d"
proof -
  define w where "w = rnd (u - 1 / 2)"
  define v where "v = rnd (JitterFraction c * w)"
  define f where "f = rnd (1 + v)"
  have "- 1 / 2 \<le> w" "w \<le> 1 / 2"
    using rounding_between [OF assms(1), of "-1" 1 "u - 1 / 2"] assms(3,4) by (simp_all add: w_def)
  with fraction_of_half [of "JitterFraction c" w] assms(2)
  have "- 1 / 2 \<le> JitterFraction c * w" "JitterFraction c * w \<le> 1 / 2" by (simp_all add: config_ok_def)
  then have "- 1 / 2 \<le> v" "v \<le> 1 / 2"
    using rounding_between [OF assms(1), of "-1" 1 "JitterFraction c * w"] by (simp_all add: v_def)
  then have f: "1 / 2 \<le> f" "f \<le> 3 / 2"
    using rounding_between [OF assms(1), of 1 3 "1 + v"] by (simp_all add: f_def)
  have d: "rnd (of_int d) = of_int d" using rounding_int [OF assms(1)] assms(5,6) by simp
  have pos: "(0 :: rat) \<le> of_int d" using assms(5) by simp
  have "of_int d * (1 / 2) \<le> of_int d * f" "of_int d * f \<le> of_int d * (3 / 2)"
    using mult_left_mono [OF f(1) pos] mult_left_mono [OF f(2) pos] by blast+
  then have lo: "of_int d / 2 \<le> rnd (of_int d * f)" and hi: "rnd (of_int d * f) \<le> of_int (3 * d) / 2"
    using rounding_between [OF assms(1), of d "3 * d" "of_int d * f"] assms(5,6) by simp_all
  have "0 \<le> rnd (of_int d * f)" using lo pos by linarith
  then have j: "jittered rnd c u d = floor (rnd (of_int d * f))"
    by (simp add: jittered_def truncate_rat_def d f_def v_def w_def Let_def)
  have "d div 2 \<le> jittered rnd c u d" "jittered rnd c u d \<le> (3 * d) div 2"
    unfolding j floor_half [symmetric] using lo hi by (simp_all only: floor_mono)
  moreover have "0 < d div 2" using assms(5) by (simp add: pos_imp_zdiv_pos_iff)
  ultimately show ?thesis by simp
qed

lemma rounding_exact: "rounding (\<lambda>x. x)"
  by (simp add: rounding_def)

lemma jittered_bounds_witness:
  "jittered (\<lambda>x. x) (withDefaults zero_config) (1 / 4) (24 * hour) \<le> 36 * hour
   \<and> 0 < jittered (\<lambda>x. x) (withDefaults zero_config) (1 / 4) (24 * hour)"
  using jittered_bounds [OF rounding_exact config_ok_withDefaults, of "1 / 4" "24 * hour" zero_config]
  by simp

subsection \<open>Collectors, registrations and the scheduler's state\<close>

datatype scan_error = Canceled goerror | ScanFailed goerror

record 'w collector =
  Describe :: module_info
  coll_Validate :: "gostring \<Rightarrow> 'w \<Rightarrow> (goerror + scan_target) \<times> 'w"
  coll_Collect :: "scan_target \<Rightarrow> 'w \<Rightarrow> (scan_error + finding list) \<times> 'w"

record 'w registration =
  reg_collector :: "'w collector"
  reg_info :: module_info
  reg_targets :: "(gostring \<times> scan_target) list"

text \<open>
  \<open>ctx\<close> is the context \<open>Start\<close> derives: none before, afterwards whether it is done. The functions
  \<open>cancel\<close> and the wait group are in \<open>SchedulerRun\<close>.
\<close>

record 'w sched =
  cfg :: sched_config
  modules :: "(gostring \<times> 'w registration) list"
  ctx_done :: "bool option"
  started :: bool

definition sched_New :: "sched_config \<Rightarrow> 'w sched" where
  "sched_New c = \<lparr>cfg = withDefaults c, modules = [], ctx_done = None, started = False\<rparr>"

definition Register :: "'w collector \<Rightarrow> 'w sched \<Rightarrow> goerror option \<times> 'w sched" where
  "Register c s =
     (let mi = Describe c in
      if module_ID mi = [] then (Some ''collector ModuleInfo.ID must not be empty'', s)
      else case map_of (modules s) (module_ID mi) of
             Some _ \<Rightarrow> (Some (''module already registered: '' @ module_ID mi), s)
           | None \<Rightarrow>
               (None, s\<lparr>modules := AList.update (module_ID mi)
                          \<lparr>reg_collector = c, reg_info = mi, reg_targets = []\<rparr> (modules s)\<rparr>))"

text \<open>The last component lists the scans that are started at once.\<close>

definition AddTarget ::
  "gostring \<Rightarrow> gostring \<Rightarrow> 'w sched \<Rightarrow> 'w \<Rightarrow>
   (goerror + scan_target) \<times> 'w sched \<times> 'w \<times> (gostring \<times> scan_target) list" where
  "AddTarget m raw s w =
     (case map_of (modules s) m of
        None \<Rightarrow> (Inl (''unknown module: '' @ m), s, w, [])
      | Some reg \<Rightarrow>
          (case coll_Validate (reg_collector reg) raw w of
             (Inl e, w') \<Rightarrow> (Inl e, s, w', [])
           | (Inr t, w') \<Rightarrow>
               (Inr t,
                s\<lparr>modules := AList.update m
                    (reg\<lparr>reg_targets := AList.update (Canonical t) t (reg_targets reg)\<rparr>) (modules s)\<rparr>,
                w',
                if started s \<and> ctx_done s = Some False then [(m, t)] else [])))"

definition RemoveTarget :: "gostring \<Rightarrow> gostring \<Rightarrow> 'w sched \<Rightarrow> 'w sched" where
  "RemoveTarget m canonical s =
     (case map_of (modules s) m of
        None \<Rightarrow> s
      | Some reg \<Rightarrow>
          s\<lparr>modules := AList.update m
              (reg\<lparr>reg_targets := filter (\<lambda>p. fst p \<noteq> canonical) (reg_targets reg)\<rparr>) (modules s)\<rparr>)"

text \<open>\<open>parent_done\<close>: whether the context passed in is done already. One loop per module starts.\<close>

definition sched_Start :: "bool \<Rightarrow> 'w sched \<Rightarrow> goerror option \<times> 'w sched \<times> gostring list" where
  "sched_Start parent_done s =
     (if started s then (Some ''scheduler already started'', s, [])
      else (None, s\<lparr>started := True, ctx_done := Some parent_done\<rparr>, map fst (modules s)))"

definition sched_cancel :: "'w sched \<Rightarrow> 'w sched" where
  "sched_cancel s = (case ctx_done s of None \<Rightarrow> s | Some _ \<Rightarrow> s\<lparr>ctx_done := Some True\<rparr>)"

definition snapshotTargets :: "'w registration \<Rightarrow> scan_target list" where
  "snapshotTargets reg = map snd (reg_targets reg)"

definition ListTargets :: "gostring \<Rightarrow> 'w sched \<Rightarrow> scan_target list" where
  "ListTargets m s = (case map_of (modules s) m of None \<Rightarrow> [] | Some reg \<Rightarrow> snapshotTargets reg)"

text \<open>
  The scans \<open>ScanNow\<close> starts and waits for, and what it then returns: the error of the caller's
  context, here \<open>ctx_err\<close>, never an error of a scan.
\<close>

definition ScanNow ::
  "goerror option \<Rightarrow> gostring \<Rightarrow> 'w sched \<Rightarrow> goerror option \<times> (gostring \<times> scan_target) list" where
  "ScanNow ctx_err m s =
     (case map_of (modules s) m of
        None \<Rightarrow> (Some (''unknown module: '' @ m), [])
      | Some reg \<Rightarrow> (ctx_err, map (\<lambda>t. (m, t)) (snapshotTargets reg)))"

definition loop_interval :: "'w sched \<Rightarrow> 'w registration \<Rightarrow> duration" where
  "loop_interval s reg =
     (let i = DefaultInterval (reg_info reg);
          i = (if IntervalOverride (cfg s) > 0 then IntervalOverride (cfg s) else i)
      in if i \<le> 0 then hour else i)"

lemma loop_interval_pos: "0 < loop_interval s reg"
  by (simp add: loop_interval_def Let_def)

subsection \<open>The registry invariant\<close>

definition registration_ok :: "gostring \<Rightarrow> 'w registration \<Rightarrow> bool" where
  "registration_ok m reg \<longleftrightarrow> module_ID (reg_info reg) = m \<and> m \<noteq> []
     \<and> distinct (map fst (reg_targets reg)) \<and> (\<forall>(k, t) \<in> set (reg_targets reg). Canonical t = k)"

definition sched_ok :: "'w sched \<Rightarrow> bool" where
  "sched_ok s \<longleftrightarrow> config_ok (cfg s) \<and> distinct (map fst (modules s))
     \<and> (\<forall>(m, reg) \<in> set (modules s). registration_ok m reg)
     \<and> (started s \<longleftrightarrow> ctx_done s \<noteq> None)"

definition registered :: "'w sched \<Rightarrow> gostring \<Rightarrow> gostring \<rightharpoonup> scan_target" where
  "registered s m = (case map_of (modules s) m of None \<Rightarrow> Map.empty | Some reg \<Rightarrow> map_of (reg_targets reg))"

lemma sched_ok_lookup:
  assumes "sched_ok s" "map_of (modules s) m = Some reg"
  shows "registration_ok m reg"
  using assms(1) map_of_SomeD [OF assms(2)] unfolding sched_ok_def by blast

lemma sched_ok_update:
  assumes "sched_ok s" "registration_ok m reg"
  shows "sched_ok (s\<lparr>modules := AList.update m reg (modules s)\<rparr>)"
  using assms by (auto simp: sched_ok_def distinct_keys_update dest!: set_update_subset)

lemma registration_ok_new:
  "module_ID mi \<noteq> [] \<Longrightarrow>
     registration_ok (module_ID mi) \<lparr>reg_collector = c, reg_info = mi, reg_targets = []\<rparr>"
  by (simp add: registration_ok_def)

lemma registration_ok_add:
  assumes "registration_ok m reg"
  shows "registration_ok m (reg\<lparr>reg_targets := AList.update (Canonical t) t (reg_targets reg)\<rparr>)"
  using assms by (auto simp: registration_ok_def distinct_keys_update dest!: set_update_subset)

lemma registration_ok_remove:
  assumes "registration_ok m reg"
  shows "registration_ok m (reg\<lparr>reg_targets := filter (\<lambda>p. fst p \<noteq> c) (reg_targets reg)\<rparr>)"
  using assms by (auto simp: registration_ok_def distinct_map_filter)

lemma sched_ok_New: "sched_ok (sched_New c)"
  by (simp add: sched_ok_def sched_New_def)

lemma sched_ok_Register: "sched_ok s \<Longrightarrow> sched_ok (snd (Register col s))"
  using sched_ok_update [OF _ registration_ok_new, of s "Describe col" col]
  by (simp add: Register_def Let_def split: option.split)

lemma sched_ok_AddTarget: "sched_ok s \<Longrightarrow> sched_ok (fst (snd (AddTarget m raw s w)))"
  using sched_ok_update [OF _ registration_ok_add [OF sched_ok_lookup [of s]], of s]
  by (simp add: AddTarget_def split: option.split prod.split sum.split)

lemma sched_ok_RemoveTarget: "sched_ok s \<Longrightarrow> sched_ok (RemoveTarget m k s)"
  using sched_ok_update [OF _ registration_ok_remove [OF sched_ok_lookup [of s]], of s]
  by (simp add: RemoveTarget_def split: option.split)

definition demo_collector :: "unit collector" where
  "demo_collector =
     \<lparr>Describe = \<lparr>module_ID = ''asm'', module_Name = [], module_Version = [], TargetKind = [],
                   DefaultInterval = hour, ResolveAfter = 2\<rparr>,
      coll_Validate = (\<lambda>raw w. (if raw = [] then Inl ''empty'' else Inr \<lparr>Raw = raw, Canonical = ToLower raw, Meta = []\<rparr>, w)),
      coll_Collect = (\<lambda>t w. (Inr [], w))\<rparr>"

definition demo_sched :: "unit sched" where
  "demo_sched = snd (Register demo_collector (sched_New zero_config))"

lemma registered_update:
  "registered (s\<lparr>modules := AList.update m reg (modules s)\<rparr>) = (registered s)(m := map_of (reg_targets reg))"
  by (simp add: registered_def map_of_update fun_eq_iff)

lemma registered_unknown: "map_of (modules s) m = None \<Longrightarrow> registered s m = Map.empty"
  by (simp add: registered_def)

lemma registered_known: "map_of (modules s) m = Some reg \<Longrightarrow> registered s m = map_of (reg_targets reg)"
  by (simp add: registered_def)

lemma registered_AddTarget:
  assumes "AddTarget m raw s w = (r, s', w', jobs)"
  shows "registered s' =
           (case r of Inl e \<Rightarrow> registered s
                    | Inr t \<Rightarrow> (registered s)(m := (registered s m)(Canonical t \<mapsto> t)))"
  using assms
  by (auto simp: AddTarget_def registered_update registered_known map_of_update
      split: option.splits prod.splits sum.splits)

lemma registered_RemoveTarget:
  "registered (RemoveTarget m k s) = (registered s)(m := (registered s m)(k := None))"
  by (auto simp: RemoveTarget_def registered_update registered_known registered_unknown map_of_delete_key
      fun_eq_iff split: option.splits)

lemma set_ListTargets:
  assumes "sched_ok s"
  shows "set (ListTargets m s) = ran (registered s m) \<and> distinct (map Canonical (ListTargets m s))"
proof (cases "map_of (modules s) m")
  case None
  then show ?thesis by (simp add: ListTargets_def registered_unknown)
next
  case (Some reg)
  then have ok: "registration_ok m reg" using assms by (rule sched_ok_lookup [rotated])
  have "map Canonical (snapshotTargets reg) = map fst (reg_targets reg)"
    using ok by (auto simp: registration_ok_def snapshotTargets_def)
  then have "distinct (map Canonical (snapshotTargets reg))" using ok by (simp add: registration_ok_def)
  moreover have "ran (map_of (reg_targets reg)) = snd ` set (reg_targets reg)"
    using ok by (intro ran_distinct) (simp add: registration_ok_def)
  ultimately show ?thesis
    using Some by (simp add: ListTargets_def registered_known) (simp add: snapshotTargets_def)
qed

text \<open>The module ids in the registry.\<close>

definition known_modules :: "'w sched \<Rightarrow> gostring set" where
  "known_modules s = fst ` set (modules s)"

lemma known_modules_iff: "m \<in> known_modules s \<longleftrightarrow> map_of (modules s) m \<noteq> None"
  by (metis known_modules_def map_of_eq_None_iff)

lemma Register_new:
  assumes "Register col s = (None, s')"
  defines "m \<equiv> module_ID (Describe col)"
  shows "m \<noteq> []" "m \<notin> known_modules s" "known_modules s' = insert m (known_modules s)"
    and "registered s' = registered s" "registered s' m = Map.empty"
    and "map_of (modules s') n =
      (if n = m then Some \<lparr>reg_collector = col, reg_info = Describe col, reg_targets = []\<rparr> else map_of (modules s) n)"
proof -
  have run: "m \<noteq> []" "map_of (modules s) m = None"
    "s' = s\<lparr>modules := AList.update m \<lparr>reg_collector = col, reg_info = Describe col, reg_targets = []\<rparr> (modules s)\<rparr>"
    using assms(1) by (auto simp: Register_def Let_def m_def split: if_splits option.splits)
  show "m \<noteq> []" by (rule run(1))
  show "m \<notin> known_modules s" using run(2) by (simp add: known_modules_iff)
  show look: "map_of (modules s') n =
      (if n = m then Some \<lparr>reg_collector = col, reg_info = Describe col, reg_targets = []\<rparr> else map_of (modules s) n)" for n
    by (simp add: run(3) map_of_update)
  show "known_modules s' = insert m (known_modules s)"
    by (auto simp: known_modules_iff set_eq_iff look)
  show "registered s' = registered s" "registered s' m = Map.empty"
    using run(2) by (simp_all add: run(3) registered_update registered_unknown fun_upd_idem)
qed

lemma Register_effect:
  "(case Register col s of
            (Some e, u) \<Rightarrow> u = s \<and> (module_ID (Describe col) = [] \<or> module_ID (Describe col) \<in> known_modules s)
          | (None, u) \<Rightarrow> module_ID (Describe col) \<noteq> [] \<and> module_ID (Describe col) \<notin> known_modules s
              \<and> known_modules u = insert (module_ID (Describe col)) (known_modules s)
              \<and> registered u = registered s \<and> registered u (module_ID (Describe col)) = Map.empty
              \<and> map_of (modules u) (module_ID (Describe col)) =
                  Some \<lparr>reg_collector = col, reg_info = Describe col, reg_targets = []\<rparr>
              \<and> (\<forall>n. n \<noteq> module_ID (Describe col) \<longrightarrow> map_of (modules u) n = map_of (modules s) n))"
proof (cases "Register col s")
  case (Pair x u)
  show ?thesis
  proof (cases x)
    case None
    with Pair Register_new [OF Pair [unfolded None]] show ?thesis by simp
  next
    case (Some e)
    with Pair show ?thesis
      by (auto simp: Register_def Let_def known_modules_iff split: if_splits option.splits)
  qed
qed

text \<open>
  (C34) The registry behaves as a finite map. \<open>Register\<close> refuses a module without an id and one that is
  registered already, and then changes nothing; otherwise it adds that module, with no target, and
  leaves the others and their targets as they are. \<open>AddTarget\<close> sets the entry of the canonical form of
  a target that the module's collector accepts, and nothing else; a refused input or an unknown module
  changes nothing. \<open>RemoveTarget\<close> clears one entry. A listing is exactly the module's entries, each
  once. A target is scanned at once exactly when it was accepted while the scheduler runs.
\<close>

theorem target_registry_is_map:
  assumes "sched_ok s" "AddTarget m raw s w = (r, s', w', jobs)"
  shows "(case Register col s of
            (Some e, u) \<Rightarrow> u = s \<and> (module_ID (Describe col) = [] \<or> module_ID (Describe col) \<in> known_modules s)
          | (None, u) \<Rightarrow> module_ID (Describe col) \<noteq> [] \<and> module_ID (Describe col) \<notin> known_modules s
              \<and> known_modules u = insert (module_ID (Describe col)) (known_modules s)
              \<and> registered u = registered s \<and> registered u (module_ID (Describe col)) = Map.empty
              \<and> map_of (modules u) (module_ID (Describe col)) =
                  Some \<lparr>reg_collector = col, reg_info = Describe col, reg_targets = []\<rparr>
              \<and> (\<forall>n. n \<noteq> module_ID (Describe col) \<longrightarrow> map_of (modules u) n = map_of (modules s) n))
         \<and> registered s' =
           (case r of Inl e \<Rightarrow> registered s
                    | Inr t \<Rightarrow> (registered s)(m := (registered s m)(Canonical t \<mapsto> t)))
         \<and> known_modules s' = known_modules s
         \<and> (case map_of (modules s) m of
              None \<Rightarrow> r = Inl (''unknown module: '' @ m) \<and> w' = w
            | Some reg \<Rightarrow> coll_Validate (reg_collector reg) raw w = (r, w'))
         \<and> registered (RemoveTarget m k s) = (registered s)(m := (registered s m)(k := None))
         \<and> known_modules (RemoveTarget m k s) = known_modules s
         \<and> set (ListTargets n s) = ran (registered s n) \<and> distinct (map Canonical (ListTargets n s))
         \<and> jobs = (case r of Inl e \<Rightarrow> [] | Inr t \<Rightarrow> if ctx_done s = Some False then [(m, t)] else [])"
proof -
  have started: "started s" if "ctx_done s = Some False" using assms(1) that by (simp add: sched_ok_def)
  have known: "known_modules s' = known_modules s" "known_modules (RemoveTarget m k s) = known_modules s"
    using assms(2)
    by (auto simp: AddTarget_def RemoveTarget_def known_modules_iff map_of_update set_eq_iff
        split: option.splits prod.splits sum.splits if_splits)
  have validated: "case map_of (modules s) m of
          None \<Rightarrow> r = Inl (''unknown module: '' @ m) \<and> w' = w
        | Some reg \<Rightarrow> coll_Validate (reg_collector reg) raw w = (r, w')"
    using assms(2) by (auto simp: AddTarget_def split: option.splits prod.splits sum.splits)
  have jobs: "jobs = (case r of Inl e \<Rightarrow> [] | Inr t \<Rightarrow> if ctx_done s = Some False then [(m, t)] else [])"
    using assms(2) started by (auto simp: AddTarget_def split: option.splits prod.splits sum.splits)
  show ?thesis
    using Register_effect [of col s] registered_AddTarget [OF assms(2)] registered_RemoveTarget [of m k s]
      conjunct1 [OF set_ListTargets [OF assms(1)]] conjunct2 [OF set_ListTargets [OF assms(1)]]
      known validated jobs
    by (intro conjI) assumption+
qed

lemma target_registry_is_map_witness:
  "registered (fst (snd (AddTarget ''asm'' ''A.b'' demo_sched ()))) ''asm'' ''a.b''
     = Some \<lparr>Raw = ''A.b'', Canonical = ''a.b'', Meta = []\<rparr>
   \<and> fst (Register demo_collector demo_sched) \<noteq> None"
proof -
  have low: "ToLower ''A.b'' = ''a.b''" by code_simp
  obtain s' jobs where add: "AddTarget ''asm'' ''A.b'' demo_sched () =
      (Inr \<lparr>Raw = ''A.b'', Canonical = ''a.b'', Meta = []\<rparr>, s', (), jobs)"
    by (cases "AddTarget ''asm'' ''A.b'' demo_sched ()")
      (auto simp: AddTarget_def demo_sched_def Register_def demo_collector_def sched_New_def Let_def
        low)
  have known: "''asm'' \<in> known_modules demo_sched" "module_ID (Describe demo_collector) = ''asm''"
    by (simp_all add: known_modules_def demo_sched_def Register_def demo_collector_def sched_New_def Let_def)
  have "sched_ok demo_sched"
    by (simp add: demo_sched_def Register_def demo_collector_def sched_New_def sched_ok_def Let_def
        registration_ok_def)
  note R = target_registry_is_map [OF this add, of demo_collector]
  have "fst (Register demo_collector demo_sched) \<noteq> None"
    using conjunct1 [OF R] known by (cases "Register demo_collector demo_sched") (auto split: option.splits)
  with R add show ?thesis by simp
qed

subsection \<open>One scan\<close>

record sched_result =
  result_Module :: gostring
  result_Target :: scan_target
  result_Reconcile :: reconcile_result

text \<open>
  \<open>gave_up\<close> is the context's error when it was done before a worker slot came free; otherwise the
  slot is taken and the scan runs. \<open>rec\<close> is the engine: the reconcile result or an error, and the
  state it leaves. The duration of the scan is not kept. The second component is what \<open>OnResult\<close>
  receives, if it is called.
\<close>

definition scanOne ::
  "(module_info \<Rightarrow> gostring \<Rightarrow> finding list \<Rightarrow> 'w \<Rightarrow> (goerror + reconcile_result) \<times> 'w) \<Rightarrow>
   'w registration \<Rightarrow> scan_error option \<Rightarrow> scan_target \<Rightarrow> 'w \<Rightarrow>
   scan_error option \<times> sched_result option \<times> 'w" where
  "scanOne rec reg gave_up t w =
     (case gave_up of
        Some e \<Rightarrow> (Some e, None, w)
      | None \<Rightarrow>
          (case coll_Collect (reg_collector reg) t w of
             (Inl e, w') \<Rightarrow> (Some e, None, w')
           | (Inr found, w') \<Rightarrow>
               (case rec (reg_info reg) (Canonical t) found w' of
                  (Inl e, w'') \<Rightarrow> (Some (ScanFailed e), None, w'')
                | (Inr rr, w'') \<Rightarrow>
                    (None, Some \<lparr>result_Module = module_ID (reg_info reg), result_Target = t,
                                 result_Reconcile = rr\<rparr>, w''))))"

lemma scanOne_reports_iff:
  "scanOne rec reg gave_up t w = (err, rep, w') \<Longrightarrow> err = None \<longleftrightarrow> rep \<noteq> None"
  by (auto simp: scanOne_def split: option.splits sum.splits prod.splits)

lemma scanOne_ok:
  "scanOne rec reg gave_up t w = (None, Some x, w') \<longleftrightarrow>
     gave_up = None \<and>
     (\<exists>found w1. coll_Collect (reg_collector reg) t w = (Inr found, w1)
        \<and> rec (reg_info reg) (Canonical t) found w1 = (Inr (result_Reconcile x), w')
        \<and> result_Module x = module_ID (reg_info reg) \<and> result_Target x = t)"
  by (auto simp: scanOne_def split: option.splits sum.splits prod.splits)

lemma scanOne_collect_error:
  "coll_Collect (reg_collector reg) t w = (Inl e, w1) \<Longrightarrow> scanOne rec reg None t w = (Some e, None, w1)"
  by (simp add: scanOne_def)

subsection \<open>A loop's bookkeeping per target\<close>

text \<open>
  The two maps of a module loop. A missing key of a Go map reads as the zero value, so they are
  total functions that start at zero.
\<close>

record backoff_state =
  failures :: "gostring \<Rightarrow> int"
  nextOK :: "gostring \<Rightarrow> instant"

record scan_error_report =
  err_Module :: gostring
  err_Target :: scan_target
  err_Err :: goerror
  err_Attempt :: int
  err_NextTry :: duration

definition no_failures :: backoff_state where
  "no_failures = \<lparr>failures = (\<lambda>_. 0), nextOK = (\<lambda>_. time_zero)\<rparr>"

definition backing_off :: "instant \<Rightarrow> scan_target \<Rightarrow> backoff_state \<Rightarrow> bool" where
  "backing_off now t b \<longleftrightarrow> now < nextOK b (Canonical t)"

definition record_outcome ::
  "sched_config \<Rightarrow> gostring \<Rightarrow> instant \<Rightarrow> scan_target \<Rightarrow> scan_error option \<Rightarrow> backoff_state \<Rightarrow>
   backoff_state \<times> scan_error_report option" where
  "record_outcome c m now t err b =
     (let k = Canonical t in
      case err of
        Some (ScanFailed e) \<Rightarrow>
          (let b = b\<lparr>failures := (failures b)(k := failures b k + 1)\<rparr>;
               backoff = backoffFor c (failures b k)
           in (b\<lparr>nextOK := (nextOK b)(k := now + backoff)\<rparr>,
               Some \<lparr>err_Module = m, err_Target = t, err_Err = e, err_Attempt = failures b k,
                     err_NextTry = backoff\<rparr>))
      | _ \<Rightarrow> (b\<lparr>failures := (failures b)(k := 0), nextOK := (nextOK b)(k := time_zero)\<rparr>, None))"

text \<open>
  The targets one pass over the snapshot starts a scan for; \<open>clk i\<close> is the clock when the \<open>i\<close>-th
  target is looked at. Results that arrive during the pass are left to \<open>SchedulerRun\<close>.
\<close>

definition sweep_targets :: "(nat \<Rightarrow> instant) \<Rightarrow> backoff_state \<Rightarrow> scan_target list \<Rightarrow> scan_target list" where
  "sweep_targets clk b ts =
     map fst (filter (\<lambda>(t, i). \<not> backing_off (clk i) t b) (zip ts [0..<length ts]))"

lemma record_outcome_frame:
  "k \<noteq> Canonical t \<Longrightarrow> failures (fst (record_outcome c m now t err b)) k = failures b k"
  "k \<noteq> Canonical t \<Longrightarrow> nextOK (fst (record_outcome c m now t err b)) k = nextOK b k"
  by (simp_all add: record_outcome_def Let_def split: option.split scan_error.split)

end
