(* ===== verification/SchedulerRun.thy ===== *)
theory SchedulerRun
  imports Scheduler
begin

section \<open>The running scheduler: loops, workers, cancellation (\<open>sched/scheduler.go\<close>)\<close>

text \<open>
  The concurrent part as a step relation. Every goroutine is visible in the state: the loop of each
  module with the phase it is in, the scans that wait for a worker slot and those that hold one.
  A scan is started by a pass of a loop (\<open>Swept\<close>), by \<open>AddTarget\<close> (\<open>Added\<close>) or by \<open>ScanNow\<close>
  (\<open>Requested\<close>, under the caller's context). What a scan returns is left open, so the facts hold
  for every collector and store. \<open>events\<close> is a history, newest first, that no step reads.

  \<open>internal\<close> steps are the scheduler's own; \<open>external\<close> steps come from outside: the interval timer,
  calls of \<open>AddTarget\<close>, \<open>RemoveTarget\<close>, \<open>ScanNow\<close>, and the cancellation of the context by \<open>Stop\<close> or the
  caller. A loop that enters its \<open>select\<close> after the cancellation finds the context done and its new
  timer not yet fired, so the timer step needs a live context. A scan that holds a slot is assumed
  to return, which is what its timeout is for.
\<close>

datatype job = Swept gostring scan_target | Added gostring scan_target | Requested gostring scan_target

datatype phase = Entering | Sweeping "scan_target list" | Sleeping | Exited

datatype event =
    Launched gostring scan_target instant
  | Errored scan_error_report instant
  | Cleared gostring scan_target instant

record run =
  run_cfg :: sched_config
  loop_ids :: "gostring list"
  loops :: "gostring \<Rightarrow> phase"
  run_targets :: "gostring \<Rightarrow> scan_target list"
  backoffs :: "gostring \<Rightarrow> backoff_state"
  waiting :: "job multiset"
  running :: "job multiset"
  stopped :: bool
  clock :: instant
  events :: "event list"

text \<open>The state right after \<open>Start\<close>: one loop per registered module, about to make its first pass.\<close>

definition run_start :: "'w sched \<Rightarrow> instant \<Rightarrow> run" where
  "run_start s now =
     \<lparr>run_cfg = cfg s, loop_ids = map fst (modules s),
      loops = (\<lambda>m. if m \<in> set (map fst (modules s)) then Entering else Exited),
      run_targets = (\<lambda>m. ListTargets m s), backoffs = (\<lambda>_. no_failures),
      waiting = {#}, running = {#}, stopped = False, clock = now, events = []\<rparr>"

text \<open>What the goroutine of a scan does once \<open>scanOne\<close> has returned.\<close>

definition settle :: "job \<Rightarrow> instant \<Rightarrow> scan_error option \<Rightarrow> run \<Rightarrow> run" where
  "settle j now err s =
     (case j of
        Swept m t \<Rightarrow>
          (let (b, rep) = record_outcome (run_cfg s) m now t err (backoffs s m)
           in s\<lparr>backoffs := (backoffs s)(m := b), clock := now,
                events := (case rep of Some r \<Rightarrow> Errored r now | None \<Rightarrow> Cleared m t now) # events s\<rparr>)
      | _ \<Rightarrow> s\<lparr>clock := now\<rparr>)"

definition may_give_up :: "run \<Rightarrow> job \<Rightarrow> bool" where
  "may_give_up s j \<longleftrightarrow> (case j of Requested _ _ \<Rightarrow> True | _ \<Rightarrow> stopped s)"

inductive internal :: "run \<Rightarrow> run \<Rightarrow> bool" where
  enter: "m \<in> set (loop_ids s) \<Longrightarrow> loops s m = Entering \<Longrightarrow>
     internal s (s\<lparr>loops := (loops s)(m := Sweeping (run_targets s m))\<rparr>)"
| skip: "m \<in> set (loop_ids s) \<Longrightarrow> loops s m = Sweeping (t # ts) \<Longrightarrow> clock s \<le> now \<Longrightarrow>
     backing_off now t (backoffs s m) \<Longrightarrow>
     internal s (s\<lparr>loops := (loops s)(m := Sweeping ts), clock := now\<rparr>)"
| launch: "m \<in> set (loop_ids s) \<Longrightarrow> loops s m = Sweeping (t # ts) \<Longrightarrow> clock s \<le> now \<Longrightarrow>
     \<not> backing_off now t (backoffs s m) \<Longrightarrow>
     internal s (s\<lparr>loops := (loops s)(m := Sweeping ts), clock := now,
                   waiting := add_mset (Swept m t) (waiting s), events := Launched m t now # events s\<rparr>)"
| rest: "m \<in> set (loop_ids s) \<Longrightarrow> loops s m = Sweeping [] \<Longrightarrow>
     internal s (s\<lparr>loops := (loops s)(m := Sleeping)\<rparr>)"
| leave: "m \<in> set (loop_ids s) \<Longrightarrow> loops s m = Sleeping \<Longrightarrow> stopped s \<Longrightarrow>
     internal s (s\<lparr>loops := (loops s)(m := Exited)\<rparr>)"
| acquire: "j \<in># waiting s \<Longrightarrow> int (size (running s)) < Workers (run_cfg s) \<Longrightarrow>
     internal s (s\<lparr>waiting := waiting s - {#j#}, running := add_mset j (running s)\<rparr>)"
| give_up: "j \<in># waiting s \<Longrightarrow> may_give_up s j \<Longrightarrow> clock s \<le> now \<Longrightarrow>
     internal s (settle j now (Some e) (s\<lparr>waiting := waiting s - {#j#}\<rparr>))"
| finish: "j \<in># running s \<Longrightarrow> clock s \<le> now \<Longrightarrow>
     internal s (settle j now err (s\<lparr>running := running s - {#j#}\<rparr>))"

inductive external :: "run \<Rightarrow> run \<Rightarrow> bool" where
  timer: "m \<in> set (loop_ids s) \<Longrightarrow> loops s m = Sleeping \<Longrightarrow> \<not> stopped s \<Longrightarrow> clock s \<le> now \<Longrightarrow>
     external s (s\<lparr>loops := (loops s)(m := Entering), clock := now\<rparr>)"
| retarget: "external s (s\<lparr>run_targets := ts\<rparr>)"
| added: "\<not> stopped s \<Longrightarrow>
     external s (s\<lparr>run_targets := ts, waiting := add_mset (Added m t) (waiting s)\<rparr>)"
| scan_now: "external s (s\<lparr>waiting := waiting s + mset (map (Requested m) (run_targets s m))\<rparr>)"
| stop: "external s (s\<lparr>stopped := True\<rparr>)"

definition sched_step :: "run \<Rightarrow> run \<Rightarrow> bool" where
  "sched_step s s' \<longleftrightarrow> internal s s' \<or> external s s'"

abbreviation sched_reach :: "run \<Rightarrow> run \<Rightarrow> bool" where
  "sched_reach \<equiv> sched_step\<^sup>*\<^sup>*"

lemma settle_simps [simp]:
  "waiting (settle j now err s) = waiting s" "running (settle j now err s) = running s"
  "loops (settle j now err s) = loops s" "loop_ids (settle j now err s) = loop_ids s"
  "run_targets (settle j now err s) = run_targets s" "stopped (settle j now err s) = stopped s"
  "run_cfg (settle j now err s) = run_cfg s" "clock (settle j now err s) = now"
  by (simp_all add: settle_def split: job.split prod.split)

inductive_cases internalE: "internal s s'"
inductive_cases externalE: "external s s'"

text \<open>What no step changes, and what a reachable state keeps.\<close>

lemma sched_step_constant:
  "sched_step s s' \<Longrightarrow> run_cfg s' = run_cfg s \<and> loop_ids s' = loop_ids s"
  by (auto simp: sched_step_def elim!: internalE externalE)

lemma sched_reach_constant:
  "sched_reach s s' \<Longrightarrow> run_cfg s' = run_cfg s \<and> loop_ids s' = loop_ids s"
  by (induction rule: rtranclp_induct) (auto dest: sched_step_constant)

subsection \<open>Worker slots\<close>

lemma sched_step_running:
  assumes "sched_step s s'" "int (size (running s)) \<le> Workers (run_cfg s)"
  shows "int (size (running s')) \<le> Workers (run_cfg s')"
  using assms by (auto simp: sched_step_def size_Diff_singleton_if elim!: internalE externalE)

lemma sched_reach_running:
  assumes "sched_reach s s'" "int (size (running s)) \<le> Workers (run_cfg s)"
  shows "int (size (running s')) \<le> Workers (run_cfg s')"
  using assms by (induction rule: rtranclp_induct) (auto intro: sched_step_running)

text \<open>
  (C13) At most \<open>Workers\<close> collector runs are in progress at any time, over all modules and all kinds
  of scans, in every state the scheduler can reach.
\<close>

theorem workers_bounded:
  assumes "sched_ok sc" "sched_reach (run_start sc now) s"
  shows "int (size (running s)) \<le> Workers (cfg sc)"
proof -
  have "int (size (running (run_start sc now))) \<le> Workers (run_cfg (run_start sc now))"
    using assms(1) by (simp add: run_start_def sched_ok_def config_ok_def)
  from sched_reach_running [OF assms(2) this] sched_reach_constant [OF assms(2)]
  show ?thesis by (simp add: run_start_def)
qed

definition demo_target_of :: "gostring \<Rightarrow> scan_target" where
  "demo_target_of d = \<lparr>Raw = d, Canonical = d, Meta = []\<rparr>"

text \<open>A scheduler with one module and two targets, started at time 0.\<close>

definition demo_running :: "unit sched" where
  "demo_running =
     fst (snd (sched_Start False (fst (snd (AddTarget ''asm'' ''b''
       (fst (snd (AddTarget ''asm'' ''a'' demo_sched ()))) ())))))"

lemma demo_running_ok: "sched_ok demo_running"
proof -
  have "sched_ok demo_sched"
    by (simp add: demo_sched_def Register_def demo_collector_def sched_New_def sched_ok_def Let_def
        registration_ok_def)
  then show ?thesis
    by (simp add: demo_running_def sched_Start_def sched_ok_def AddTarget_def demo_sched_def Register_def
        demo_collector_def sched_New_def Let_def registration_ok_def ToLower_def)
qed

lemma demo_running_targets:
  "ListTargets ''asm'' demo_running = [demo_target_of ''a'', demo_target_of ''b'']"
  "map fst (modules demo_running) = [''asm'']" "cfg demo_running = withDefaults zero_config"
proof -
  have l: "ToLower ''a'' = ''a''" "ToLower ''b'' = ''b''" by code_simp+
  show "ListTargets ''asm'' demo_running = [demo_target_of ''a'', demo_target_of ''b'']"
    "map fst (modules demo_running) = [''asm'']" "cfg demo_running = withDefaults zero_config"
    by (simp_all add: demo_running_def sched_Start_def AddTarget_def demo_sched_def Register_def
        demo_collector_def sched_New_def Let_def ListTargets_def snapshotTargets_def l demo_target_of_def)
qed

text \<open>\<open>ScanNow\<close> is called at once and its first scan gets a slot.\<close>

definition demo_busy :: run where
  "demo_busy = (run_start demo_running 0)
     \<lparr>waiting := {#Requested ''asm'' (demo_target_of ''b'')#},
      running := {#Requested ''asm'' (demo_target_of ''a'')#}\<rparr>"

lemma demo_busy_reach: "sched_reach (run_start demo_running 0) demo_busy"
proof -
  let ?s0 = "run_start demo_running 0"
  let ?s1 = "?s0\<lparr>waiting := waiting ?s0 + mset (map (Requested ''asm'') (run_targets ?s0 ''asm''))\<rparr>"
  have "sched_step ?s0 ?s1" unfolding sched_step_def by (intro disjI2 external.scan_now)
  moreover have "sched_step ?s1 demo_busy"
  proof -
    have "internal ?s1 (?s1\<lparr>waiting := waiting ?s1 - {#Requested ''asm'' (demo_target_of ''a'')#},
        running := add_mset (Requested ''asm'' (demo_target_of ''a'')) (running ?s1)\<rparr>)"
      by (rule internal.acquire)
        (simp_all add: run_start_def demo_running_targets zero_config_def withDefaults_def Let_def)
    then show ?thesis
      by (simp add: sched_step_def demo_busy_def run_start_def demo_running_targets)
  qed
  ultimately show ?thesis by (simp add: converse_rtranclp_into_rtranclp)
qed

lemma workers_bounded_witness:
  "size (running demo_busy) = 1 \<and> int (size (running demo_busy)) \<le> 8"
  using workers_bounded [OF demo_running_ok demo_busy_reach]
  by (simp add: demo_running_targets demo_busy_def zero_config_def withDefaults_def Let_def)

subsection \<open>\<open>Stop\<close>\<close>

text \<open>
  \<open>work\<close> bounds the internal steps still possible: three for each target a loop has yet to look
  at (look, take a slot, return), two for a waiting scan, one for a running one. \<open>quiet\<close> is the
  state in which \<open>Stop\<close>'s wait returns: every loop has left and no scan is in flight.
\<close>

fun phase_weight :: "nat \<Rightarrow> phase \<Rightarrow> nat" where
  "phase_weight n Entering = 3 + 3 * n"
| "phase_weight n (Sweeping ts) = 2 + 3 * length ts"
| "phase_weight n Sleeping = 1"
| "phase_weight n Exited = 0"

definition phase_work :: "run \<Rightarrow> gostring \<Rightarrow> nat" where
  "phase_work s m = phase_weight (length (run_targets s m)) (loops s m)"

definition work :: "run \<Rightarrow> nat" where
  "work s = (\<Sum>m \<in> set (loop_ids s). phase_work s m) + 2 * size (waiting s) + size (running s)"

definition quiet :: "run \<Rightarrow> bool" where
  "quiet s \<longleftrightarrow> waiting s = {#} \<and> running s = {#} \<and> (\<forall>m \<in> set (loop_ids s). loops s m = Exited)"

lemma sum_decreases:
  assumes "finite A" "m \<in> A" "\<And>x. x \<in> A \<Longrightarrow> x \<noteq> m \<Longrightarrow> g x = f x" "g m + k < f m"
  shows "(\<Sum>x \<in> A. g x) + k < (\<Sum>x \<in> A. (f x :: nat))"
proof -
  have "(\<Sum>x \<in> A. g x) = g m + (\<Sum>x \<in> A - {m}. f x)"
    using assms(3) by (simp add: sum.remove [OF assms(1,2)])
  moreover have "(\<Sum>x \<in> A. f x) = f m + (\<Sum>x \<in> A - {m}. f x)"
    by (rule sum.remove [OF assms(1,2)])
  ultimately show ?thesis using assms(4) by simp
qed

lemma loop_step_work:
  assumes "m \<in> set (loop_ids s)" "loop_ids s' = loop_ids s" "loops s' = (loops s)(m := p)"
    "run_targets s' = run_targets s" "phase_work s' m + 2 * k < phase_work s m"
    "size (waiting s') = size (waiting s) + k" "running s' = running s"
  shows "work s' < work s"
proof -
  have "(\<Sum>m \<in> set (loop_ids s). phase_work s' m) + 2 * k < (\<Sum>m \<in> set (loop_ids s). phase_work s m)"
    using assms(1) by (rule sum_decreases [rotated]) (use assms in \<open>auto simp: phase_work_def\<close>)
  then show ?thesis using assms by (simp add: work_def)
qed

lemma size_pos: "j \<in># M \<Longrightarrow> 0 < size M"
  by (cases M) auto

lemma internal_work: "internal s s' \<Longrightarrow> work s' < work s"
proof (induction rule: internal.induct)
  case (enter m s)
  then show ?case by (intro loop_step_work [where m = m and k = 0]) (simp_all add: phase_work_def)
next
  case (skip m s t ts now)
  then show ?case by (intro loop_step_work [where m = m and k = 0]) (simp_all add: phase_work_def)
next
  case (launch m s t ts now)
  then show ?case by (intro loop_step_work [where m = m and k = 1]) (simp_all add: phase_work_def)
next
  case (rest m s)
  then show ?case by (intro loop_step_work [where m = m and k = 0]) (simp_all add: phase_work_def)
next
  case (leave m s)
  then show ?case by (intro loop_step_work [where m = m and k = 0]) (simp_all add: phase_work_def)
next
  case (acquire j s)
  then have "0 < size (waiting s)" by (intro size_pos)
  with acquire show ?case by (simp add: work_def phase_work_def size_Diff_singleton)
next
  case (give_up j s now e)
  then have "0 < size (waiting s)" by (intro size_pos)
  with give_up show ?case by (simp add: work_def phase_work_def size_Diff_singleton)
next
  case (finish j s now err)
  then have "0 < size (running s)" by (intro size_pos)
  with finish show ?case by (simp add: work_def phase_work_def size_Diff_singleton)
qed

lemma internal_stopped: "internal s s' \<Longrightarrow> stopped s' = stopped s"
  by (auto elim!: internalE)

lemma internal_constant: "internal s s' \<Longrightarrow> run_cfg s' = run_cfg s \<and> loop_ids s' = loop_ids s"
  by (simp add: sched_step_constant sched_step_def)

text \<open>Once the context is done, something can always move until everything has come to rest.\<close>

lemma internal_progress:
  assumes "stopped s" "0 < Workers (run_cfg s)" "\<not> quiet s"
  shows "\<exists>s'. internal s s'"
proof (cases "\<exists>m \<in> set (loop_ids s). loops s m \<noteq> Exited")
  case True
  then obtain m where m: "m \<in> set (loop_ids s)" "loops s m \<noteq> Exited" by blast
  show ?thesis
  proof (cases "loops s m")
    case Entering
    with m show ?thesis by (blast intro: internal.enter)
  next
    case (Sweeping ts)
    then show ?thesis
      by (cases ts) (use m in \<open>blast intro: internal.skip internal.launch internal.rest order.refl\<close>)+
  next
    case Sleeping
    with m assms(1) show ?thesis by (blast intro: internal.leave)
  next
    case Exited
    with m show ?thesis by simp
  qed
next
  case False
  show ?thesis
  proof (cases "running s = {#}")
    case False
    then obtain j where "j \<in># running s" by blast
    then show ?thesis by (blast intro: internal.finish order.refl)
  next
    case True
    with assms(3) \<open>\<not> (\<exists>m \<in> set (loop_ids s). loops s m \<noteq> Exited)\<close> obtain j where "j \<in># waiting s"
      by (auto simp: quiet_def)
    moreover have "int (size (running s)) < Workers (run_cfg s)" using True assms(2) by simp
    ultimately show ?thesis by (blast intro: internal.acquire)
  qed
qed

lemma internal_steps_bound: "(internal ^^ n) s s' \<Longrightarrow> n + work s' \<le> work s"
proof (induction n arbitrary: s')
  case (Suc n)
  then obtain u where "(internal ^^ n) s u" "internal u s'" by (auto elim: relcomppE)
  with Suc.IH [of u] internal_work [of u s'] show ?case by simp
qed simp

lemma internal_star_keeps:
  "internal\<^sup>*\<^sup>* s s' \<Longrightarrow> stopped s' = stopped s \<and> run_cfg s' = run_cfg s \<and> loop_ids s' = loop_ids s"
  by (induction rule: rtranclp_induct) (auto dest: internal_stopped internal_constant)

lemma reaches_quiet:
  assumes "stopped s" "0 < Workers (run_cfg s)"
  shows "\<exists>s'. internal\<^sup>*\<^sup>* s s' \<and> quiet s'"
  using assms
proof (induction "work s" arbitrary: s rule: less_induct)
  case less
  show ?case
  proof (cases "quiet s")
    case False
    then obtain u where u: "internal s u" using internal_progress less.prems by blast
    have "stopped u" "0 < Workers (run_cfg u)"
      using internal_stopped [OF u] internal_constant [OF u] less.prems by simp_all
    with less.hyps [OF internal_work [OF u]] obtain s' where "internal\<^sup>*\<^sup>* u s'" "quiet s'" by blast
    with u show ?thesis by (blast intro: converse_rtranclp_into_rtranclp)
  qed blast
qed

text \<open>
  (C14) \<open>Stop\<close> terminates. In any state the scheduler reaches, once its context is done, no more
  than \<open>work s\<close> steps remain, whatever order the goroutines run in and whatever the scans return;
  the only states in which nothing can move are those where every loop has left and no scan waits
  or runs; and such a state is reached. So the wait of \<open>Stop\<close> ends.
\<close>

theorem stop_terminates:
  assumes "sched_ok sc" "sched_reach (run_start sc now) s" "stopped s"
  shows "(\<forall>n s'. (internal ^^ n) s s' \<longrightarrow> n \<le> work s)
         \<and> (\<forall>s'. internal\<^sup>*\<^sup>* s s' \<and> (\<nexists>u. internal s' u) \<longrightarrow> quiet s')
         \<and> (\<exists>s'. internal\<^sup>*\<^sup>* s s' \<and> quiet s')"
proof (intro conjI allI impI)
  have w: "0 < Workers (run_cfg s)"
    using assms(1) sched_reach_constant [OF assms(2)] by (simp add: run_start_def sched_ok_def config_ok_def)
  show "n \<le> work s" if "(internal ^^ n) s s'" for n s' using internal_steps_bound [OF that] by simp
  show "\<exists>s'. internal\<^sup>*\<^sup>* s s' \<and> quiet s'" by (rule reaches_quiet [OF assms(3) w])
  show "quiet s'" if "internal\<^sup>*\<^sup>* s s' \<and> (\<nexists>u. internal s' u)" for s'
    using that internal_star_keeps [of s s'] internal_progress [of s'] assms(3) w by auto
qed

lemma stop_terminates_witness:
  "work (demo_busy\<lparr>stopped := True\<rparr>) = 12
   \<and> (\<exists>s'. internal\<^sup>*\<^sup>* (demo_busy\<lparr>stopped := True\<rparr>) s' \<and> quiet s')"
proof
  have "sched_step demo_busy (demo_busy\<lparr>stopped := True\<rparr>)"
    unfolding sched_step_def by (intro disjI2 external.stop)
  with demo_busy_reach have "sched_reach (run_start demo_running 0) (demo_busy\<lparr>stopped := True\<rparr>)"
    by (rule rtranclp.rtrancl_into_rtrancl)
  from stop_terminates [OF demo_running_ok this]
  show "\<exists>s'. internal\<^sup>*\<^sup>* (demo_busy\<lparr>stopped := True\<rparr>) s' \<and> quiet s'" by simp
  show "work (demo_busy\<lparr>stopped := True\<rparr>) = 12"
    by (simp add: work_def phase_work_def demo_busy_def run_start_def demo_running_targets)
qed

subsection \<open>Backoff over a history\<close>

text \<open>
  Reading the history: the consecutive failures of a target since its last cleared scan, and the
  time before which the last failure holds it back.
\<close>

definition about :: "gostring \<Rightarrow> gostring \<Rightarrow> gostring \<Rightarrow> scan_target \<Rightarrow> bool" where
  "about m k m' t \<longleftrightarrow> m' = m \<and> Canonical t = k"

fun outcome_of :: "gostring \<Rightarrow> gostring \<Rightarrow> event \<Rightarrow> bool" where
  "outcome_of m k (Launched _ _ _) = False"
| "outcome_of m k (Errored r _) = about m k (err_Module r) (err_Target r)"
| "outcome_of m k (Cleared m' t _) = about m k m' t"

fun streak :: "event list \<Rightarrow> gostring \<Rightarrow> gostring \<Rightarrow> int" where
  "streak [] m k = 0"
| "streak (Launched _ _ _ # es) m k = streak es m k"
| "streak (Errored r _ # es) m k =
     (if about m k (err_Module r) (err_Target r) then streak es m k + 1 else streak es m k)"
| "streak (Cleared m' t _ # es) m k = (if about m k m' t then 0 else streak es m k)"

fun gate :: "event list \<Rightarrow> gostring \<Rightarrow> gostring \<Rightarrow> instant" where
  "gate [] m k = time_zero"
| "gate (Launched _ _ _ # es) m k = gate es m k"
| "gate (Errored r w # es) m k =
     (if about m k (err_Module r) (err_Target r) then w + err_NextTry r else gate es m k)"
| "gate (Cleared m' t _ # es) m k = (if about m k m' t then time_zero else gate es m k)"

fun history_sound :: "sched_config \<Rightarrow> event list \<Rightarrow> bool" where
  "history_sound c [] = True"
| "history_sound c (Launched m t now # es) \<longleftrightarrow> gate es m (Canonical t) \<le> now \<and> history_sound c es"
| "history_sound c (Errored r w # es) \<longleftrightarrow>
     err_Attempt r = streak es (err_Module r) (Canonical (err_Target r)) + 1
     \<and> err_NextTry r = backoffFor c (err_Attempt r) \<and> history_sound c es"
| "history_sound c (Cleared m t now # es) \<longleftrightarrow> history_sound c es"

definition backoff_matches :: "run \<Rightarrow> bool" where
  "backoff_matches s \<longleftrightarrow>
     (\<forall>m k. failures (backoffs s m) k = streak (events s) m k \<and> nextOK (backoffs s m) k = gate (events s) m k)
     \<and> history_sound (run_cfg s) (events s)"

lemma streak_nonneg: "0 \<le> streak es m k"
  by (induction es m k rule: streak.induct) auto

lemma history_sound_append: "history_sound c (xs @ ys) \<Longrightarrow> history_sound c ys"
  by (induction c xs rule: history_sound.induct) auto

lemma gate_unaffected:
  "\<forall>e \<in> set xs. \<not> outcome_of m k e \<Longrightarrow> gate (xs @ ys) m k = gate ys m k"
  by (induction xs m k rule: gate.induct) auto

lemma backoff_matches_settle:
  assumes "backoff_matches s"
  shows "backoff_matches (settle j now err s)"
proof (cases j)
  case (Swept m t)
  let ?n = "failures (backoffs s m) (Canonical t) + 1"
  show ?thesis
  proof (cases "\<exists>e. err = Some (ScanFailed e)")
    case True
    then obtain e where "err = Some (ScanFailed e)" by blast
    with assms Swept show ?thesis
      by (auto simp: backoff_matches_def settle_def record_outcome_def Let_def about_def)
  next
    case False
    then have "record_outcome (run_cfg s) m now t err (backoffs s m) =
        ((backoffs s m)\<lparr>failures := (failures (backoffs s m))(Canonical t := 0),
                         nextOK := (nextOK (backoffs s m))(Canonical t := time_zero)\<rparr>, None)"
      by (auto simp: record_outcome_def Let_def split: option.split scan_error.split)
    with assms Swept show ?thesis by (auto simp: backoff_matches_def settle_def about_def)
  qed
qed (use assms in \<open>simp_all add: settle_def backoff_matches_def\<close>)

lemma backoff_matches_cong:
  "backoffs s' = backoffs s \<Longrightarrow> events s' = events s \<Longrightarrow> run_cfg s' = run_cfg s \<Longrightarrow>
     backoff_matches s' = backoff_matches s"
  by (simp add: backoff_matches_def)

lemma sched_step_matches:
  assumes "sched_step s s'" "backoff_matches s"
  shows "backoff_matches s'"
proof -
  have "backoff_matches s'" if "external s s'"
    using that assms(2) by (elim externalE) (simp_all add: backoff_matches_def)
  moreover have "backoff_matches s'" if "internal s s'"
    using that
  proof cases
    case (launch m t ts now)
    then show ?thesis using assms(2) by (simp add: backoff_matches_def backing_off_def)
  next
    case (give_up j now e)
    then show ?thesis
      using backoff_matches_settle [of "s\<lparr>waiting := waiting s - {#j#}\<rparr>" j now "Some e"] assms(2)
      by (simp add: backoff_matches_def)
  next
    case (finish j now err)
    then show ?thesis
      using backoff_matches_settle [of "s\<lparr>running := running s - {#j#}\<rparr>" j now err] assms(2)
      by (simp add: backoff_matches_def)
  qed (use assms(2) in \<open>simp_all add: backoff_matches_def\<close>)
  ultimately show ?thesis using assms(1) by (auto simp: sched_step_def)
qed

lemma sched_reach_matches:
  assumes "sched_reach (run_start sc now) s"
  shows "backoff_matches s"
  using assms
proof (induction rule: rtranclp_induct)
  case base
  then show ?case by (simp add: run_start_def backoff_matches_def no_failures_def)
qed (auto intro: sched_step_matches)

text \<open>
  (C12) No scan before its time. Take any history the scheduler can produce and a failed scan in it
  with no later result for the same target of the same module: the reported attempt number counts
  the consecutive failures, the reported delay is the backoff for that number, and every later scan
  a loop launched for that target came no earlier than the failure plus that delay. A launch of a
  target with no result yet, or whose last result was not a failure, is not constrained by the
  failures of any other target: nothing but its own gate is read.
\<close>

theorem backoff_respected:
  assumes "sched_reach (run_start sc start) s"
    and "events s = later @ Launched m t now # between @ Errored r w # earlier"
    and "err_Module r = m" "Canonical (err_Target r) = Canonical t"
    and "\<forall>e \<in> set between. \<not> outcome_of m (Canonical t) e"
  shows "w + err_NextTry r \<le> now
         \<and> err_NextTry r = backoffFor (cfg sc) (err_Attempt r)
         \<and> err_Attempt r = streak earlier m (Canonical t) + 1 \<and> 1 \<le> err_Attempt r"
proof -
  have "history_sound (cfg sc) (events s)"
    using sched_reach_matches [OF assms(1)] sched_reach_constant [OF assms(1)]
    by (simp add: backoff_matches_def run_start_def)
  then have launch: "history_sound (cfg sc) (Launched m t now # between @ Errored r w # earlier)"
    unfolding assms(2) by (rule history_sound_append)
  then have "history_sound (cfg sc) (between @ Errored r w # earlier)" by simp
  then have failed: "history_sound (cfg sc) (Errored r w # earlier)" by (rule history_sound_append)
  have "gate (between @ Errored r w # earlier) m (Canonical t) = w + err_NextTry r"
    using assms(3-5) by (simp add: gate_unaffected about_def)
  with launch failed assms(3,4) streak_nonneg [of earlier m "Canonical t"] show ?thesis by simp
qed

text \<open>A sample history: a scan of \<open>a\<close> fails at once and is launched again by the pass an hour later.\<close>

lemma demo_retry_history:
  obtains s r where "sched_reach (run_start demo_running 0) s"
    "events s = [Launched ''asm'' (demo_target_of ''a'') hour, Errored r 0, Launched ''asm'' (demo_target_of ''a'') 0]"
    "err_Module r = ''asm''" "err_Target r = demo_target_of ''a''"
proof -
  let ?m = "''asm''" and ?t = "demo_target_of ''a''"
  define s0 where "s0 = run_start demo_running 0"
  define s1 where "s1 = s0\<lparr>run_targets := (\<lambda>_. [?t])\<rparr>"
  define s2 where "s2 = s1\<lparr>loops := (loops s1)(?m := Sweeping (run_targets s1 ?m))\<rparr>"
  define s3 where "s3 = s2\<lparr>loops := (loops s2)(?m := Sweeping []), clock := 0,
      waiting := add_mset (Swept ?m ?t) (waiting s2), events := Launched ?m ?t 0 # events s2\<rparr>"
  define s4 where "s4 = s3\<lparr>waiting := waiting s3 - {#Swept ?m ?t#}, running := add_mset (Swept ?m ?t) (running s3)\<rparr>"
  define s5 where "s5 = settle (Swept ?m ?t) 0 (Some (ScanFailed ''e'')) (s4\<lparr>running := running s4 - {#Swept ?m ?t#}\<rparr>)"
  define s6 where "s6 = s5\<lparr>loops := (loops s5)(?m := Sleeping)\<rparr>"
  define s7 where "s7 = s6\<lparr>loops := (loops s6)(?m := Entering), clock := hour\<rparr>"
  define s8 where "s8 = s7\<lparr>loops := (loops s7)(?m := Sweeping (run_targets s7 ?m))\<rparr>"
  define s9 where "s9 = s8\<lparr>loops := (loops s8)(?m := Sweeping []), clock := hour,
      waiting := add_mset (Swept ?m ?t) (waiting s8), events := Launched ?m ?t hour # events s8\<rparr>"
  note defs = s1_def s2_def s3_def s4_def s5_def s6_def s7_def s8_def s9_def
  have f0: "loop_ids s0 = [?m]" "loops s0 ?m = Entering" "run_cfg s0 = withDefaults zero_config"
    "waiting s0 = {#}" "running s0 = {#}" "events s0 = []" "clock s0 = 0" "\<not> stopped s0"
    "backoffs s0 = (\<lambda>_. no_failures)"
    by (simp_all add: s0_def run_start_def demo_running_targets)
  have b: "backoffFor (withDefaults zero_config) 1 = 30 * second"
    by (simp add: backoffFor_def withDefaults_def zero_config_def Let_def)
  have f5: "nextOK (backoffs s5 ?m) ''a'' = 30 * second" "clock s5 = 0" "run_targets s5 = (\<lambda>_. [?t])"
    "stopped s5 = stopped s0" "loop_ids s5 = [?m]" "loops s5 ?m = Sweeping []"
    using b by (simp_all add: defs f0 settle_def record_outcome_def Let_def demo_target_of_def no_failures_def)
  obtain r where ev: "events s9 = [Launched ?m ?t hour, Errored r 0, Launched ?m ?t 0]"
    and r: "err_Module r = ?m" "err_Target r = ?t"
    by (simp add: defs f0 settle_def record_outcome_def Let_def)
  have z: "\<not> 0 < time_zero" by (simp add: time_zero_def)
  have "sched_step s0 s1" unfolding sched_step_def s1_def by (intro disjI2 external.retarget)
  moreover have "sched_step s1 s2" unfolding sched_step_def s2_def
    by (intro disjI1 internal.enter) (simp_all add: s1_def f0)
  moreover have "sched_step s2 s3" unfolding sched_step_def s3_def
    by (intro disjI1 internal.launch) (simp_all add: s1_def s2_def f0 backing_off_def no_failures_def z)
  moreover have "sched_step s3 s4" unfolding sched_step_def s4_def
    by (intro disjI1 internal.acquire)
      (simp_all add: s1_def s2_def s3_def f0 withDefaults_def zero_config_def Let_def)
  moreover have "sched_step s4 s5" unfolding sched_step_def s5_def
    by (intro disjI1 internal.finish) (simp_all add: s1_def s2_def s3_def s4_def f0)
  moreover have "sched_step s5 s6" unfolding sched_step_def s6_def
    by (intro disjI1 internal.rest) (simp_all add: f5)
  moreover have "sched_step s6 s7" unfolding sched_step_def s7_def
    by (intro disjI2 external.timer) (simp_all add: s6_def f5 f0)
  moreover have "sched_step s7 s8" unfolding sched_step_def s8_def
    by (intro disjI1 internal.enter) (simp_all add: s6_def s7_def f5)
  moreover have "sched_step s8 s9" unfolding sched_step_def s9_def
    by (intro disjI1 internal.launch)
      (simp_all add: s6_def s7_def s8_def f5 backing_off_def demo_target_of_def)
  ultimately have "sched_reach s0 s9" by (meson converse_rtranclp_into_rtranclp rtranclp.rtrancl_refl)
  from that [OF this [unfolded s0_def] ev r] show thesis .
qed

lemma backoff_respected_witness: "0 + 30 * second \<le> hour \<and>
   (\<exists>s r. sched_reach (run_start demo_running 0) s \<and> Errored r 0 \<in> set (events s)
      \<and> err_Attempt r = 1 \<and> 0 + err_NextTry r \<le> hour)"
proof
  obtain s r where s: "sched_reach (run_start demo_running 0) s"
    "events s = [] @ Launched ''asm'' (demo_target_of ''a'') hour # [] @ Errored r 0 #
                [Launched ''asm'' (demo_target_of ''a'') 0]"
    "err_Module r = ''asm''" "err_Target r = demo_target_of ''a''"
    using demo_retry_history by (metis append_Nil)
  from backoff_respected [OF s(1,2,3)] s(4)
  have "0 + err_NextTry r \<le> hour" "err_Attempt r = 1" by auto
  with s show "\<exists>s r. sched_reach (run_start demo_running 0) s \<and> Errored r 0 \<in> set (events s)
      \<and> err_Attempt r = 1 \<and> 0 + err_NextTry r \<le> hour" by auto
qed simp

end
