(* ===== verification/Dispatcher.thy ===== *)
theory Dispatcher
  imports SchedulerRun
begin

section \<open>The notification dispatcher (\<open>notify/notify.go\<close>, \<open>notify/bridge.go\<close>)\<close>

text \<open>
  The dispatcher batches finding transitions, removes duplicates within a batch, and hands one
  digest per module to every channel. The mutex makes each operation atomic, so an operation is a
  function on the dispatcher's state; it returns the digests it hands to the channels, in order.
  The window timer is a flag: armed or not. The map of pending events is an association list, its
  order the order in which \<open>range\<close> visits it.
\<close>

subsection \<open>Events, digests, configuration\<close>

definition KindOpened :: gostring where "KindOpened = ''opened''"
definition KindResolved :: gostring where "KindResolved = ''resolved''"

record notification =
  n_Kind :: gostring
  n_Module :: gostring
  n_Finding :: finding

record digest =
  d_Module :: gostring
  d_Opened :: "finding list"
  d_Resolved :: "finding list"
  d_At :: instant

definition digest_Empty :: "digest \<Rightarrow> bool" where
  "digest_Empty d \<longleftrightarrow> length (d_Opened d) = 0 \<and> length (d_Resolved d) = 0"

record notify_config =
  FlushInterval :: duration
  MaxBatch :: int
  MinSeverity :: severity
  Retries :: int
  RetryDelay :: duration

definition notify_withDefaults :: "notify_config \<Rightarrow> notify_config" where
  "notify_withDefaults c =
     (let c = (if FlushInterval c \<le> 0 then c\<lparr>FlushInterval := 30 * second\<rparr> else c);
          c = (if MaxBatch c \<le> 0 then c\<lparr>MaxBatch := 100\<rparr> else c);
          c = (if Retries c \<le> 0 then c\<lparr>Retries := 3\<rparr> else c)
      in (if RetryDelay c \<le> 0 then c\<lparr>RetryDelay := 5 * second\<rparr> else c))"

lemma notify_withDefaults_pos [simp]:
  "0 < FlushInterval (notify_withDefaults c)" "0 < MaxBatch (notify_withDefaults c)"
  "0 < Retries (notify_withDefaults c)" "0 < RetryDelay (notify_withDefaults c)"
  by (simp_all add: notify_withDefaults_def Let_def)

subsection \<open>Ordering by severity\<close>

definition severityRank :: "severity \<Rightarrow> int" where
  "severityRank s =
     (if s = SeverityCritical then 4
      else if s = SeverityHigh then 3
      else if s = SeverityMedium then 2
      else if s = SeverityLow then 1
      else 0)"

text \<open>The inner loop of the insertion sort: swap the element at \<open>j\<close> down while it outranks its neighbour.\<close>

fun sift_down :: "nat \<Rightarrow> finding list \<Rightarrow> finding list" where
  "sift_down 0 fs = fs"
| "sift_down (Suc j) fs =
     (if severityRank (severity (fs ! Suc j)) > severityRank (severity (fs ! j))
      then sift_down j (fs[Suc j := fs ! j, j := fs ! Suc j]) else fs)"

definition sortBySeverity :: "finding list \<Rightarrow> finding list" where
  "sortBySeverity fs = fold sift_down [1..<length fs] fs"

definition sev_key :: "finding \<Rightarrow> int" where
  "sev_key f = - severityRank (severity f)"

text \<open>One round of the sort inserts the element after those that do not rank below it.\<close>

lemma sift_down_inserts:
  assumes "sorted (map sev_key xs)"
  shows "sift_down (length xs) (xs @ x # ys) =
           takeWhile (\<lambda>y. sev_key y \<le> sev_key x) xs @ x # dropWhile (\<lambda>y. sev_key y \<le> sev_key x) xs @ ys"
  using assms
proof (induction xs arbitrary: ys rule: rev_induct)
  case Nil
  then show ?case by simp
next
  case (snoc y xs)
  then have sorted: "sorted (map sev_key xs)" and le: "\<forall>z \<in> set xs. sev_key z \<le> sev_key y"
    by (auto simp: sorted_append)
  have nth: "((xs @ [y]) @ x # ys) ! Suc (length xs) = x" "((xs @ [y]) @ x # ys) ! length xs = y"
    by (simp_all add: nth_append)
  have swap: "((xs @ [y]) @ x # ys)[Suc (length xs) := y, length xs := x] = xs @ x # y # ys"
    by (simp add: list_update_append)
  show ?case
  proof (cases "sev_key y \<le> sev_key x")
    case True
    then have "\<forall>z \<in> set xs. sev_key z \<le> sev_key x" using le by force
    with True show ?thesis
      using nth by (simp add: sev_key_def takeWhile_append dropWhile_append)
  next
    case False
    then have "sift_down (length (xs @ [y])) ((xs @ [y]) @ x # ys) = sift_down (length xs) (xs @ x # y # ys)"
      using nth swap by (simp add: sev_key_def)
    also have "\<dots> = takeWhile (\<lambda>z. sev_key z \<le> sev_key x) xs @ x #
        dropWhile (\<lambda>z. sev_key z \<le> sev_key x) xs @ y # ys"
      by (rule snoc.IH [OF sorted])
    also have "\<dots> = takeWhile (\<lambda>z. sev_key z \<le> sev_key x) (xs @ [y]) @ x #
        dropWhile (\<lambda>z. sev_key z \<le> sev_key x) (xs @ [y]) @ ys"
      using False by (auto simp: takeWhile_append dropWhile_append dropWhile_eq_Nil_conv)
    finally show ?thesis .
  qed
qed

lemma sorted_take_drop:
  assumes "sorted (map f xs)" "z \<in> set (dropWhile (\<lambda>y. f y \<le> f x) xs)"
  shows "\<not> f z \<le> (f x :: 'b :: linorder)"
  using assms
proof (induction xs)
  case (Cons y ys)
  show ?case
  proof (cases "f y \<le> f x")
    case False
    then have "z \<in> set (y # ys)" using Cons.prems by simp
    with Cons.prems(1) have "f y \<le> f z" by auto
    with False show ?thesis by simp
  qed (use Cons in simp)
qed simp

lemma sorted_insert_between:
  assumes "sorted (map f ts @ map f ds)" "\<And>z. z \<in> set ts \<Longrightarrow> f z \<le> f x"
    "\<And>z. z \<in> set ds \<Longrightarrow> \<not> f z \<le> (f x :: 'b :: linorder)"
  shows "sorted (map f (ts @ x # ds))"
proof -
  have "sorted (map f ts)" "sorted (map f ds)" using assms(1) by (simp_all add: sorted_append)
  moreover have "\<forall>z \<in> set ds. f x \<le> f z" using assms(3) by (simp add: linear not_le less_imp_le)
  moreover have "\<forall>y \<in> set ts. \<forall>z \<in> set ds. f y \<le> f z" using assms(1) by (auto simp: sorted_append)
  ultimately show ?thesis using assms(2) by (simp add: sorted_append)
qed

lemma sort_key_snoc:
  "sort_key f (xs @ [x]) =
     takeWhile (\<lambda>y. f y \<le> f x) (sort_key f xs) @ x # dropWhile (\<lambda>y. f y \<le> f x) (sort_key f xs)"
proof -
  define ts where "ts = takeWhile (\<lambda>y. f y \<le> f x) (sort_key f xs)"
  define ds where "ds = dropWhile (\<lambda>y. f y \<le> f x) (sort_key f xs)"
  have s: "ts @ ds = sort_key f xs" by (simp add: ts_def ds_def)
  have t: "\<And>z. z \<in> set ts \<Longrightarrow> f z \<le> f x" unfolding ts_def by (blast dest: set_takeWhileD)
  have d: "\<And>z. z \<in> set ds \<Longrightarrow> \<not> f z \<le> f x"
    unfolding ds_def by (rule sorted_take_drop [OF sorted_sort_key])
  have "sorted (map f ts @ map f ds)" using sorted_sort_key [of f xs] unfolding s [symmetric] by simp
  then have sorted: "sorted (map f (ts @ x # ds))" using t d by (rule sorted_insert_between)
  have stable: "filter (\<lambda>y. f k = f y) (ts @ x # ds) = filter (\<lambda>y. f k = f y) (xs @ [x])" for k
  proof -
    have "(\<lambda>y. f k = f y) = (\<lambda>y. f y = f k)" by auto
    then have "filter (\<lambda>y. f k = f y) (ts @ ds) = filter (\<lambda>y. f k = f y) xs"
      unfolding s by (simp add: sort_key_stable)
    moreover have "filter (\<lambda>y. f k = f y) ds = []" if "f k = f x"
      using that d unfolding filter_empty_conv by (metis order.refl)
    ultimately show ?thesis by (cases "f k = f x") auto
  qed
  have "mset (ts @ ds) = mset xs" unfolding s by simp
  then have "mset (ts @ x # ds) = mset (xs @ [x])" by simp
  from properties_for_sort_key [OF this stable sorted] show ?thesis by (simp add: ts_def ds_def)
qed

lemma sortBySeverity_upto:
  "k \<le> length fs \<Longrightarrow> 1 \<le> k \<Longrightarrow>
     fold sift_down [1..<k] fs = sort_key sev_key (take k fs) @ drop k fs"
proof (induction k)
  case (Suc k)
  show ?case
  proof (cases "k = 0")
    case True
    with Suc.prems show ?thesis by (cases fs) simp_all
  next
    case False
    let ?s = "sort_key sev_key (take k fs)"
    have dr: "drop k fs = fs ! k # drop (Suc k) fs" using Suc.prems by (simp add: Cons_nth_drop_Suc)
    have len: "length ?s = k" using Suc.prems by simp
    have "fold sift_down [1..<Suc k] fs = sift_down k (?s @ fs ! k # drop (Suc k) fs)"
      using Suc False by (simp add: dr)
    also have "\<dots> = sort_key sev_key (take k fs @ [fs ! k]) @ drop (Suc k) fs"
      using sift_down_inserts [of ?s "fs ! k" "drop (Suc k) fs"] len by (simp add: sort_key_snoc)
    finally show ?thesis using Suc.prems by (simp add: take_Suc_conv_app_nth)
  qed
qed simp

text \<open>
  (C38) The insertion sort of a digest is the stable sort by descending severity: the same findings,
  most severe first, and in their order of arrival within a severity.
\<close>

theorem sortBySeverity_stable:
  "sortBySeverity fs = sort_key sev_key fs"
  using sortBySeverity_upto [of "length fs" fs] by (cases fs) (simp_all add: sortBySeverity_def)

subsection \<open>The dispatcher's operations\<close>

record dispatcher =
  dcfg :: notify_config
  pending :: "(gostring \<times> notification list) list"
  dseen :: "gostring list"
  timer :: bool
  closed :: bool

definition NewDispatcher :: "notify_config \<Rightarrow> dispatcher" where
  "NewDispatcher c = \<lparr>dcfg = notify_withDefaults c, pending = [], dseen = [], timer = False, closed = False\<rparr>"

definition passesSeverity :: "dispatcher \<Rightarrow> severity \<Rightarrow> bool" where
  "passesSeverity d s =
     (if MinSeverity (dcfg d) = [] then True
      else severityRank s \<ge> severityRank (MinSeverity (dcfg d)))"

fun digest_events :: "notification list \<Rightarrow> digest \<Rightarrow> digest" where
  "digest_events [] dg = dg"
| "digest_events (e # es) dg =
     digest_events es
       (if n_Kind e = KindOpened then dg\<lparr>d_Opened := d_Opened dg @ [n_Finding e]\<rparr>
        else if n_Kind e = KindResolved then dg\<lparr>d_Resolved := d_Resolved dg @ [n_Finding e]\<rparr>
        else dg)"

definition build_digest :: "instant \<Rightarrow> gostring \<times> notification list \<Rightarrow> digest" where
  "build_digest now p =
     (let dg = digest_events (snd p) \<lparr>d_Module = fst p, d_Opened = [], d_Resolved = [], d_At = now\<rparr>
      in dg\<lparr>d_Opened := sortBySeverity (d_Opened dg)\<rparr>)"

definition flushLocked :: "instant \<Rightarrow> dispatcher \<Rightarrow> dispatcher \<times> digest list" where
  "flushLocked now d =
     (let d = (if timer d then d\<lparr>timer := False\<rparr> else d) in
      if length (pending d) = 0 then (d, [])
      else (d\<lparr>pending := [], dseen := []\<rparr>,
            filter (\<lambda>dg. \<not> digest_Empty dg) (map (build_digest now) (pending d))))"

definition dedup_key :: "notification \<Rightarrow> gostring" where
  "dedup_key e = n_Kind e @ ''|'' @ n_Module e @ ''|'' @ fingerprint (n_Finding e)"

definition pending_total :: "dispatcher \<Rightarrow> int" where
  "pending_total d = int (sum_list (map (\<lambda>p. length (snd p)) (pending d)))"

definition Enqueue :: "instant \<Rightarrow> notification \<Rightarrow> dispatcher \<Rightarrow> dispatcher \<times> digest list" where
  "Enqueue now e d =
     (if n_Kind e = KindOpened \<and> \<not> passesSeverity d (severity (n_Finding e)) then (d, [])
      else if closed d then (d, [])
      else if dedup_key e \<in> set (dseen d) then (d, [])
      else
        (let old = (case map_of (pending d) (n_Module e) of None \<Rightarrow> [] | Some es \<Rightarrow> es);
             d = d\<lparr>dseen := dedup_key e # dseen d,
                   pending := AList.update (n_Module e) (old @ [e]) (pending d)\<rparr>
         in if pending_total d \<ge> MaxBatch (dcfg d) then flushLocked now d
            else ((if \<not> timer d then d\<lparr>timer := True\<rparr> else d), [])))"

definition Flush :: "instant \<Rightarrow> dispatcher \<Rightarrow> dispatcher \<times> digest list" where
  "Flush now d = flushLocked now d"

definition Close :: "instant \<Rightarrow> dispatcher \<Rightarrow> dispatcher \<times> digest list" where
  "Close now d = (let (d, out) = flushLocked now d in (d\<lparr>closed := True\<rparr>, out))"

text \<open>
  \<open>sendWithRetry\<close> over the answers of a channel, \<open>send i\<close> for the \<open>i\<close>-th attempt: the attempts made,
  the pauses between them, and the error given to \<open>OnSendError\<close>, if any.
\<close>

function send_attempts :: "(nat \<Rightarrow> goerror option) \<Rightarrow> int \<Rightarrow> nat \<Rightarrow> goerror option \<Rightarrow>
  nat \<times> nat \<times> goerror option option" where
  "send_attempts send retries attempt err =
     (if int attempt < retries then
        (case send attempt of
           None \<Rightarrow> (Suc attempt, 0, None)
         | Some e \<Rightarrow>
             (let (n, pauses, rep) = send_attempts send retries (Suc attempt) (Some e)
              in (n, if int attempt < retries - 1 then Suc pauses else pauses, rep)))
      else (attempt, 0, Some err))"
  by pat_completeness auto
termination
  by (relation "measure (\<lambda>(send, retries, attempt, err). nat (retries - int attempt))") auto

declare send_attempts.simps [simp del]

definition sendWithRetry :: "(nat \<Rightarrow> goerror option) \<Rightarrow> dispatcher \<Rightarrow> nat \<times> nat \<times> goerror option option" where
  "sendWithRetry send d = send_attempts send (Retries (dcfg d)) 0 None"

subsection \<open>The bridge from the scheduler (\<open>notify/bridge.go\<close>)\<close>

definition result_events :: "sched_result \<Rightarrow> notification list" where
  "result_events r =
     map (\<lambda>f. \<lparr>n_Kind = KindOpened, n_Module = result_Module r, n_Finding = f\<rparr>)
       (NewlyOpen (result_Reconcile r)) @
     map (\<lambda>f. \<lparr>n_Kind = KindResolved, n_Module = result_Module r, n_Finding = f\<rparr>)
       (Resolved (result_Reconcile r))"

text \<open>A run of calls, in the order the mutex serialises them.\<close>

datatype dispatcher_op = DoEnqueue notification | DoFlush | DoClose

fun do_op :: "instant \<Rightarrow> dispatcher_op \<Rightarrow> dispatcher \<Rightarrow> dispatcher \<times> digest list" where
  "do_op now (DoEnqueue e) d = Enqueue now e d"
| "do_op now DoFlush d = Flush now d"
| "do_op now DoClose d = Close now d"

fun dispatcher_run :: "(instant \<times> dispatcher_op) list \<Rightarrow> dispatcher \<Rightarrow> dispatcher \<times> digest list" where
  "dispatcher_run [] d = (d, [])"
| "dispatcher_run ((now, opn) # ops) d =
     (let (d, out) = do_op now opn d; (d, out') = dispatcher_run ops d in (d, out @ out'))"

text \<open>
  \<open>BindScheduler\<close>: what the scheduler's \<open>OnResult\<close> becomes, the previous callback first. Each event is
  enqueued by a call of its own.
\<close>

definition on_result :: "(sched_result \<Rightarrow> 'x) option \<Rightarrow> instant \<Rightarrow> sched_result \<Rightarrow> dispatcher \<Rightarrow>
  'x option \<times> dispatcher \<times> digest list" where
  "on_result prev now r d =
     (map_option (\<lambda>f. f r) prev, dispatcher_run (map (\<lambda>e. (now, DoEnqueue e)) (result_events r)) d)"

subsection \<open>The abstract dispatcher: one list of accepted events\<close>

text \<open>
  The specification forgets the map, the set of seen keys and the timer: a batch is the list of the
  events accepted since the last flush. A flush hands out the whole batch, one digest per module
  that has something to say.
\<close>

definition of_module :: "gostring \<Rightarrow> notification list \<Rightarrow> notification list" where
  "of_module m es = filter (\<lambda>e. n_Module e = m) es"

definition findings_of :: "gostring \<Rightarrow> notification list \<Rightarrow> finding list" where
  "findings_of k es = map n_Finding (filter (\<lambda>e. n_Kind e = k) es)"

definition spec_digest :: "instant \<Rightarrow> notification list \<Rightarrow> gostring \<Rightarrow> digest" where
  "spec_digest now es m =
     \<lparr>d_Module = m, d_Opened = sort_key sev_key (findings_of KindOpened (of_module m es)),
      d_Resolved = findings_of KindResolved (of_module m es), d_At = now\<rparr>"

definition batch_digests :: "instant \<times> notification list \<Rightarrow> digest multiset" where
  "batch_digests p =
     filter_mset (\<lambda>dg. \<not> digest_Empty dg)
       (image_mset (spec_digest (fst p) (snd p)) (mset_set (n_Module ` set (snd p))))"

text \<open>The new batch, whether the dispatcher is closed, and the batch that was flushed, if any.\<close>

definition accepts :: "notify_config \<Rightarrow> notification \<Rightarrow> bool" where
  "accepts c e \<longleftrightarrow> n_Kind e = KindOpened \<longrightarrow> MinSeverity c = [] \<or>
     severityRank (severity (n_Finding e)) \<ge> severityRank (MinSeverity c)"

fun spec_op :: "notify_config \<Rightarrow> dispatcher_op \<Rightarrow> notification list \<times> bool \<Rightarrow>
  (notification list \<times> bool) \<times> notification list" where
  "spec_op c (DoEnqueue e) (es, cl) =
     (if \<not> accepts c e \<or> cl \<or> dedup_key e \<in> dedup_key ` set es then ((es, cl), [])
      else if int (length es) + 1 \<ge> MaxBatch c then (([], cl), es @ [e])
      else ((es @ [e], cl), []))"
| "spec_op c DoFlush (es, cl) = (([], cl), es)"
| "spec_op c DoClose (es, cl) = (([], True), es)"

fun spec_run :: "notify_config \<Rightarrow> (instant \<times> dispatcher_op) list \<Rightarrow> notification list \<times> bool \<Rightarrow>
  (notification list \<times> bool) \<times> (instant \<times> notification list) list" where
  "spec_run c [] st = (st, [])"
| "spec_run c ((now, opn) # ops) st =
     (let (st, flushed) = spec_op c opn st; (st, batches) = spec_run c ops st
      in (st, (now, flushed) # batches))"

definition pending_of :: "dispatcher \<Rightarrow> gostring \<Rightarrow> notification list" where
  "pending_of d m = (case map_of (pending d) m of None \<Rightarrow> [] | Some es \<Rightarrow> es)"

definition batch_held :: "dispatcher \<Rightarrow> notification list \<Rightarrow> bool \<Rightarrow> bool" where
  "batch_held d es cl \<longleftrightarrow>
     distinct (map fst (pending d)) \<and> [] \<notin> snd ` set (pending d)
     \<and> (\<forall>m. pending_of d m = of_module m es)
     \<and> set (dseen d) = dedup_key ` set es \<and> distinct (map dedup_key es) \<and> closed d = cl"

fun implements :: "dispatcher \<Rightarrow> notification list \<times> bool \<Rightarrow> bool" where
  "implements d (es, cl) \<longleftrightarrow>
     batch_held d es cl \<and> (timer d \<longleftrightarrow> es \<noteq> []) \<and> int (length es) < MaxBatch (dcfg d)"

lemma batch_held_cong:
  "pending d' = pending d \<Longrightarrow> dseen d' = dseen d \<Longrightarrow> closed d' = closed d \<Longrightarrow>
     batch_held d' es cl = batch_held d es cl"
  by (simp add: batch_held_def pending_of_def)

lemma batch_digests_Nil [simp]: "batch_digests (now, []) = {#}"
  by (simp add: batch_digests_def)

lemma passesSeverity_accepts:
  "accepts (dcfg d) e \<longleftrightarrow> \<not> (n_Kind e = KindOpened \<and> \<not> passesSeverity d (severity (n_Finding e)))"
  by (auto simp: accepts_def passesSeverity_def)

lemma kinds_distinct [simp]: "KindOpened \<noteq> KindResolved" "KindResolved \<noteq> KindOpened"
  by (simp_all add: KindOpened_def KindResolved_def)

lemma digest_events_findings:
  "digest_events es dg = dg\<lparr>d_Opened := d_Opened dg @ findings_of KindOpened es,
                            d_Resolved := d_Resolved dg @ findings_of KindResolved es\<rparr>"
  by (induction es dg rule: digest_events.induct) (auto simp: findings_of_def)

lemma build_digest_spec:
  "build_digest now (m, es) =
     \<lparr>d_Module = m, d_Opened = sort_key sev_key (findings_of KindOpened es),
      d_Resolved = findings_of KindResolved es, d_At = now\<rparr>"
  using sortBySeverity_upto [of "length (findings_of KindOpened es)" "findings_of KindOpened es"]
  by (cases "findings_of KindOpened es")
    (simp_all add: build_digest_def digest_events_findings sortBySeverity_def Let_def)

lemma batch_keys:
  assumes "batch_held d es cl"
  shows "set (map fst (pending d)) = n_Module ` set es"
proof (rule set_eqI)
  fix m
  have ne: "\<And>k v. (k, v) \<in> set (pending d) \<Longrightarrow> v \<noteq> []"
    and po: "pending_of d m = of_module m es"
    using assms by (force simp: batch_held_def)+
  have "m \<in> set (map fst (pending d)) \<longleftrightarrow> pending_of d m \<noteq> []"
    using ne map_of_SomeD [of "pending d" m]
    by (force simp: pending_of_def map_of_eq_None_iff split: option.split)
  also have "\<dots> \<longleftrightarrow> m \<in> n_Module ` set es"
    unfolding po by (auto simp: of_module_def filter_empty_conv)
  finally show "m \<in> set (map fst (pending d)) \<longleftrightarrow> m \<in> n_Module ` set es" .
qed

lemma batch_entry:
  assumes "batch_held d es cl" "(m, v) \<in> set (pending d)"
  shows "v = of_module m es"
proof -
  have "map_of (pending d) m = Some v"
    using assms by (simp add: batch_held_def map_of_eq_Some_distinct)
  then have "pending_of d m = v" by (simp add: pending_of_def)
  then show ?thesis using assms(1) by (simp add: batch_held_def)
qed

lemma pending_digests:
  assumes "batch_held d es cl"
  shows "mset (map (build_digest now) (pending d)) = image_mset (spec_digest now es) (mset_set (n_Module ` set es))"
proof -
  have "map (build_digest now) (pending d) = map (spec_digest now es) (map fst (pending d))"
    using batch_entry [OF assms] by (auto simp: build_digest_spec spec_digest_def)
  moreover have "mset (map fst (pending d)) = mset_set (n_Module ` set es)"
    using assms batch_keys [OF assms] by (metis (mono_tags, lifting) batch_held_def mset_set_set)
  ultimately show ?thesis by (metis mset_map)
qed

lemma pending_empty_iff: "batch_held d es cl \<Longrightarrow> length (pending d) = 0 \<longleftrightarrow> es = []"
  using batch_keys [of d es cl] by auto

lemma flushLocked_eq:
  "flushLocked now d =
     (if pending d = [] then (d\<lparr>timer := False\<rparr>, [])
      else (d\<lparr>timer := False, pending := [], dseen := []\<rparr>,
            filter (\<lambda>dg. \<not> digest_Empty dg) (map (build_digest now) (pending d))))"
proof -
  have "(if timer d then d\<lparr>timer := False\<rparr> else d) = d\<lparr>timer := False\<rparr>" by (cases d) simp
  then show ?thesis by (simp add: flushLocked_def Let_def)
qed

lemma flushLocked_implements:
  assumes "batch_held d es cl" "0 < MaxBatch (dcfg d)" "flushLocked now d = (d', out)"
  shows "implements d' ([], cl)" "mset out = batch_digests (now, es)" "dcfg d' = dcfg d"
proof -
  note e = pending_empty_iff [OF assms(1)]
  show cfg: "dcfg d' = dcfg d" using assms(3) by (auto simp: flushLocked_eq split: if_splits)
  show "mset out = batch_digests (now, es)"
  proof (cases "es = []")
    case True
    with e assms(3) show ?thesis by (auto simp: flushLocked_eq batch_digests_def)
  next
    case False
    then have "out = filter (\<lambda>dg. \<not> digest_Empty dg) (map (build_digest now) (pending d))"
      using e assms(3) by (auto simp: flushLocked_eq)
    then show ?thesis by (simp add: batch_digests_def pending_digests [OF assms(1)] del: mset_map)
  qed
  have "batch_held d' [] cl"
  proof (cases "es = []")
    case True
    with e assms(3) have "d' = d\<lparr>timer := False\<rparr>" by (auto simp: flushLocked_eq)
    with True assms(1) show ?thesis using batch_held_cong [of d' d "[]" cl] by simp
  next
    case False
    then have "d' = d\<lparr>timer := False, pending := [], dseen := []\<rparr>"
      using e assms(3) by (auto simp: flushLocked_eq)
    then show ?thesis using assms(1) by (simp add: batch_held_def pending_of_def of_module_def)
  qed
  moreover have "\<not> timer d'" using assms(3) by (auto simp: flushLocked_eq split: if_splits)
  ultimately show "implements d' ([], cl)" using assms(2) cfg by simp
qed

text \<open>The state right before \<open>Enqueue\<close> decides whether to flush.\<close>

definition with_event :: "notification \<Rightarrow> dispatcher \<Rightarrow> dispatcher" where
  "with_event e d =
     d\<lparr>dseen := dedup_key e # dseen d,
       pending := AList.update (n_Module e) (pending_of d (n_Module e) @ [e]) (pending d)\<rparr>"

lemma Enqueue_eq:
  "Enqueue now e d =
     (if \<not> accepts (dcfg d) e \<or> closed d \<or> dedup_key e \<in> set (dseen d) then (d, [])
      else if pending_total (with_event e d) \<ge> MaxBatch (dcfg d) then flushLocked now (with_event e d)
      else ((with_event e d)\<lparr>timer := True\<rparr>, []))"
proof -
  have t: "(if \<not> timer x then x\<lparr>timer := True\<rparr> else x) = x\<lparr>timer := True\<rparr>" for x by (cases x) simp
  show ?thesis
    by (simp add: Enqueue_def passesSeverity_accepts t with_event_def pending_of_def Let_def)
qed

lemma pending_total_implements:
  assumes "distinct (map fst (pending d))" "\<And>m. pending_of d m = of_module m es"
    "set (map fst (pending d)) = n_Module ` set es"
  shows "pending_total d = int (length es)"
proof -
  have "map_of (pending d) k = Some v" if "(k, v) \<in> set (pending d)" for k v
    using assms(1) that by simp
  then have v: "v = of_module k es" if "(k, v) \<in> set (pending d)" for k v
    using assms(2) [of k] that by (simp add: pending_of_def)
  then have "map (\<lambda>p. length (snd p)) (pending d) = map (\<lambda>m. length (of_module m es)) (map fst (pending d))"
    by auto
  also have "sum_list \<dots> = (\<Sum>m \<in> n_Module ` set es. length (of_module m es))"
    using assms(1,3) by (metis sum_list_distinct_conv_sum_set)
  also have "\<dots> = length es"
  proof (induction es)
    case (Cons e es)
    let ?M = "n_Module ` set es"
    have "(\<Sum>m \<in> insert (n_Module e) ?M. length (of_module m (e # es))) =
        (\<Sum>m \<in> insert (n_Module e) ?M. (if m = n_Module e then 1 else 0) + length (of_module m es))"
      by (rule sum.cong) (auto simp: of_module_def)
    also have "\<dots> = 1 + (\<Sum>m \<in> insert (n_Module e) ?M. length (of_module m es))"
      by (simp add: sum.distrib)
    also have "(\<Sum>m \<in> insert (n_Module e) ?M. length (of_module m es)) = (\<Sum>m \<in> ?M. length (of_module m es))"
    proof (rule sum.mono_neutral_right)
      show "\<forall>i \<in> insert (n_Module e) ?M - ?M. length (of_module i es) = 0"
        by (auto simp: of_module_def filter_empty_conv)
    qed auto
    finally show ?case using Cons.IH by simp
  qed simp
  finally show ?thesis by (simp add: pending_total_def)
qed

lemma batch_held_add:
  assumes "batch_held d es cl" "dedup_key e \<notin> dedup_key ` set es"
  shows "batch_held (with_event e d) (es @ [e]) cl"
    and "pending_total (with_event e d) = int (length es) + 1"
proof -
  have pe: "pending_of (with_event e d) m = of_module m (es @ [e])" for m
    using assms(1)
    by (auto simp: with_event_def pending_of_def map_of_update batch_held_def of_module_def split: option.splits)
  have di: "distinct (map fst (pending (with_event e d)))"
    using assms(1) by (simp add: with_event_def batch_held_def distinct_keys_update)
  have ne: "[] \<notin> snd ` set (pending (with_event e d))"
    using assms(1) by (auto simp: with_event_def batch_held_def dest!: set_update_subset)
  have ks: "set (map fst (pending (with_event e d))) = n_Module ` set (es @ [e])"
    using batch_keys [OF assms(1)] by (simp add: with_event_def set_update_keys)
  have se: "set (dseen (with_event e d)) = dedup_key ` set (es @ [e])"
    using assms(1) by (simp add: with_event_def batch_held_def)
  have dk: "distinct (map dedup_key (es @ [e]))" using assms(1,2) by (simp add: batch_held_def)
  have "closed (with_event e d) = cl" using assms(1) by (simp add: with_event_def batch_held_def)
  with pe di ne se dk show "batch_held (with_event e d) (es @ [e]) cl" unfolding batch_held_def by blast
  show "pending_total (with_event e d) = int (length es) + 1"
    using pending_total_implements [OF di pe ks] by simp
qed

text \<open>One operation implements its specification.\<close>

lemma do_op_implements:
  assumes "implements d st" "0 < MaxBatch (dcfg d)" "do_op now opn d = (d', out)"
  defines "st' \<equiv> fst (spec_op (dcfg d) opn st)" and "flushed \<equiv> snd (spec_op (dcfg d) opn st)"
  shows "implements d' st' \<and> mset out = batch_digests (now, flushed) \<and> dcfg d' = dcfg d"
proof -
  obtain es cl where st: "st = (es, cl)" by (cases st)
  have held: "batch_held d es cl" and tm: "timer d \<longleftrightarrow> es \<noteq> []"
    and lt: "int (length es) < MaxBatch (dcfg d)"
    using assms(1) by (simp_all add: st)
  show ?thesis
  proof (cases opn)
    case (DoEnqueue e)
    have sn: "set (dseen d) = dedup_key ` set es" "closed d = cl" using held by (simp_all add: batch_held_def)
    show ?thesis
    proof (cases "\<not> accepts (dcfg d) e \<or> cl \<or> dedup_key e \<in> dedup_key ` set es")
      case True
      then have "d' = d" "out = []" "st' = st" "flushed = []"
        using assms(3) sn by (auto simp: DoEnqueue Enqueue_eq st'_def flushed_def st)
      with assms(1) show ?thesis by simp
    next
      case False
      note add = batch_held_add [OF held, of e]
      have cfg: "dcfg (with_event e d) = dcfg d" by (simp add: with_event_def)
      show ?thesis
      proof (cases "int (length es) + 1 \<ge> MaxBatch (dcfg d)")
        case True
        with False have "flushLocked now (with_event e d) = (d', out)" "st' = ([], cl)" "flushed = es @ [e]"
          using assms(3) sn add(2) by (auto simp: DoEnqueue Enqueue_eq st'_def flushed_def st)
        then show ?thesis
          using flushLocked_implements [of "with_event e d" "es @ [e]" cl now d' out] add False assms(2) cfg
          by simp
      next
        case low: False
        with False have "d' = (with_event e d)\<lparr>timer := True\<rparr>" "out = []" "st' = (es @ [e], cl)" "flushed = []"
          using assms(3) sn add(2) by (auto simp: DoEnqueue Enqueue_eq st'_def flushed_def st)
        then show ?thesis
          using add False low cfg batch_held_cong [of d' "with_event e d" "es @ [e]" cl] by simp
      qed
    qed
  next
    case DoFlush
    then show ?thesis
      using flushLocked_implements [OF held assms(2), of now d' out] assms(3)
      by (simp add: Flush_def st'_def flushed_def st)
  next
    case DoClose
    then obtain u where u: "flushLocked now d = (u, out)" "d' = u\<lparr>closed := True\<rparr>"
      using assms(3) by (auto simp: Close_def split: prod.splits)
    note fl = flushLocked_implements [OF held assms(2) u(1)]
    have "batch_held d' [] True" using fl(1) u(2) by (simp add: batch_held_def pending_of_def)
    then show ?thesis using fl u(2) DoClose by (simp add: st'_def flushed_def st)
  qed
qed

lemma dispatcher_run_implements:
  assumes "implements d st" "0 < MaxBatch (dcfg d)" "dispatcher_run ops d = (d', out)"
    "spec_run (dcfg d) ops st = (st', batches)"
  shows "implements d' st' \<and> mset out = (\<Sum>b \<leftarrow> batches. batch_digests b)"
  using assms
proof (induction ops arbitrary: d st out batches)
  case (Cons x ops)
  obtain now opn where x: "x = (now, opn)" by (cases x)
  obtain u o1 where u: "do_op now opn d = (u, o1)" by (cases "do_op now opn d")
  obtain su fl where su: "spec_op (dcfg d) opn st = (su, fl)" by (cases "spec_op (dcfg d) opn st")
  note one = do_op_implements [OF Cons.prems(1,2) u, unfolded su fst_conv snd_conv]
  obtain o2 where o2: "dispatcher_run ops u = (d', o2)" "out = o1 @ o2"
    using Cons.prems(3) by (auto simp: x u split: prod.splits)
  obtain bs where bs: "spec_run (dcfg d) ops su = (st', bs)" "batches = (now, fl) # bs"
    using Cons.prems(4) by (auto simp: x su split: prod.splits)
  have "implements d' st' \<and> mset o2 = (\<Sum>b \<leftarrow> bs. batch_digests b)"
    using Cons.IH [of u su o2 bs] one Cons.prems(2) o2(1) bs(1) by simp
  with one o2(2) bs(2) show ?case by simp
qed simp

lemma implements_NewDispatcher: "implements (NewDispatcher c) ([], False)"
  by (simp add: NewDispatcher_def batch_held_def pending_of_def of_module_def)

lemma dcfg_NewDispatcher: "dcfg (NewDispatcher c) = notify_withDefaults c"
  by (simp add: NewDispatcher_def)

lemma dispatcher_run_cfg:
  assumes "dispatcher_run ops d = (d', out)"
  shows "dcfg d' = dcfg d"
proof -
  have "dcfg (fst (dispatcher_run ops u)) = dcfg u" for u
  proof (induction ops arbitrary: u)
    case (Cons x ops)
    have "dcfg (fst (do_op now opn u)) = dcfg u" for now opn u
      by (cases opn) (auto simp: Enqueue_eq Flush_def Close_def flushLocked_eq with_event_def split: prod.splits)
    with Cons show ?case by (cases x) (auto split: prod.splits, metis fst_conv)
  qed simp
  from this [of d] show ?thesis using assms by simp
qed

text \<open>
  (C11) The dispatcher refines the one-list specification. Over any sequence of calls from a new
  dispatcher, the digests handed to the channels are exactly those of the flushed batches: per
  module one digest, its opened findings most severe first and in order of arrival within a
  severity, its resolved ones in order of arrival, and none that is empty. What is still pending is
  the current batch, smaller than \<open>MaxBatch\<close>, and the window timer is armed exactly when that batch
  is not empty, so no accepted event is left behind without a flush to come.
\<close>

theorem dispatcher_refines_batches:
  assumes "dispatcher_run ops (NewDispatcher c) = (d, out)"
    and "spec_run (notify_withDefaults c) ops ([], False) = ((batch, cl), batches)"
  shows "mset out = (\<Sum>b \<leftarrow> batches. batch_digests b)
         \<and> (\<forall>m. pending_of d m = of_module m batch) \<and> closed d = cl
         \<and> int (length batch) < MaxBatch (notify_withDefaults c) \<and> (timer d \<longleftrightarrow> batch \<noteq> [])"
proof -
  have cfg: "dcfg d = notify_withDefaults c"
    using dispatcher_run_cfg [OF assms(1)] by (simp add: dcfg_NewDispatcher)
  have "implements d (batch, cl) \<and> mset out = (\<Sum>b \<leftarrow> batches. batch_digests b)"
    using dispatcher_run_implements [OF implements_NewDispatcher _ assms(1)] assms(2)
    by (simp add: dcfg_NewDispatcher)
  then show ?thesis by (simp add: batch_held_def cfg)
qed

subsection \<open>Every accepted event is delivered once\<close>

definition known_kind :: "notification \<Rightarrow> bool" where
  "known_kind e \<longleftrightarrow> n_Kind e = KindOpened \<or> n_Kind e = KindResolved"

text \<open>What a list of digests announces.\<close>

definition announced :: "digest \<Rightarrow> notification multiset" where
  "announced dg =
     image_mset (\<lambda>f. \<lparr>n_Kind = KindOpened, n_Module = d_Module dg, n_Finding = f\<rparr>) (mset (d_Opened dg)) +
     image_mset (\<lambda>f. \<lparr>n_Kind = KindResolved, n_Module = d_Module dg, n_Finding = f\<rparr>) (mset (d_Resolved dg))"

lemma announced_empty: "digest_Empty dg \<Longrightarrow> announced dg = {#}"
  by (simp add: digest_Empty_def announced_def)

lemma findings_of_rebuild:
  assumes "\<forall>e \<in> set es. n_Module e = m"
  shows "image_mset (\<lambda>f. \<lparr>n_Kind = k, n_Module = m, n_Finding = f\<rparr>) (mset (findings_of k es)) =
           mset (filter (\<lambda>e. n_Kind e = k) es)"
  using assms by (induction es) (auto simp: findings_of_def)

lemma kinds_partition:
  assumes "\<forall>e \<in> set es. known_kind e"
  shows "mset (filter (\<lambda>e. n_Kind e = KindOpened) es) + mset (filter (\<lambda>e. n_Kind e = KindResolved) es) = mset es"
  using assms by (induction es) (auto simp: known_kind_def)

lemma announced_spec_digest:
  assumes "\<forall>e \<in> set es. known_kind e"
  shows "announced (spec_digest now es m) = mset (of_module m es)"
proof -
  let ?es = "of_module m es"
  have m: "\<forall>e \<in> set ?es. n_Module e = m" by (simp add: of_module_def)
  have k: "\<forall>e \<in> set ?es. known_kind e" using assms by (simp add: of_module_def)
  have "mset (filter (\<lambda>e. n_Kind e = KindOpened) ?es) + mset (filter (\<lambda>e. n_Kind e = KindResolved) ?es) = mset ?es"
    using k by (rule kinds_partition)
  then show ?thesis
    by (simp add: announced_def spec_digest_def findings_of_rebuild [OF m])
qed

lemma sum_of_module:
  assumes "finite M" "n_Module ` set es \<subseteq> M"
  shows "(\<Sum>m \<in> M. mset (of_module m es)) = mset es"
  using assms(2)
proof (induction es)
  case Nil
  then show ?case by (simp add: of_module_def)
next
  case (Cons e es)
  then have e: "n_Module e \<in> M" by simp
  have "(\<Sum>m \<in> M. mset (of_module m (e # es))) =
      (\<Sum>m \<in> M. (if m = n_Module e then {#e#} else {#}) + mset (of_module m es))"
    by (rule sum.cong) (auto simp: of_module_def)
  also have "\<dots> = {#e#} + mset es"
    using Cons e assms(1) by (simp add: sum.distrib)
  finally show ?case by simp
qed

lemma announced_batch:
  assumes "\<forall>e \<in> set es. known_kind e"
  shows "(\<Sum>dg \<in># batch_digests (now, es). announced dg) = mset es"
proof -
  have "(\<Sum>dg \<in># filter_mset (\<lambda>dg. \<not> digest_Empty dg) M. announced dg) = (\<Sum>dg \<in># M. announced dg)" for M
    by (induction M) (auto simp: announced_empty)
  then have "(\<Sum>dg \<in># batch_digests (now, es). announced dg) =
      (\<Sum>m \<in> n_Module ` set es. announced (spec_digest now es m))"
    by (simp add: batch_digests_def image_mset.compositionality comp_def sum_unfold_sum_mset)
  also have "\<dots> = (\<Sum>m \<in> n_Module ` set es. mset (of_module m es))"
    by (simp add: announced_spec_digest [OF assms])
  also have "\<dots> = mset es" by (rule sum_of_module) simp_all
  finally show ?thesis .
qed

definition offered :: "(instant \<times> dispatcher_op) list \<Rightarrow> notification list" where
  "offered ops = concat (map (\<lambda>p. case snd p of DoEnqueue e \<Rightarrow> [e] | _ \<Rightarrow> []) ops)"

lemma spec_run_conserves:
  assumes "spec_run c ops (es, False) = ((es', cl), batches)" "DoClose \<notin> snd ` set ops"
    "distinct (map dedup_key (es @ filter (accepts c) (offered ops)))"
  shows "concat (map snd batches) @ es' = es @ filter (accepts c) (offered ops)"
  using assms
proof (induction ops arbitrary: es batches)
  case Nil
  then show ?case by (simp add: offered_def)
next
  case (Cons x ops)
  obtain now opn where x: "x = (now, opn)" by (cases x)
  obtain es1 cl1 fl where op1: "spec_op c opn (es, False) = ((es1, cl1), fl)"
    by (metis prod.exhaust)
  obtain bs where bs: "spec_run c ops (es1, cl1) = ((es', cl), bs)" "batches = (now, fl) # bs"
    using Cons.prems(1) by (auto simp: x op1 split: prod.splits)
  have key: "cl1 = False \<and> fl @ es1 = es @ filter (accepts c) (offered [x])"
  proof (cases opn)
    case (DoEnqueue e)
    have "accepts c e \<Longrightarrow> dedup_key e \<notin> dedup_key ` set es"
      using Cons.prems(3) by (auto simp: x DoEnqueue offered_def)
    with op1 show ?thesis by (auto simp: x DoEnqueue offered_def split: if_splits)
  next
    case DoFlush
    with op1 show ?thesis by (auto simp: x offered_def)
  next
    case DoClose
    with Cons.prems(2) show ?thesis by (simp add: x)
  qed
  have off: "offered (x # ops) = offered [x] @ offered ops" by (simp add: offered_def)
  have "distinct (map dedup_key ((fl @ es1) @ filter (accepts c) (offered ops)))"
    using Cons.prems(3) key off by simp
  then have "distinct (map dedup_key (es1 @ filter (accepts c) (offered ops)))" by simp
  with Cons.IH [of es1 bs] Cons.prems(2) bs key off show ?case by simp
qed

lemma pending_content:
  assumes "batch_held d es cl"
  shows "mset (concat (map snd (pending d))) = mset es"
proof -
  have dist: "distinct (map fst (pending d))" using assms by (simp add: batch_held_def)
  have entries: "map (\<lambda>p. mset (snd p)) (pending d) = map (\<lambda>m. mset (of_module m es)) (map fst (pending d))"
    using batch_entry [OF assms] by auto
  have "mset (concat (map snd (pending d))) = sum_list (map (\<lambda>p. mset (snd p)) (pending d))"
    by (simp add: mset_concat comp_def)
  then have "mset (concat (map snd (pending d))) = (\<Sum>m \<leftarrow> map fst (pending d). mset (of_module m es))"
    unfolding entries .
  also have "\<dots> = (\<Sum>m \<in> set (map fst (pending d)). mset (of_module m es))"
    by (rule sum_list_distinct_conv_sum_set [OF dist])
  also have "\<dots> = mset es" using batch_keys [OF assms] by (intro sum_of_module) simp_all
  finally show ?thesis .
qed

lemma announced_batches:
  assumes "\<forall>b \<in> set batches. \<forall>e \<in> set (snd b). known_kind e"
  shows "(\<Sum>dg \<in># (\<Sum>b \<leftarrow> batches. batch_digests b). announced dg) = mset (concat (map snd batches))"
  using assms
proof (induction batches)
  case (Cons b batches)
  then show ?case using announced_batch [of "snd b" "fst b"] by simp
qed simp

text \<open>
  (C29) No finding transition is lost and none is announced twice. When the events offered differ in
  kind, module or fingerprint, over any interleaving of \<open>Enqueue\<close> and \<open>Flush\<close> calls the events
  announced by the digests together with those still pending are exactly the offered events that
  pass the severity filter, each once.
\<close>

theorem events_delivered_once:
  assumes "dispatcher_run ops (NewDispatcher c) = (d, out)"
    and "DoClose \<notin> snd ` set ops" "\<forall>e \<in> set (offered ops). known_kind e"
    and "distinct (map dedup_key (offered ops))"
  shows "(\<Sum>dg \<in># mset out. announced dg) + mset (concat (map snd (pending d)))
           = mset (filter (accepts (notify_withDefaults c)) (offered ops))"
proof -
  let ?c = "notify_withDefaults c"
  obtain batch cl batches where sp: "spec_run ?c ops ([], False) = ((batch, cl), batches)"
    by (metis prod.exhaust)
  have impl: "implements d (batch, cl) \<and> mset out = (\<Sum>b \<leftarrow> batches. batch_digests b)"
    using dispatcher_run_implements [OF implements_NewDispatcher _ assms(1)] sp
    by (simp add: dcfg_NewDispatcher)
  have "distinct (map dedup_key ([] @ filter (accepts ?c) (offered ops)))"
    using assms(4) by (simp add: distinct_map_filter)
  from spec_run_conserves [OF sp assms(2) this]
  have all: "concat (map snd batches) @ batch = filter (accepts ?c) (offered ops)" by simp
  have "set (concat (map snd batches)) \<subseteq> set (offered ops)"
    using all by (metis Un_iff filter_is_subset set_append subset_iff)
  then have "\<forall>b \<in> set batches. \<forall>e \<in> set (snd b). known_kind e" using assms(3) by fastforce
  then have "(\<Sum>dg \<in># mset out. announced dg) = mset (concat (map snd batches))"
    using impl by (simp add: announced_batches)
  moreover have "mset (concat (map snd (pending d))) = mset batch" using impl by (intro pending_content) auto
  ultimately show ?thesis using all by (metis mset_append)
qed

definition demo_event :: "gostring \<Rightarrow> notification" where
  "demo_event fp =
     \<lparr>n_Kind = KindOpened, n_Module = ''asm'',
      n_Finding = \<lparr>fingerprint = fp, target = ''t'', check = ''c'', title = ''x'', severity = SeverityLow,
        remediation = ''r'', evidence = None, finding_id = [], finding_module = ''asm'', status = StatusOpen,
        groupID = None, firstSeen = 0, lastSeen = 0, resolvedAt = None\<rparr>\<rparr>"

lemma demo_keys: "dedup_key (demo_event a) = dedup_key (demo_event b) \<longleftrightarrow> a = b"
  by (simp add: dedup_key_def demo_event_def)

definition zero_notify :: notify_config where
  "zero_notify = \<lparr>FlushInterval = 0, MaxBatch = 2, MinSeverity = [], Retries = 0, RetryDelay = 0\<rparr>"

definition demo_ops :: "(instant \<times> dispatcher_op) list" where
  "demo_ops = [(0, DoEnqueue (demo_event ''a'')), (1, DoEnqueue (demo_event ''b'')), (2, DoEnqueue (demo_event ''e''))]"

lemma demo_ops_offered: "offered demo_ops = map demo_event [''a'', ''b'', ''e'']" "DoClose \<notin> snd ` set demo_ops"
  "distinct (map dedup_key (map demo_event [''a'', ''b'', ''e'']))" "known_kind (demo_event fp)"
  by (simp_all add: offered_def demo_ops_def dedup_key_def demo_event_def known_kind_def)

lemma events_delivered_once_witness:
  "\<exists>d out. dispatcher_run demo_ops (NewDispatcher zero_notify) = (d, out)
     \<and> (\<Sum>dg \<in># mset out. announced dg) + mset (concat (map snd (pending d)))
         = mset (map demo_event [''a'', ''b'', ''e''])"
proof -
  obtain d out where run: "dispatcher_run demo_ops (NewDispatcher zero_notify) = (d, out)"
    by (cases "dispatcher_run demo_ops (NewDispatcher zero_notify)")
  have "filter (accepts (notify_withDefaults zero_notify)) (offered demo_ops) = offered demo_ops"
    by (auto simp: filter_id_conv accepts_def notify_withDefaults_def zero_notify_def Let_def)
  with events_delivered_once [OF run] run demo_ops_offered show ?thesis by auto
qed

lemma dispatcher_refines_batches_witness:
  "length (snd (dispatcher_run demo_ops (NewDispatcher zero_notify))) = 1
   \<and> mset (snd (dispatcher_run demo_ops (NewDispatcher zero_notify)))
       = batch_digests (1, [demo_event ''a'', demo_event ''b''])"
proof -
  obtain d out where run: "dispatcher_run demo_ops (NewDispatcher zero_notify) = (d, out)"
    by (cases "dispatcher_run demo_ops (NewDispatcher zero_notify)")
  have sp: "spec_run (notify_withDefaults zero_notify) demo_ops ([], False) =
      (([demo_event ''e''], False), [(0, []), (1, [demo_event ''a'', demo_event ''b'']), (2, [])])"
    by (simp add: demo_ops_def demo_keys accepts_def notify_withDefaults_def zero_notify_def Let_def)
  from dispatcher_refines_batches [OF run sp]
  have out: "mset out = batch_digests (1, [demo_event ''a'', demo_event ''b''])" by simp
  then have "length out = size (batch_digests (1, [demo_event ''a'', demo_event ''b'']))" by (metis size_mset)
  also have "\<dots> = 1"
    by (simp add: batch_digests_def demo_event_def spec_digest_def of_module_def findings_of_def digest_Empty_def)
  finally show ?thesis using out run by simp
qed

subsection \<open>Retries\<close>

lemma send_attempts_counts:
  assumes "send_attempts send retries k err = (n, pauses, rep)" "int k \<le> retries"
  shows "k \<le> n \<and> int n \<le> retries \<and> (rep = None \<longrightarrow> k < n) \<and> (rep \<noteq> None \<longrightarrow> int n = retries) \<and> pauses = n - k - 1"
  using assms
proof (induction send retries k err arbitrary: n pauses rep rule: send_attempts.induct)
  case (1 send retries k err)
  note unfold = send_attempts.simps [of send retries k err]
  show ?case
  proof (cases "int k < retries \<and> send k \<noteq> None")
    case False
    with 1(2,3) show ?thesis by (auto simp: unfold split: option.splits if_splits)
  next
    case True
    then obtain e where less: "int k < retries" and e: "send k = Some e" by auto
    obtain n' p' r' where rec: "send_attempts send retries (Suc k) (Some e) = (n', p', r')"
      by (cases "send_attempts send retries (Suc k) (Some e)")
    have eqs: "n = n'" "rep = r'" "pauses = (if int k < retries - 1 then Suc p' else p')"
      using less e 1(2) rec by (auto simp: unfold split: if_splits)
    from 1(1) [OF less e rec] less have ih: "Suc k \<le> n'" "int n' \<le> retries" "r' = None \<longrightarrow> Suc k < n'"
      "r' \<noteq> None \<longrightarrow> int n' = retries" "p' = n' - Suc k - 1" by simp_all
    then show ?thesis unfolding eqs by (cases r') auto
  qed
qed

lemma send_attempts_answers:
  assumes "send_attempts send retries k err = (n, pauses, rep)" "int k \<le> retries"
  shows "(\<forall>i. k \<le> i \<longrightarrow> i + 1 < n \<longrightarrow> send i \<noteq> None) \<and> (rep = None \<longrightarrow> send (n - 1) = None)
    \<and> (rep \<noteq> None \<longrightarrow> (\<forall>i. k \<le> i \<longrightarrow> i < n \<longrightarrow> send i \<noteq> None) \<and> rep = Some (if k < n then send (n - 1) else err))"
  using assms
proof (induction send retries k err arbitrary: n pauses rep rule: send_attempts.induct)
  case (1 send retries k err)
  note unfold = send_attempts.simps [of send retries k err]
  show ?case
  proof (cases "int k < retries \<and> send k \<noteq> None")
    case False
    with 1(2,3) show ?thesis by (auto simp: unfold split: option.splits if_splits)
  next
    case True
    then obtain e where less: "int k < retries" and e: "send k = Some e" by auto
    obtain n' p' r' where rec: "send_attempts send retries (Suc k) (Some e) = (n', p', r')"
      by (cases "send_attempts send retries (Suc k) (Some e)")
    have eqs: "n = n'" "rep = r'" using less e 1(2) rec by (auto simp: unfold)
    have n': "Suc k \<le> n'" using send_attempts_counts [OF rec] less by simp
    then have last: "\<not> Suc k < n' \<Longrightarrow> send (n' - 1) = Some e" using e by (metis diff_Suc_1 le_antisym not_less)
    have "k \<le> i \<longleftrightarrow> i = k \<or> Suc k \<le> i" for i by auto
    with 1(1) [OF less e rec] less e n' last show ?thesis unfolding eqs by auto
  qed
qed

lemma send_attempts_result:
  assumes "send_attempts send retries k err = (n, pauses, rep)" "int k \<le> retries"
  shows "k \<le> n \<and> int n \<le> retries \<and> (\<forall>i. k \<le> i \<longrightarrow> i + 1 < n \<longrightarrow> send i \<noteq> None)
    \<and> (rep = None \<longrightarrow> k < n \<and> send (n - 1) = None)
    \<and> (rep \<noteq> None \<longrightarrow> int n = retries \<and> (\<forall>i. k \<le> i \<longrightarrow> i < n \<longrightarrow> send i \<noteq> None)
         \<and> rep = Some (if k < n then send (n - 1) else err))
    \<and> pauses = n - k - 1"
  using send_attempts_counts [OF assms] send_attempts_answers [OF assms] by blast

text \<open>
  (C39) Delivery stops at the first attempt the channel accepts and never makes more than \<open>Retries\<close>
  attempts, with one pause between any two; \<open>OnSendError\<close> is called exactly when every one of the
  \<open>Retries\<close> attempts failed, with the error of the last.
\<close>

theorem sendWithRetry_outcome:
  assumes "sendWithRetry send d = (n, pauses, rep)" "0 < Retries (dcfg d)"
  shows "0 < n \<and> int n \<le> Retries (dcfg d) \<and> pauses = n - 1 \<and> (\<forall>i < n - 1. send i \<noteq> None)
         \<and> (rep = None \<longleftrightarrow> send (n - 1) = None)
         \<and> (rep \<noteq> None \<longrightarrow> int n = Retries (dcfg d) \<and> rep = Some (send (n - 1)))"
proof -
  note r = send_attempts_result [OF assms(1) [unfolded sendWithRetry_def]]
  have pos: "0 < n" using r assms(2) by (cases rep) auto
  have early: "\<forall>i < n - 1. send i \<noteq> None" using r assms(2) by auto
  show ?thesis
  proof (cases rep)
    case None
    with r assms(2) pos early show ?thesis by simp
  next
    case (Some x)
    then have "send (n - 1) \<noteq> None" using r assms(2) pos by simp
    with Some r assms(2) pos early show ?thesis by simp
  qed
qed

lemma sendWithRetry_outcome_witness:
  "sendWithRetry (\<lambda>i. if i < 2 then Some ''down'' else None) (NewDispatcher zero_notify) = (3, 2, None)
   \<and> int 3 \<le> Retries (notify_withDefaults zero_notify)"
proof -
  have run: "sendWithRetry (\<lambda>i. if i < 2 then Some ''down'' else None) (NewDispatcher zero_notify) = (3, 2, None)"
    by (simp add: sendWithRetry_def NewDispatcher_def notify_withDefaults_def zero_notify_def Let_def
        send_attempts.simps numeral_eq_Suc)
  from sendWithRetry_outcome [OF run] run show ?thesis by (simp add: NewDispatcher_def)
qed

subsection \<open>Nothing offered is lost\<close>

text \<open>
  Without the assumption that the events differ: an offered event may be merged into one of the
  same kind, module and fingerprint, but then that one is announced or pending.
\<close>

lemma dispatcher_run_append:
  assumes "dispatcher_run xs d = (d1, out1)" "dispatcher_run ys d1 = (d2, out2)"
  shows "dispatcher_run (xs @ ys) d = (d2, out1 @ out2)"
  using assms by (induction xs arbitrary: d out1) (auto split: prod.splits)

lemma offered_append: "offered (xs @ ys) = offered xs @ offered ys"
  by (simp add: offered_def)

lemma spec_run_covers:
  assumes "spec_run c ops (es, False) = ((es', cl), batches)" "DoClose \<notin> snd ` set ops"
  shows "set (map dedup_key (es @ filter (accepts c) (offered ops)))
           = set (map dedup_key (concat (map snd batches) @ es'))
         \<and> set (concat (map snd batches) @ es') \<subseteq> set (es @ offered ops)"
  using assms
proof (induction ops arbitrary: es batches)
  case (Cons x ops)
  obtain now opn where x: "x = (now, opn)" by (cases x)
  obtain es1 cl1 fl where op1: "spec_op c opn (es, False) = ((es1, cl1), fl)" by (metis prod.exhaust)
  obtain bs where bs: "spec_run c ops (es1, cl1) = ((es', cl), bs)" "batches = (now, fl) # bs"
    using Cons.prems(1) by (auto simp: x op1 split: prod.splits)
  have key: "cl1 = False" "dedup_key ` set (fl @ es1) = dedup_key ` set (es @ filter (accepts c) (offered [x]))"
    "set (fl @ es1) \<subseteq> set (es @ offered [x])"
    using op1 Cons.prems(2) by (cases opn; auto simp: x offered_def split: if_splits)+
  have "DoClose \<notin> snd ` set ops" using Cons.prems(2) by simp
  note IH = Cons.IH [OF bs(1) [unfolded key(1)] this]
  have off: "offered (x # ops) = offered [x] @ offered ops" by (simp add: offered_def)
  have "set (map dedup_key (es @ filter (accepts c) (offered (x # ops)))) =
      dedup_key ` set (es @ filter (accepts c) (offered [x])) \<union> dedup_key ` set (filter (accepts c) (offered ops))"
    unfolding off filter_append set_map set_append image_Un Un_assoc ..
  also have "\<dots> = dedup_key ` set fl \<union> set (map dedup_key (es1 @ filter (accepts c) (offered ops)))"
    using key(2) unfolding set_map set_append image_Un by blast
  also have "\<dots> = set (map dedup_key (concat (map snd batches) @ es'))"
    unfolding conjunct1 [OF IH] bs(2) by (simp add: image_Un Un_assoc)
  finally have "set (map dedup_key (es @ filter (accepts c) (offered (x # ops)))) =
      set (map dedup_key (concat (map snd batches) @ es'))" .
  moreover have "set (concat (map snd batches) @ es') = set fl \<union> set (concat (map snd bs) @ es')"
    unfolding bs(2) by (simp add: Un_assoc)
  ultimately show ?case using conjunct2 [OF IH] key(3) unfolding off set_append by blast
qed (simp add: offered_def)

text \<open>The events a history has announced or still holds.\<close>

definition told_of :: "digest list \<Rightarrow> dispatcher \<Rightarrow> notification multiset" where
  "told_of out d = (\<Sum>dg \<in># mset out. announced dg) + mset (concat (map snd (pending d)))"

lemma told_of_run:
  assumes "implements d (batch, False)" "0 < MaxBatch (dcfg d)" "\<forall>e \<in> set batch. known_kind e"
    and "dispatcher_run ops d = (d', out)" "DoClose \<notin> snd ` set ops" "\<forall>e \<in> set (offered ops). known_kind e"
  obtains batch' cl batches where "spec_run (dcfg d) ops (batch, False) = ((batch', cl), batches)"
    and "implements d' (batch', cl)" "\<forall>e \<in> set batch'. known_kind e"
    and "told_of out d' = mset (concat (map snd batches) @ batch')"
proof -
  obtain batch' cl batches where sp: "spec_run (dcfg d) ops (batch, False) = ((batch', cl), batches)"
    by (metis prod.exhaust)
  note impl = dispatcher_run_implements [OF assms(1,2,4) sp]
  have known: "\<forall>e \<in> set (concat (map snd batches) @ batch'). known_kind e"
    using spec_run_covers [OF sp assms(5)] assms(3,6) by (metis Un_iff set_append subsetD)
  then have "\<forall>b \<in> set batches. \<forall>e \<in> set (snd b). known_kind e" by auto
  then have "(\<Sum>dg \<in># mset out. announced dg) = mset (concat (map snd batches))"
    using impl by (simp add: announced_batches)
  moreover have "mset (concat (map snd (pending d'))) = mset batch'" using impl by (intro pending_content) auto
  ultimately have "told_of out d' = mset (concat (map snd batches) @ batch')" by (simp add: told_of_def)
  with sp impl known show thesis by (intro that) auto
qed

lemma spec_run_open:
  "spec_run c ops (es, False) = ((es', cl), batches) \<Longrightarrow> DoClose \<notin> snd ` set ops \<Longrightarrow> cl = False"
proof (induction ops arbitrary: es batches)
  case (Cons x ops)
  obtain now opn where x: "x = (now, opn)" by (cases x)
  obtain es1 cl1 fl where op1: "spec_op c opn (es, False) = ((es1, cl1), fl)" by (metis prod.exhaust)
  have "cl1 = False" using op1 Cons.prems(2) by (cases opn) (auto simp: x split: if_splits)
  with Cons op1 show ?case by (auto simp: x split: prod.splits)
qed simp

text \<open>
  After any history, the next calls tell every event they offer and the filter accepts: an event of
  its kind, module and fingerprint is in a digest they send, or pending after them.
\<close>

lemma dispatcher_tells:
  assumes before: "dispatcher_run ops (NewDispatcher c) = (d, out)"
      "DoClose \<notin> snd ` set ops" "\<forall>e \<in> set (offered ops). known_kind e"
    and now: "dispatcher_run ops' d = (d', out')"
      "DoClose \<notin> snd ` set ops'" "\<forall>e \<in> set (offered ops'). known_kind e"
    and "e \<in> set (offered ops')" "accepts (notify_withDefaults c) e"
  shows "dedup_key e \<in> dedup_key ` set_mset (told_of out' d')"
proof -
  have "0 < MaxBatch (dcfg (NewDispatcher c))" "\<forall>e \<in> set []. known_kind e" by (simp_all add: dcfg_NewDispatcher)
  from told_of_run [OF implements_NewDispatcher this before] obtain batch cl batches where
    b: "spec_run (dcfg (NewDispatcher c)) ops ([], False) = ((batch, cl), batches)"
      "implements d (batch, cl)" "\<forall>e \<in> set batch. known_kind e" .
  have cl: "cl = False" by (rule spec_run_open [OF b(1) before(2)])
  have cfg: "dcfg d = notify_withDefaults c"
    using dispatcher_run_cfg [OF before(1)] by (simp add: dcfg_NewDispatcher)
  have "0 < MaxBatch (dcfg d)" by (simp add: cfg)
  from told_of_run [OF b(2) [unfolded cl] this b(3) now] obtain batch' cl' batches' where
    b': "spec_run (dcfg d) ops' (batch, False) = ((batch', cl'), batches')"
      "told_of out' d' = mset (concat (map snd batches') @ batch')" .
  have "dedup_key e \<in> set (map dedup_key (batch @ filter (accepts (dcfg d)) (offered ops')))"
    using assms(7,8) by (simp add: cfg)
  then have "dedup_key e \<in> set (map dedup_key (concat (map snd batches') @ batch'))"
    using conjunct1 [OF spec_run_covers [OF b'(1) now(2)]] by blast
  then show ?thesis unfolding b'(2) set_mset_mset by (simp only: set_map)
qed

end
