(* ===== verification/NotifyChannels.thy ===== *)
theory NotifyChannels
  imports Dispatcher GoStd
begin

section \<open>Message formats and channels (\<open>notify/format.go\<close>, \<open>channels.go\<close>, \<open>hfs.go\<close>, \<open>hfsbridge\<close>)\<close>

text \<open>
  What the channels send: the shared plain text, the webhook payload, the Slack and Telegram
  requests, the syslog frames, and the schema events handed to an external sink. A network call is
  a parameter: an HTTP client maps a request to a status or an error, a syslog connection accepts
  or refuses each write. The bytes of JSON bodies are not rendered: a request carries the value
  that is marshalled.
\<close>

subsection \<open>The plain-text message (\<open>format.go\<close>)\<close>

text \<open>The non-ASCII characters of the messages, in UTF-8.\<close>

abbreviation utf_dash :: gostring where "utf_dash \<equiv> [mkbyte 0xE2, mkbyte 0x80, mkbyte 0x94]"
abbreviation utf_arrow :: gostring where "utf_arrow \<equiv> [mkbyte 0xE2, mkbyte 0x86, mkbyte 0x92]"
abbreviation utf_check :: gostring where "utf_check \<equiv> [mkbyte 0xE2, mkbyte 0x9C, mkbyte 0x85]"
abbreviation utf_bullet :: gostring where "utf_bullet \<equiv> [mkbyte 0xE2, mkbyte 0x80, mkbyte 0xA2]"
abbreviation utf_ellipsis :: gostring where "utf_ellipsis \<equiv> [mkbyte 0xE2, mkbyte 0x80, mkbyte 0xA6]"
abbreviation utf_square :: "nat \<Rightarrow> gostring" where
  "utf_square n \<equiv> [mkbyte 0xF0, mkbyte 0x9F, mkbyte 0x9F, mkbyte n]"
abbreviation newline :: char where "newline \<equiv> mkbyte 10"

definition severityBadge :: "severity \<Rightarrow> gostring" where
  "severityBadge s =
     (if s = SeverityCritical then utf_square 0xA5 @ '' CRITICAL''
      else if s = SeverityHigh then utf_square 0xA7 @ '' HIGH''
      else if s = SeverityMedium then utf_square 0xA8 @ '' MEDIUM''
      else if s = SeverityLow then utf_square 0xA6 @ '' LOW''
      else [mkbyte 0xE2, mkbyte 0xAC, mkbyte 0x9C] @ '' INFO'')"

definition productName :: "gostring \<Rightarrow> gostring" where
  "productName m =
     (if m = ''certwatch'' then ''CertWatch''
      else if m = ''asm'' then ''Attack Surface Monitor''
      else m)"

definition opened_text :: "finding \<Rightarrow> gostring" where
  "opened_text f =
     newline # severityBadge (severity f) @ '' '' @ target f @ newline # ''  '' @ title f
       @ newline # ''  '' @ utf_arrow @ '' '' @ remediation f @ [newline]"

definition resolved_text :: "finding \<Rightarrow> gostring" where
  "resolved_text f = ''  '' @ utf_bullet @ '' '' @ target f @ '' '' @ utf_dash @ '' '' @ title f @ [newline]"

definition FormatText :: "digest \<Rightarrow> gostring" where
  "FormatText d =
     (let n = length (d_Opened d);
          b = (if n > 0
               then productName (d_Module d) @ '' '' @ utf_dash @ '' '' @ show_nat n @ '' new finding(s)'' @ [newline]
                      @ concat (map opened_text (d_Opened d))
               else []);
          k = length (d_Resolved d);
          b = (if k > 0
               then b @ (if length b > 0 then [newline] else [])
                      @ utf_check @ '' '' @ show_nat k @ '' finding(s) resolved'' @ [newline]
                      @ concat (map resolved_text (d_Resolved d))
               else b)
      in TrimRight b [newline])"

subsection \<open>The generic webhook\<close>

record http_request =
  req_URL :: gostring
  req_Headers :: "(gostring \<times> gostring) list"

record webhook_finding =
  w_Target :: gostring
  w_Check :: gostring
  w_Severity :: gostring
  w_Title :: gostring
  w_Remediation :: gostring
  w_Evidence :: evidence

record webhook_payload =
  Version :: int
  p_Module :: gostring
  p_At :: instant
  p_Opened :: "webhook_finding list"
  p_Resolved :: "webhook_finding list"

definition toWire :: "finding \<Rightarrow> webhook_finding" where
  "toWire f = \<lparr>w_Target = target f, w_Check = check f, w_Severity = severity f, w_Title = title f,
     w_Remediation = remediation f, w_Evidence = evidence f\<rparr>"

definition webhook_payload_of :: "digest \<Rightarrow> webhook_payload" where
  "webhook_payload_of d =
     \<lparr>Version = 1, p_Module = d_Module d, p_At = d_At d, p_Opened = map toWire (d_Opened d),
      p_Resolved = map toWire (d_Resolved d)\<rparr>"

text \<open>
  \<open>json.Marshal\<close> of the payload fails when some evidence value does not marshal (empty evidence is
  left out), or when the year is not one of four digits.
\<close>

definition evidence_marshals :: "evidence \<Rightarrow> bool" where
  "evidence_marshals ev = (case ev of None \<Rightarrow> True | Some [] \<Rightarrow> True | Some kvs \<Rightarrow> json_marshal (AMap kvs) \<noteq> None)"

definition year_ok :: "instant \<Rightarrow> bool" where
  "year_ok t = (let (y, m, d) = civil_of_days (t div day_ns) in 0 \<le> y \<and> y \<le> 9999)"

definition payload_marshals :: "webhook_payload \<Rightarrow> bool" where
  "payload_marshals p \<longleftrightarrow> year_ok (p_At p) \<and>
     list_all (\<lambda>f. evidence_marshals (w_Evidence f)) (p_Opened p @ p_Resolved p)"

text \<open>A response: its status code and status text, or a transport error.\<close>

type_synonym http_response = "goerror + (int \<times> gostring)"

definition http_status_error :: "gostring \<Rightarrow> http_response \<Rightarrow> goerror option" where
  "http_status_error name r =
     (case r of
        Inl e \<Rightarrow> Some e
      | Inr (code, text) \<Rightarrow> if code < 200 \<or> code > 299 then Some (name @ '' returned '' @ text) else None)"

record webhook_channel =
  wh_URL :: gostring
  wh_Secret :: gostring

definition webhook_headers :: "webhook_channel \<Rightarrow> (gostring \<times> gostring) list" where
  "webhook_headers w =
     (''Content-Type'', ''application/json'') #
     (if wh_Secret w \<noteq> [] then [(''X-Hexward-Token'', wh_Secret w), (''X-Sentinel-Token'', wh_Secret w)] else [])"

text \<open>
  \<open>url_error\<close> is what \<open>http.NewRequestWithContext\<close> says of the URL; \<open>post\<close> is the HTTP client. The
  second component lists the requests that were sent.
\<close>

definition webhook_Send ::
  "(gostring \<Rightarrow> goerror option) \<Rightarrow> (http_request \<Rightarrow> webhook_payload \<Rightarrow> http_response) \<Rightarrow> webhook_channel \<Rightarrow>
   digest \<Rightarrow> goerror option \<times> (http_request \<times> webhook_payload) list" where
  "webhook_Send url_error post w d =
     (let payload = webhook_payload_of d in
      if \<not> payload_marshals payload then (Some ''json: unsupported value'', [])
      else case url_error (wh_URL w) of
             Some e \<Rightarrow> (Some e, [])
           | None \<Rightarrow>
               (let req = \<lparr>req_URL = wh_URL w, req_Headers = webhook_headers w\<rparr>
                in (http_status_error ''webhook'' (post req payload), [(req, payload)])))"

subsection \<open>Slack and Telegram\<close>

text \<open>A map of strings always marshals.\<close>

definition chat_Send ::
  "gostring \<Rightarrow> (gostring \<Rightarrow> goerror option) \<Rightarrow> (http_request \<Rightarrow> (gostring \<times> gostring) list \<Rightarrow> http_response) \<Rightarrow>
   gostring \<Rightarrow> (gostring \<times> gostring) list \<Rightarrow> goerror option \<times> (http_request \<times> (gostring \<times> gostring) list) list" where
  "chat_Send name url_error post url body =
     (case url_error url of
        Some e \<Rightarrow> (Some e, [])
      | None \<Rightarrow>
          (let req = \<lparr>req_URL = url, req_Headers = [(''Content-Type'', ''application/json'')]\<rparr>
           in (http_status_error name (post req body), [(req, body)])))"

definition slack_Send where
  "slack_Send url_error post webhook_url d =
     chat_Send ''slack'' url_error post webhook_url [(''text'', FormatText d)]"

record telegram_channel =
  BotToken :: gostring
  ChatID :: gostring
  BaseURL :: gostring

definition telegram_Send where
  "telegram_Send url_error post t d =
     (let base = (if BaseURL t = [] then ''https://api.telegram.org'' else BaseURL t);
          url = base @ ''/bot'' @ BotToken t @ ''/sendMessage''
      in chat_Send ''telegram'' url_error post url [(''chat_id'', ChatID t), (''text'', FormatText d)])"

subsection \<open>Syslog\<close>

record syslog_channel =
  Addr :: gostring
  Network :: gostring
  Hostname :: gostring
  Tag :: gostring
  Facility :: int

definition syslogSeverity :: "gostring \<Rightarrow> int" where
  "syslogSeverity sev =
     (let s = ToLower sev in
      if s = ''critical'' then 2
      else if s = ''high'' then 3
      else if s = ''medium'' then 4
      else if s = ''low'' then 5
      else 6)"

definition statusWord :: "bool \<Rightarrow> gostring" where
  "statusWord resolved = (if resolved then ''resolved'' else ''open'')"

fun evidence_ip_from :: "gostring list \<Rightarrow> evidence \<Rightarrow> gostring" where
  "evidence_ip_from [] ev = []"
| "evidence_ip_from (key # keys) ev =
     (case (case ev of None \<Rightarrow> None | Some kvs \<Rightarrow> map_of kvs key) of
        Some (AStr s) \<Rightarrow> if ParseIP_ok (TrimSpace s) then TrimSpace s else evidence_ip_from keys ev
      | _ \<Rightarrow> evidence_ip_from keys ev)"

definition evidenceIP :: "evidence \<Rightarrow> gostring" where
  "evidenceIP ev = evidence_ip_from [''source_ip'', ''src_ip'', ''src'', ''actor'', ''client_ip'', ''ip''] ev"

text \<open>
  \<open>strings.Map\<close> visits the runes; an invalid byte is the replacement character and is written out
  as such. The cut afterwards is at a byte offset.
\<close>

definition blank_rune :: "gostring \<Rightarrow> gostring" where
  "blank_rune r = (if r = [newline] \<or> r = [mkbyte 13] \<or> r = [mkbyte 0] then '' '' else r)"

definition syslog_max :: nat where "syslog_max = 1600"

definition sanitizeSyslog :: "gostring \<Rightarrow> gostring" where
  "sanitizeSyslog s =
     (let s = concat (map blank_rune (go_runes s))
      in if length s > syslog_max then take syslog_max s @ utf_ellipsis else s)"

definition syslogMessage :: "gostring \<Rightarrow> finding \<Rightarrow> bool \<Rightarrow> gostring" where
  "syslogMessage m f resolved =
     (let b = (if resolved then ''RESOLVED: '' else []) @ title f
              @ '' | product='' @ m @ '' severity='' @ severity f @ '' check='' @ check f
              @ '' target='' @ target f @ '' status='' @ statusWord resolved;
          ip = evidenceIP (evidence f)
      in sanitizeSyslog (if ip \<noteq> [] then b @ '' src='' @ ip else b))"

text \<open>One frame; \<open>pid\<close> is the process id.\<close>

definition syslog_frame :: "int \<Rightarrow> gostring \<Rightarrow> gostring \<Rightarrow> gostring \<Rightarrow> int \<Rightarrow> gostring \<Rightarrow> gostring" where
  "syslog_frame pri ts host tag pid msg =
     ''<'' @ show_int pri @ ''>'' @ ts @ '' '' @ host @ '' '' @ tag @ ''['' @ show_int pid @ '']: '' @ msg @ [newline]"

text \<open>
  \<open>os_host\<close> is \<open>os.Hostname\<close> (none when it fails), \<open>now\<close> the clock, read only when the digest has no
  time.
\<close>

definition syslog_lines :: "gostring option \<Rightarrow> int \<Rightarrow> instant \<Rightarrow> syslog_channel \<Rightarrow> digest \<Rightarrow> gostring list" where
  "syslog_lines os_host pid now s d =
     (let host = (if Hostname s = []
                  then (case os_host of Some h \<Rightarrow> if h \<noteq> [] then h else ''-'' | None \<Rightarrow> ''-'')
                  else Hostname s);
          tag = (if Tag s = [] then d_Module d else Tag s);
          facility = (if Facility s = 0 then 16 else Facility s);
          stamp = (if IsZero (d_At d) then now else d_At d);
          ts = format_Stamp stamp
      in map (\<lambda>f. syslog_frame (facility * 8 + syslogSeverity (severity f)) ts host tag pid
                    (syslogMessage (d_Module d) f False)) (d_Opened d)
         @ map (\<lambda>f. syslog_frame (facility * 8 + 5) ts host tag pid
                      (syslogMessage (d_Module d) f True)) (d_Resolved d))"

text \<open>\<open>dial\<close> opens the connection, \<open>accept i\<close> is what writing the \<open>i\<close>-th frame answers.\<close>

fun write_frames :: "(nat \<Rightarrow> goerror option) \<Rightarrow> nat \<Rightarrow> gostring list \<Rightarrow> goerror option \<times> gostring list" where
  "write_frames accept i [] = (None, [])"
| "write_frames accept i (l # ls) =
     (case accept i of
        Some e \<Rightarrow> (Some e, [])
      | None \<Rightarrow> (let (err, ws) = write_frames accept (Suc i) ls in (err, l # ws)))"

definition syslog_Send ::
  "gostring option \<Rightarrow> int \<Rightarrow> instant \<Rightarrow> (gostring \<Rightarrow> gostring \<Rightarrow> goerror option) \<Rightarrow> (nat \<Rightarrow> goerror option) \<Rightarrow>
   syslog_channel \<Rightarrow> digest \<Rightarrow> goerror option \<times> gostring list" where
  "syslog_Send os_host pid now dial accept s d =
     (if digest_Empty d then (None, [])
      else
        (let network = (if Network s = [] then ''udp'' else Network s) in
         case dial network (Addr s) of
           Some e \<Rightarrow> (Some e, [])
         | None \<Rightarrow> write_frames accept 0 (syslog_lines os_host pid now s d)))"

subsection \<open>One finding, one frame\<close>

lemma byte_in_high: "byte_in 0x80 0xBF c \<Longrightarrow> 128 \<le> byte c"
  by (simp add: byte_in_def)

text \<open>A rune of more than one byte has no byte below 128.\<close>

lemma is_rune_bytes:
  assumes "is_rune r" "c \<in> set r" "byte c < 128"
  shows "r = [c]"
proof -
  obtain a u where r: "r = a # u" using assms(1) is_rune_nonempty by (cases r) auto
  obtain n lo hi where sh: "rune_shape (byte a) = (n, lo, hi)" by (cases "rune_shape (byte a)")
  have w: "rune_width (a # u) = Some (length (a # u))" using assms(1) r by (simp add: is_rune_def)
  then have n: "n = length (a # u)" and tails: "n = 1 \<or> byte_in lo hi (hd u) \<and> list_all (byte_in 0x80 0xBF) (take (n - 2) (tl u))"
    using sh by (auto simp: rune_width_Some_iff)
  show ?thesis
  proof (cases "n = 1")
    case True
    with n r assms(2) show ?thesis by simp
  next
    case False
    have a: "128 \<le> byte a" using sh False n by (auto simp: rune_shape_def split: if_splits)
    have lo: "128 \<le> lo" using sh False n by (auto simp: rune_shape_def split: if_splits)
    have "\<forall>x \<in> set u. 128 \<le> byte x"
    proof (cases u)
      case (Cons x v)
      have "take (n - 2) (tl u) = v" using n Cons by simp
      with tails False lo Cons show ?thesis by (auto simp: byte_in_def list_all_iff)
    qed simp
    with a assms(2,3) r show ?thesis by auto
  qed
qed

text \<open>The bytes that would end a frame: NUL, line feed, carriage return.\<close>

definition breaks_frame :: "char \<Rightarrow> bool" where
  "breaks_frame c \<longleftrightarrow> byte c = 0 \<or> byte c = 10 \<or> byte c = 13"

lemma breaks_frame_mkbyte: "n < 256 \<Longrightarrow> breaks_frame (mkbyte n) \<longleftrightarrow> n = 0 \<or> n = 10 \<or> n = 13"
  by (simp add: breaks_frame_def byte_mkbyte)

lemma breaks_frame_iff: "breaks_frame c \<longleftrightarrow> c = mkbyte 0 \<or> c = newline \<or> c = mkbyte 13"
  by (auto simp: breaks_frame_def byte_mkbyte simp flip: byte_inject)

lemma blank_rune_clean:
  assumes "is_rune r" "c \<in> set (blank_rune r)"
  shows "\<not> breaks_frame c"
proof
  assume b: "breaks_frame c"
  show False
  proof (cases "r = [newline] \<or> r = [mkbyte 13] \<or> r = [mkbyte 0]")
    case True
    with assms(2) have "c = CHR '' ''" by (auto simp: blank_rune_def)
    with b show False by (simp add: breaks_frame_def byte_def)
  next
    case False
    with assms(2) have "c \<in> set r" by (simp add: blank_rune_def)
    moreover have "byte c < 128" using b by (auto simp: breaks_frame_def)
    ultimately have "r = [c]" using assms(1) by (blast intro: is_rune_bytes)
    with False b show False by (auto simp: breaks_frame_iff)
  qed
qed

lemma sanitizeSyslog_clean:
  assumes "c \<in> set (sanitizeSyslog s)"
  shows "\<not> breaks_frame c"
proof -
  let ?b = "concat (map blank_rune (go_runes s))"
  have clean: "\<not> breaks_frame x" if "x \<in> set ?b" for x
    using that blank_rune_clean go_runes_is_rune by auto
  have "c \<in> set ?b \<or> c \<in> set utf_ellipsis"
    using assms by (auto simp: sanitizeSyslog_def Let_def split: if_splits dest: in_set_takeD)
  then show ?thesis using clean by (auto simp: breaks_frame_mkbyte)
qed

lemma length_sanitizeSyslog: "length (sanitizeSyslog s) \<le> syslog_max + 3"
  by (simp add: sanitizeSyslog_def Let_def)

lemma show_int_clean: "c \<in> set (show_int i) \<Longrightarrow> \<not> breaks_frame c"
  by (auto simp: show_int_def breaks_frame_def byte_mkbyte split: if_splits dest!: show_nat_digits)

lemma plain_text_clean: "list_all (\<lambda>c. 32 \<le> byte c) s \<Longrightarrow> c \<in> set s \<Longrightarrow> \<not> breaks_frame c"
  by (auto simp: list_all_iff breaks_frame_def)

definition frame_safe :: "gostring \<Rightarrow> bool" where
  "frame_safe s \<longleftrightarrow> list_all (\<lambda>c. \<not> breaks_frame c) s"

lemma frame_safe_append [simp]: "frame_safe (s @ t) \<longleftrightarrow> frame_safe s \<and> frame_safe t"
  by (simp add: frame_safe_def)

lemma frame_safe_simps [simp]:
  "frame_safe []" "frame_safe (c # s) \<longleftrightarrow> \<not> breaks_frame c \<and> frame_safe s" "frame_safe (show_int i)"
  by (simp_all add: frame_safe_def list_all_iff show_int_clean)

lemma frame_safe_pad_left: "\<not> breaks_frame c \<Longrightarrow> frame_safe s \<Longrightarrow> frame_safe (pad_left n c s)"
  by (auto simp: pad_left_def frame_safe_def list_all_iff)

lemma breaks_frame_chars [simp]:
  "\<not> breaks_frame (CHR ''<'')" "\<not> breaks_frame (CHR ''>'')" "\<not> breaks_frame (CHR '' '')"
  "\<not> breaks_frame (CHR ''['')" "\<not> breaks_frame (CHR '']'')" "\<not> breaks_frame (CHR '':'')"
  "\<not> breaks_frame (CHR ''0'')" "\<not> breaks_frame (CHR ''-'')"
  by (simp_all add: breaks_frame_def byte_def)

text \<open>The day of the year, in the 400-year cycle, is between 0 and 365, so the month is one.\<close>

lemma day_of_year_bounds:
  fixes x q y f h c e :: int
  assumes "0 \<le> x" "x \<le> 146096" "1460 * q \<le> x" "x < 1460 * q + 1460"
    "36524 * c \<le> x" "x < 36524 * c + 36524" "146096 * e \<le> x" "x < 146096 * e + 146096"
    "365 * y \<le> x - q + c - e" "x - q + c - e < 365 * y + 365"
    "4 * f \<le> y" "y < 4 * f + 4" "100 * h \<le> y" "y < 100 * h + 100"
  shows "0 \<le> x - (365 * y + f - h) \<and> x - (365 * y + f - h) \<le> 365"
proof -
  have "0 \<le> c" "c \<le> 4" "0 \<le> e" "e \<le> 1" using assms(1-8) by linarith+
  then consider "c = 0 \<and> e = 0" | "c = 1 \<and> e = 0" | "c = 2 \<and> e = 0" | "c = 3 \<and> e = 0" | "c = 4 \<and> e = 1"
    using assms(1-8) by linarith
  then show ?thesis
  proof cases
    case 1
    with assms have "h = 0 \<or> h = 1" by linarith
    with assms 1 show ?thesis by linarith
  next
    case 2
    with assms have "h = 0 \<or> h = 1" by linarith
    with assms 2 show ?thesis by linarith
  next
    case 3
    with assms have "h = 1 \<or> h = 2" by linarith
    with assms 3 show ?thesis by linarith
  next
    case 4
    with assms have "h = 2 \<or> h = 3" by linarith
    with assms 4 show ?thesis by linarith
  next
    case 5
    with assms have "h = 3 \<or> h = 4" by linarith
    with assms 5 show ?thesis by linarith
  qed
qed

lemma div_bounds: "0 < k \<Longrightarrow> k * (a div k) \<le> a \<and> a < k * (a div k) + (k :: int)"
  using pos_mod_bound [of k a] pos_mod_sign [of k a] mult_div_mod_eq [of k a] by linarith

lemma civil_month_bounds:
  assumes "civil_of_days z = (y, m, d)"
  shows "1 \<le> m \<and> m \<le> 12"
proof -
  define x where "x = (z + 719468) - (z + 719468) div 146097 * 146097"
  define w where "w = (x - x div 1460 + x div 36524 - x div 146096) div 365"
  define doy where "doy = x - (365 * w + w div 4 - w div 100)"
  define mp where "mp = (5 * doy + 2) div 153"
  have m: "m = (if mp < 10 then mp + 3 else mp - 9)"
    using assms unfolding civil_of_days_def Let_def x_def w_def doy_def mp_def prod.inject
    by (elim conjE) (rule sym)
  have x: "0 \<le> x" "x \<le> 146096" using div_bounds [of 146097 "z + 719468"] by (simp_all add: x_def)
  have q: "1460 * (x div 1460) \<le> x" "x < 1460 * (x div 1460) + 1460"
    and c: "36524 * (x div 36524) \<le> x" "x < 36524 * (x div 36524) + 36524"
    and e: "146096 * (x div 146096) \<le> x" "x < 146096 * (x div 146096) + 146096"
    and f: "4 * (w div 4) \<le> w" "w < 4 * (w div 4) + 4"
    and h: "100 * (w div 100) \<le> w" "w < 100 * (w div 100) + 100"
    by (rule div_bounds [THEN conjunct1] div_bounds [THEN conjunct2], simp)+
  have w: "365 * w \<le> x - x div 1460 + x div 36524 - x div 146096"
    "x - x div 1460 + x div 36524 - x div 146096 < 365 * w + 365"
    unfolding w_def by (rule div_bounds [THEN conjunct1] div_bounds [THEN conjunct2], simp)+
  have "0 \<le> doy \<and> doy \<le> 365" unfolding doy_def by (rule day_of_year_bounds [OF x q c e w f h])
  then have "0 \<le> mp" "mp \<le> 11" using div_bounds [of 153 "5 * doy + 2"] by (simp_all add: mp_def)
  then show ?thesis by (simp add: m)
qed

lemma month_abbrev_safe: "i < 12 \<Longrightarrow> frame_safe (month_abbrev ! i)"
proof -
  have "list_all frame_safe month_abbrev"
    by (simp add: month_abbrev_def frame_safe_def breaks_frame_def byte_def)
  moreover assume "i < 12"
  ultimately show ?thesis by (simp add: list_all_length month_abbrev_def)
qed

lemma frame_safe_format_Stamp: "frame_safe (format_Stamp t)"
proof -
  obtain y m d where c: "civil_of_days (t div day_ns) = (y, m, d)" by (metis prod.exhaust)
  have "nat (m - 1) < 12" using civil_month_bounds [OF c] by auto
  then show ?thesis
    by (simp add: format_Stamp_def c clock_text_def Let_def month_abbrev_safe frame_safe_pad_left)
qed

text \<open>
  (C30) Nothing in a finding can forge a syslog record. A digest becomes exactly one frame per
  finding, the opened ones first; whatever bytes titles, targets, checks and evidence hold, every
  frame consists of a single line: its only line feed is its last byte and it has no carriage
  return and no NUL (the host name and the tag are configuration and must be clean themselves); and
  the message part is at most 1603 bytes long.
\<close>

theorem syslog_one_frame_per_finding:
  assumes "frame_safe (Hostname s)" "frame_safe (Tag s)" "frame_safe (d_Module d)"
    "case os_host of None \<Rightarrow> True | Some h \<Rightarrow> frame_safe h"
  shows "length (syslog_lines os_host pid now s d) = length (d_Opened d) + length (d_Resolved d)
         \<and> (\<forall>l \<in> set (syslog_lines os_host pid now s d). \<exists>u. l = u @ [newline] \<and> frame_safe u)
         \<and> (\<forall>f r. length (syslogMessage (d_Module d) f r) \<le> 1603)"
proof (intro conjI ballI allI)
  show "length (syslog_lines os_host pid now s d) = length (d_Opened d) + length (d_Resolved d)"
    by (simp add: syslog_lines_def Let_def)
  show "length (syslogMessage (d_Module d) f r) \<le> 1603" for f r
    using length_sanitizeSyslog by (simp add: syslogMessage_def syslog_max_def Let_def)
  have msg: "frame_safe (syslogMessage (d_Module d) f r)" for f r
    using sanitizeSyslog_clean by (simp add: syslogMessage_def frame_safe_def list_all_iff Let_def)
  have frame: "\<exists>u. syslog_frame pri (format_Stamp t) host tag pid (syslogMessage (d_Module d) f r) = u @ [newline] \<and> frame_safe u"
    if "frame_safe host" "frame_safe tag" for pri t host tag f r
    using that msg [of f r] frame_safe_format_Stamp [of t]
    by (intro exI [of _ "''<'' @ show_int pri @ ''>'' @ format_Stamp t @ '' '' @ host @ '' '' @ tag @ ''['' @ show_int pid @ '']: '' @ syslogMessage (d_Module d) f r"])
      (simp add: syslog_frame_def)
  let ?host = "if Hostname s = [] then (case os_host of Some h \<Rightarrow> if h \<noteq> [] then h else ''-'' | None \<Rightarrow> ''-'') else Hostname s"
  let ?tag = "if Tag s = [] then d_Module d else Tag s"
  have ht: "frame_safe ?host" "frame_safe ?tag" using assms by (auto split: option.splits)
  fix l assume "l \<in> set (syslog_lines os_host pid now s d)"
  then show "\<exists>u. l = u @ [newline] \<and> frame_safe u"
    using frame [OF ht] unfolding syslog_lines_def Let_def by auto
qed

definition demo_syslog :: syslog_channel where
  "demo_syslog = \<lparr>Addr = ''127.0.0.1:5514'', Network = [], Hostname = ''h'', Tag = [], Facility = 0\<rparr>"

definition demo_hostile :: digest where
  "demo_hostile =
     \<lparr>d_Module = ''asm'',
      d_Opened = [(n_Finding (demo_event ''a''))\<lparr>title := ''x'' @ [newline] @ ''<0>forged''\<rparr>],
      d_Resolved = [], d_At = 0\<rparr>"

lemma syslog_one_frame_per_finding_witness:
  "newline \<in> set (title (hd (d_Opened demo_hostile)))
   \<and> length (syslog_lines None 1 0 demo_syslog demo_hostile) = 1
   \<and> list_all (\<lambda>l. \<exists>u. l = u @ [newline] \<and> frame_safe u) (syslog_lines None 1 0 demo_syslog demo_hostile)"
proof -
  have "frame_safe (Hostname demo_syslog)" "frame_safe (Tag demo_syslog)" "frame_safe (d_Module demo_hostile)"
    by (simp_all add: demo_syslog_def demo_hostile_def frame_safe_def breaks_frame_def byte_def)
  from syslog_one_frame_per_finding [OF this, of None 1 0] show ?thesis
    by (simp add: demo_hostile_def list_all_iff)
qed

subsection \<open>What the message mentions\<close>

lemma TrimRight_keeps:
  assumes "last v \<notin> set cs" "v \<noteq> []"
  shows "\<exists>w'. TrimRight (u @ v @ w) cs = u @ v @ w'"
proof -
  obtain v' c where v: "v = v' @ [c]" "c \<notin> set cs" using assms by (cases v rule: rev_cases) auto
  have "\<exists>z. dropWhile (\<lambda>x. x \<in> set cs) (rev w @ c # y) = z @ c # y" for y
    using v(2) by (induction "rev w") (auto, metis append_Cons append_Nil dropWhile_append3 dropWhile.simps(2))
  then obtain z where "dropWhile (\<lambda>x. x \<in> set cs) (rev w @ c # rev v' @ rev u) = z @ c # rev v' @ rev u" by blast
  then have "TrimRight (u @ v @ w) cs = u @ v @ rev z" by (simp add: TrimRight_def v(1))
  then show ?thesis by blast
qed

lemma TrimRight_Contains:
  assumes "last v \<notin> set cs" "v \<noteq> []"
  shows "Contains (TrimRight (u @ v @ w) cs) v"
  using TrimRight_keeps [OF assms] by (metis Contains_iff)

text \<open>The two parts of the message.\<close>

definition opened_part :: "digest \<Rightarrow> gostring" where
  "opened_part d =
     (if d_Opened d = [] then []
      else productName (d_Module d) @ '' '' @ utf_dash @ '' '' @ show_nat (length (d_Opened d)) @ '' new finding(s)''
             @ [newline] @ concat (map opened_text (d_Opened d)))"

definition resolved_part :: "digest \<Rightarrow> gostring" where
  "resolved_part d =
     (if d_Resolved d = [] then []
      else (if d_Opened d = [] then [] else [newline]) @ utf_check @ '' '' @ show_nat (length (d_Resolved d))
             @ '' finding(s) resolved'' @ [newline] @ concat (map resolved_text (d_Resolved d)))"

lemma FormatText_parts: "FormatText d = TrimRight (opened_part d @ resolved_part d) [newline]"
  by (simp add: FormatText_def opened_part_def resolved_part_def Let_def)

lemma newline_chars [simp]:
  "CHR '' '' \<noteq> newline" "CHR '')'' \<noteq> newline" "CHR ''d'' \<noteq> newline"
  by code_simp+

lemma concat_map_split: "x \<in> set xs \<Longrightarrow> \<exists>u w. concat (map f xs) = u @ f x @ w"
  by (metis concat.simps(2) concat_append list.simps(9) map_append split_list)

text \<open>
  The chat message leaves nothing out: it is empty exactly for an empty digest; every opened
  finding is shown with its severity badge, target and title, ready for its remediation; every
  resolved one with its target; and the counts of both are stated.
\<close>

theorem FormatText_mentions_all:
  shows "(FormatText d = [] \<longleftrightarrow> digest_Empty d)
    \<and> (\<forall>f \<in> set (d_Opened d). Contains (FormatText d)
          (severityBadge (severity f) @ '' '' @ target f @ newline # ''  '' @ title f @ newline # ''  '' @ utf_arrow @ '' ''))
    \<and> (\<forall>f \<in> set (d_Resolved d). Contains (FormatText d) (utf_bullet @ '' '' @ target f @ '' '' @ utf_dash @ '' ''))
    \<and> (d_Opened d \<noteq> [] \<longrightarrow> Contains (FormatText d)
          (productName (d_Module d) @ '' '' @ utf_dash @ '' '' @ show_nat (length (d_Opened d)) @ '' new finding(s)''))
    \<and> (d_Resolved d \<noteq> [] \<longrightarrow> Contains (FormatText d)
          (utf_check @ '' '' @ show_nat (length (d_Resolved d)) @ '' finding(s) resolved''))"
proof (intro conjI ballI impI)
  let ?T = "opened_part d @ resolved_part d"
  have mention: "Contains (FormatText d) v" if "?T = u @ v @ w" "last v \<noteq> newline" "v \<noteq> []" for u v w
    using TrimRight_Contains [of v "[newline]" u w] that by (simp add: FormatText_parts)
  show op: "Contains (FormatText d)
      (productName (d_Module d) @ '' '' @ utf_dash @ '' '' @ show_nat (length (d_Opened d)) @ '' new finding(s)'')"
    if "d_Opened d \<noteq> []" using that
    by (intro mention [of "[]" _ "[newline] @ concat (map opened_text (d_Opened d)) @ resolved_part d"])
      (simp_all add: opened_part_def)
  show re: "Contains (FormatText d) (utf_check @ '' '' @ show_nat (length (d_Resolved d)) @ '' finding(s) resolved'')"
    if "d_Resolved d \<noteq> []" using that
    by (intro mention [of "opened_part d @ (if d_Opened d = [] then [] else [newline])" _
          "[newline] @ concat (map resolved_text (d_Resolved d))"])
      (simp_all add: resolved_part_def)
  show "Contains (FormatText d)
         (severityBadge (severity f) @ '' '' @ target f @ newline # ''  '' @ title f @ newline # ''  '' @ utf_arrow @ '' '')"
    if f: "f \<in> set (d_Opened d)" for f
  proof -
    obtain u w where c: "concat (map opened_text (d_Opened d)) = u @ opened_text f @ w"
      using concat_map_split [OF f] by blast
    have "d_Opened d \<noteq> []" using f by auto
    then show ?thesis
      by (intro mention [of "productName (d_Module d) @ '' '' @ utf_dash @ '' '' @ show_nat (length (d_Opened d))
            @ '' new finding(s)'' @ [newline] @ u @ [newline]" _ "remediation f @ [newline] @ w @ resolved_part d"])
        (simp_all add: opened_part_def c opened_text_def)
  qed
  show "Contains (FormatText d) (utf_bullet @ '' '' @ target f @ '' '' @ utf_dash @ '' '')"
    if f: "f \<in> set (d_Resolved d)" for f
  proof -
    obtain u w where c: "concat (map resolved_text (d_Resolved d)) = u @ resolved_text f @ w"
      using concat_map_split [OF f] by blast
    have "d_Resolved d \<noteq> []" using f by auto
    then show ?thesis
      by (intro mention [of "opened_part d @ (if d_Opened d = [] then [] else [newline]) @ utf_check @ '' ''
            @ show_nat (length (d_Resolved d)) @ '' finding(s) resolved'' @ [newline] @ u @ ''  ''" _ "title f @ [newline] @ w"])
        (simp_all add: resolved_part_def c resolved_text_def)
  qed
  show "FormatText d = [] \<longleftrightarrow> digest_Empty d"
  proof
    assume e: "FormatText d = []"
    have "\<not> Contains [] v" if "v \<noteq> []" for v using that by (simp add: Contains_iff)
    then have "d_Opened d = []" "d_Resolved d = []" using op re e by auto
    then show "digest_Empty d" by (simp add: digest_Empty_def)
  next
    assume "digest_Empty d"
    then show "FormatText d = []" by (simp add: digest_Empty_def FormatText_def TrimRight_def)
  qed
qed

lemma FormatText_mentions_all_witness:
  "FormatText demo_hostile \<noteq> [] \<and> Contains (FormatText demo_hostile)
     (productName ''asm'' @ '' '' @ utf_dash @ '' '' @ show_nat 1 @ '' new finding(s)'')"
  using FormatText_mentions_all [of demo_hostile] by (simp add: demo_hostile_def digest_Empty_def)

subsection \<open>Schema events (\<open>hfs.go\<close>, \<open>hfsbridge/hfsbridge.go\<close>)\<close>

text \<open>
  The event schema and the sinks are an external module: its event constructor \<open>hfs_new\<close>, its
  options \<open>'o\<close> and the sink's \<open>Send\<close> are parameters.
\<close>

record hfs_source =
  s_ID :: gostring
  s_Fingerprint :: gostring
  s_Check :: gostring
  s_Title :: gostring
  s_Target :: gostring
  s_Severity :: gostring
  s_Status :: gostring
  s_Remediation :: gostring
  s_FirstSeen :: instant
  s_LastSeen :: instant
  s_ResolvedAt :: "instant option"
  s_GroupID :: "gostring option"
  s_Evidence :: evidence

definition Source :: "finding \<Rightarrow> hfs_source" where
  "Source f =
     \<lparr>s_ID = finding_id f, s_Fingerprint = fingerprint f, s_Check = check f, s_Title = title f,
      s_Target = target f, s_Severity = severity f, s_Status = status f, s_Remediation = remediation f,
      s_FirstSeen = firstSeen f, s_LastSeen = lastSeen f, s_ResolvedAt = resolvedAt f,
      s_GroupID = groupID f, s_Evidence = evidence f\<rparr>"

record hfs_meta =
  m_Product :: gostring
  m_Version :: gostring
  m_Host :: gostring

definition hfs_events ::
  "(gostring \<Rightarrow> hfs_meta \<Rightarrow> hfs_source \<Rightarrow> instant \<Rightarrow> 'o \<Rightarrow> 'e) \<Rightarrow> instant \<Rightarrow> hfs_meta \<Rightarrow> digest \<Rightarrow> 'o \<Rightarrow> 'e list" where
  "hfs_events hfs_new now meta d opt =
     (let meta = (if m_Product meta = [] then meta\<lparr>m_Product := d_Module d\<rparr> else meta);
          t = (if IsZero (d_At d) then now else d_At d)
      in map (\<lambda>f. hfs_new KindOpened meta (Source f) t opt) (d_Opened d)
         @ map (\<lambda>f. hfs_new KindResolved meta (Source f) t opt) (d_Resolved d))"

definition hfs_Send ::
  "(gostring \<Rightarrow> hfs_meta \<Rightarrow> hfs_source \<Rightarrow> instant \<Rightarrow> 'o \<Rightarrow> 'e) \<Rightarrow> ('e list \<Rightarrow> goerror option) \<Rightarrow> instant \<Rightarrow>
   hfs_meta \<Rightarrow> 'o \<Rightarrow> digest \<Rightarrow> goerror option" where
  "hfs_Send hfs_new send now meta opt d =
     (if digest_Empty d then None else send (hfs_events hfs_new now meta d opt))"

text \<open>The bridge forgets nothing but the module: the finding can be rebuilt from the schema's input.\<close>

definition finding_from :: "gostring \<Rightarrow> hfs_source \<Rightarrow> finding" where
  "finding_from m s =
     \<lparr>fingerprint = s_Fingerprint s, target = s_Target s, check = s_Check s, title = s_Title s,
      severity = s_Severity s, remediation = s_Remediation s, evidence = s_Evidence s,
      finding_id = s_ID s, finding_module = m, status = s_Status s, groupID = s_GroupID s,
      firstSeen = s_FirstSeen s, lastSeen = s_LastSeen s, resolvedAt = s_ResolvedAt s\<rparr>"

lemma Source_faithful: "finding_from (finding_module f) (Source f) = f"
  by (simp add: finding_from_def Source_def)

lemma hfs_events_length:
  "length (hfs_events hfs_new now meta d opt) = length (d_Opened d) + length (d_Resolved d)"
  by (simp add: hfs_events_def Let_def)

end
