(* ===== verification/License.thy ===== *)
theory License
  imports GoStd "HOL-Library.AList"
begin

section \<open>Licensing (\<open>license/license.go\<close>)\<close>

text \<open>
  Tiers and their limits, the signed key format, its verification, and the activation the product
  runs under. Ed25519 and the JSON codec of the license structure are parameters; the base64url
  codec of the keys is written out. Times are instants, so the calendar arithmetic is that of UTC.
\<close>

subsection \<open>Raw base64url\<close>

text \<open>
  \<open>base64.RawURLEncoding\<close>: no padding; the decoder skips line breaks, accepts a last group of two
  or three characters whatever its unused bits are, and refuses any other character.
\<close>

definition b64_char :: "nat \<Rightarrow> char" where
  "b64_char n =
     mkbyte (if n < 26 then 65 + n else if n < 52 then 71 + n else if n < 62 then n - 4
             else if n = 62 then 45 else 95)"

definition b64_value :: "char \<Rightarrow> nat option" where
  "b64_value c =
     (let b = byte c in
      if 65 \<le> b \<and> b \<le> 90 then Some (b - 65)
      else if 97 \<le> b \<and> b \<le> 122 then Some (b - 71)
      else if 48 \<le> b \<and> b \<le> 57 then Some (b + 4)
      else if b = 45 then Some 62
      else if b = 95 then Some 63
      else None)"

fun b64_encode :: "gostring \<Rightarrow> gostring" where
  "b64_encode (a # b # c # s) =
     (let v = byte a * 65536 + byte b * 256 + byte c
      in b64_char (v div 262144) # b64_char (v div 4096 mod 64) # b64_char (v div 64 mod 64)
           # b64_char (v mod 64) # b64_encode s)"
| "b64_encode [a, b] =
     (let v = byte a * 65536 + byte b * 256
      in [b64_char (v div 262144), b64_char (v div 4096 mod 64), b64_char (v div 64 mod 64)])"
| "b64_encode [a] =
     (let v = byte a * 65536 in [b64_char (v div 262144), b64_char (v div 4096 mod 64)])"
| "b64_encode [] = []"

fun b64_groups :: "nat list \<Rightarrow> gostring option" where
  "b64_groups (w # x # y # z # s) =
     (let v = w * 262144 + x * 4096 + y * 64 + z
      in map_option (\<lambda>r. mkbyte (v div 65536) # mkbyte (v div 256 mod 256) # mkbyte (v mod 256) # r) (b64_groups s))"
| "b64_groups [w, x, y] =
     (let v = w * 262144 + x * 4096 + y * 64 in Some [mkbyte (v div 65536), mkbyte (v div 256 mod 256)])"
| "b64_groups [w, x] = (let v = w * 262144 + x * 4096 in Some [mkbyte (v div 65536)])"
| "b64_groups [w] = None"
| "b64_groups [] = Some []"

fun b64_values :: "gostring \<Rightarrow> nat list option" where
  "b64_values [] = Some []"
| "b64_values (c # s) =
     (if c = mkbyte 10 \<or> c = mkbyte 13 then b64_values s
      else case b64_value c of None \<Rightarrow> None | Some n \<Rightarrow> map_option ((#) n) (b64_values s))"

definition b64_decode :: "gostring \<Rightarrow> gostring option" where
  "b64_decode s = (case b64_values s of None \<Rightarrow> None | Some ns \<Rightarrow> b64_groups ns)"

lemma b64_value_char: "n < 64 \<Longrightarrow> b64_value (b64_char n) = Some n"
  by (auto simp: b64_value_def b64_char_def byte_mkbyte Let_def)

lemma b64_char_visible:
  assumes "n < 64"
  shows "32 < byte (b64_char n) \<and> byte (b64_char n) < 128 \<and> byte (b64_char n) \<noteq> 46"
  using assms by (auto simp: b64_char_def byte_mkbyte)

lemma b64_values_char:
  assumes "n < 64"
  shows "b64_values (b64_char n # s) = map_option ((#) n) (b64_values s)"
proof -
  have "b64_char n \<noteq> mkbyte 10" "b64_char n \<noteq> mkbyte 13"
    using b64_char_visible [OF assms] by (auto simp: byte_mkbyte simp flip: byte_inject)
  then show ?thesis by (simp add: b64_value_char [OF assms])
qed

lemma mkbyte_byte: "mkbyte (byte c) = c"
  by (simp add: byte_mkbyte byte_less flip: byte_inject)

lemma div_mult_add: "r < k \<Longrightarrow> (q * k + r) div k = (q :: nat)" "r < k \<Longrightarrow> (q * k + r) mod k = r"
  by simp_all

lemma b64_digits:
  fixes v :: nat
  assumes "v < 16777216"
  shows "v div 262144 < 64" "v div 4096 mod 64 < 64" "v div 64 mod 64 < 64" "v mod 64 < 64"
    and "v div 262144 * 262144 + v div 4096 mod 64 * 4096 + v div 64 mod 64 * 64 + v mod 64 = v"
proof -
  have d: "v div 4096 = v div 64 div 64" "v div 262144 = v div 4096 div 64"
    by (simp_all flip: div_mult2_eq)
  have "v = 64 * (v div 64) + v mod 64" "v div 64 = 64 * (v div 4096) + v div 64 mod 64"
    "v div 4096 = 64 * (v div 262144) + v div 4096 mod 64"
    unfolding d by simp_all
  then show "v div 262144 * 262144 + v div 4096 mod 64 * 4096 + v div 64 mod 64 * 64 + v mod 64 = v"
    by linarith
  show "v div 262144 < 64" using assms by (intro less_mult_imp_div_less) simp
qed simp_all

lemma b64_bytes:
  fixes a b c :: nat
  assumes "a < 256" "b < 256" "c < 256"
  shows "a * 65536 + b * 256 + c < 16777216"
    and "(a * 65536 + b * 256 + c) div 65536 = a" "(a * 65536 + b * 256 + c) div 256 mod 256 = b"
    "(a * 65536 + b * 256 + c) mod 256 = c"
proof -
  have v: "a * 65536 + b * 256 + c = (a * 256 + b) * 256 + c" by simp
  have d: "(a * 65536 + b * 256 + c) div 256 = a * 256 + b" unfolding v using assms(3) by (rule div_mult_add)
  show "(a * 65536 + b * 256 + c) mod 256 = c" unfolding v using assms(3) by (rule div_mult_add)
  show "(a * 65536 + b * 256 + c) div 256 mod 256 = b" unfolding d using assms(2) by (rule div_mult_add)
  have "(a * 65536 + b * 256 + c) div 65536 = (a * 65536 + b * 256 + c) div 256 div 256"
    by (simp flip: div_mult2_eq)
  also have "\<dots> = a" unfolding d using assms(2) by (rule div_mult_add)
  finally show "(a * 65536 + b * 256 + c) div 65536 = a" .
qed (use assms in simp)

lemma b64_encode_visible: "visible (b64_encode s) \<and> mkbyte 46 \<notin> set (b64_encode s)"
proof (induction s rule: b64_encode.induct)
  case (1 a b c s)
  have "byte a * 65536 + byte b * 256 + byte c < 16777216"
    using byte_less [of a] byte_less [of b] byte_less [of c] by simp
  from b64_digits [OF this] 1 show ?case
    using b64_char_visible by (auto simp: Let_def visible_Cons byte_mkbyte simp flip: byte_inject)
next
  case (2 a b)
  have "byte a * 65536 + byte b * 256 < 16777216" using byte_less [of a] byte_less [of b] by simp
  from b64_digits [OF this] show ?case
    using b64_char_visible by (auto simp: Let_def visible_Cons byte_mkbyte simp flip: byte_inject)
next
  case (3 a)
  have "byte a * 65536 < 16777216" using byte_less [of a] by simp
  from b64_digits [OF this] show ?case
    using b64_char_visible by (auto simp: Let_def visible_Cons byte_mkbyte simp flip: byte_inject)
qed simp

lemma b64_roundtrip: "b64_decode (b64_encode s) = Some s"
proof (induction s rule: b64_encode.induct)
  case (1 a b c s)
  define v where "v = byte a * 65536 + byte b * 256 + byte c"
  note bytes = b64_bytes [OF byte_less [of a] byte_less [of b] byte_less [of c], folded v_def]
  note d = b64_digits [OF bytes(1)]
  obtain ns where ns: "b64_values (b64_encode s) = Some ns" "b64_groups ns = Some s"
    using 1 by (auto simp: b64_decode_def split: option.splits)
  have "b64_values (b64_encode (a # b # c # s)) =
      Some (v div 262144 # v div 4096 mod 64 # v div 64 mod 64 # v mod 64 # ns)"
    by (simp add: Let_def b64_values_char d(1-4) ns(1) flip: v_def del: b64_values.simps)
  then show ?case
    by (simp only: b64_decode_def option.case b64_groups.simps Let_def d(5) bytes(2-4) mkbyte_byte ns(2) option.map)
next
  case (2 a b)
  define v where "v = byte a * 65536 + byte b * 256 + 0"
  note bytes = b64_bytes [OF byte_less [of a] byte_less [of b], of 0, folded v_def]
  note d = b64_digits [OF bytes(1)]
  have z: "v mod 64 = 0" by (simp add: v_def mod_eq_0_iff_dvd)
  have e: "v div 262144 * 262144 + v div 4096 mod 64 * 4096 + v div 64 mod 64 * 64 = v"
    using d(5) z by simp
  have v: "byte a * 65536 + byte b * 256 = v" by (simp add: v_def)
  have "b64_values (b64_encode [a, b]) = Some [v div 262144, v div 4096 mod 64, v div 64 mod 64]"
    by (simp add: Let_def b64_values_char d(1-4) v del: b64_values.simps(2))
  then show ?case
    using bytes by (simp only: b64_decode_def option.case b64_groups.simps Let_def e bytes(2,3) mkbyte_byte)
next
  case (3 a)
  define v where "v = byte a * 65536 + 0 * 256 + 0"
  note bytes = b64_bytes [OF byte_less [of a], of 0 0, folded v_def]
  note d = b64_digits [OF bytes(1)]
  have z: "v mod 64 = 0" by (simp add: v_def mod_eq_0_iff_dvd)
  have z2: "v div 64 mod 64 = 0"
  proof -
    have "v = (byte a * 16 * 64) * 64" by (simp add: v_def)
    then show ?thesis by simp
  qed
  have e: "v div 262144 * 262144 + v div 4096 mod 64 * 4096 = v" using d(5) z z2 by simp
  have v: "byte a * 65536 = v" by (simp add: v_def)
  have "b64_values (b64_encode [a]) = Some [v div 262144, v div 4096 mod 64]"
    by (simp add: Let_def b64_values_char d(1-4) v del: b64_values.simps(2))
  then show ?case
    using bytes by (simp only: b64_decode_def option.case b64_groups.simps Let_def e bytes(2) mkbyte_byte)
next
  case 4
  then show ?case by (simp add: b64_decode_def)
qed

subsection \<open>Tiers, limits and licenses\<close>

type_synonym tier = gostring

definition TierFree :: tier where "TierFree = ''free''"
definition TierPro :: tier where "TierPro = ''pro''"
definition TierTeam :: tier where "TierTeam = ''team''"

lemma tiers_distinct [simp]:
  "TierFree \<noteq> TierPro" "TierFree \<noteq> TierTeam" "TierPro \<noteq> TierTeam"
  "TierPro \<noteq> TierFree" "TierTeam \<noteq> TierFree" "TierTeam \<noteq> TierPro"
  by (simp_all add: TierFree_def TierPro_def TierTeam_def)

record limits =
  MaxTargets :: int
  RetentionDays :: int
  Channels :: "gostring list"
  MultiUser :: bool
  CustomInterval :: bool
  ScanNow_allowed :: bool

definition TierLimits :: "(tier \<times> limits) list" where
  "TierLimits =
     [(TierFree, \<lparr>MaxTargets = 10, RetentionDays = 7, Channels = [''webhook''], MultiUser = False,
                  CustomInterval = False, ScanNow_allowed = False\<rparr>),
      (TierPro, \<lparr>MaxTargets = 100, RetentionDays = 365,
                 Channels = [''webhook'', ''email'', ''slack'', ''telegram''], MultiUser = False,
                 CustomInterval = True, ScanNow_allowed = True\<rparr>),
      (TierTeam, \<lparr>MaxTargets = 0, RetentionDays = 0,
                  Channels = [''webhook'', ''email'', ''slack'', ''telegram'', ''pagerduty'', ''teams''],
                  MultiUser = True, CustomInterval = True, ScanNow_allowed = True\<rparr>)]"

definition free_limits :: limits where
  "free_limits = the (map_of TierLimits TierFree)"

definition limitsFor :: "tier \<Rightarrow> limits" where
  "limitsFor t = (case map_of TierLimits t of Some l \<Rightarrow> l | None \<Rightarrow> free_limits)"

record license =
  Product :: gostring
  Tier :: tier
  Email :: gostring
  IssuedAt :: instant
  ExpiresAt :: instant
  KeyID :: gostring

definition zero_license :: license where
  "zero_license = \<lparr>Product = [], Tier = [], Email = [], IssuedAt = time_zero, ExpiresAt = time_zero, KeyID = []\<rparr>"

definition key_prefix :: gostring where "key_prefix = ''SNTL1-''"

definition PublicKeySize :: nat where "PublicKeySize = 32"

text \<open>What the code uses from outside: Ed25519 and the JSON codec of a license.\<close>

record license_lib =
  ed_sign :: "gostring \<Rightarrow> gostring \<Rightarrow> gostring"
  ed_verify :: "gostring \<Rightarrow> gostring \<Rightarrow> gostring \<Rightarrow> bool"
  lic_marshal :: "license \<Rightarrow> gostring option"
  lic_unmarshal :: "gostring \<Rightarrow> license option"

text \<open>\<open>generate\<close> is what \<open>ed25519.GenerateKey\<close> returns: the public and the private key.\<close>

definition GenerateKeypair :: "goerror + gostring \<times> gostring \<Rightarrow> goerror + gostring \<times> gostring" where
  "GenerateKeypair generate = generate"

definition Sign :: "license_lib \<Rightarrow> gostring \<Rightarrow> license \<Rightarrow> goerror + gostring" where
  "Sign L priv lic =
     (if Product lic = [] \<or> Tier lic = [] then Inl ''license needs product and tier''
      else case lic_marshal L lic of
             None \<Rightarrow> Inl ''json: error''
           | Some payload \<Rightarrow>
               Inr (key_prefix @ b64_encode payload @ ''.'' @ b64_encode (ed_sign L priv payload)))"

datatype license_error = ErrMalformed | ErrBadSignature | ErrWrongProduct gostring | ErrExpired

subsection \<open>Verification\<close>

text \<open>The license returned beside an error is the zero one, except for an expired key.\<close>

definition Verify :: "license_lib \<Rightarrow> gostring \<Rightarrow> gostring \<Rightarrow> gostring \<Rightarrow> instant \<Rightarrow> license \<times> license_error option" where
  "Verify L pub product key now =
     (if \<not> HasPrefix key key_prefix then (zero_license, Some ErrMalformed)
      else case SplitN2 (TrimPrefix (TrimSpace key) key_prefix) (CHR ''.'') of
             [p0, p1] \<Rightarrow>
               (case b64_decode p0 of
                  None \<Rightarrow> (zero_license, Some ErrMalformed)
                | Some payload \<Rightarrow>
                    (case b64_decode p1 of
                       None \<Rightarrow> (zero_license, Some ErrMalformed)
                     | Some sig \<Rightarrow>
                         if length pub \<noteq> PublicKeySize then (zero_license, Some ErrBadSignature)
                         else if \<not> ed_verify L pub payload sig then (zero_license, Some ErrBadSignature)
                         else
                           (case lic_unmarshal L payload of
                              None \<Rightarrow> (zero_license, Some ErrMalformed)
                            | Some lic \<Rightarrow>
                                if Product lic \<noteq> product then (zero_license, Some (ErrWrongProduct (Product lic)))
                                else if now > ExpiresAt lic then (lic, Some ErrExpired)
                                else (lic, None))))
           | _ \<Rightarrow> (zero_license, Some ErrMalformed))"

text \<open>
  A license passes the check \<open>signed_for\<close> when some payload carries a valid signature under the
  issuer's key and describes that license.
\<close>

definition signed_for :: "license_lib \<Rightarrow> gostring \<Rightarrow> license \<Rightarrow> bool" where
  "signed_for L pub lic \<longleftrightarrow> length pub = PublicKeySize \<and>
     (\<exists>payload sig. ed_verify L pub payload sig \<and> lic_unmarshal L payload = Some lic)"

lemma Verify_sound:
  assumes "Verify L pub product key now = (lic, err)" "err = None \<or> err = Some ErrExpired"
  shows "signed_for L pub lic \<and> Product lic = product \<and> (err = None \<longleftrightarrow> now \<le> ExpiresAt lic)
         \<and> HasPrefix key key_prefix"
proof -
  obtain p0 p1 payload sig where
    "HasPrefix key key_prefix" "b64_decode p0 = Some payload" "b64_decode p1 = Some sig"
    "length pub = PublicKeySize" "ed_verify L pub payload sig" "lic_unmarshal L payload = Some lic"
    "Product lic = product" "err = (if now > ExpiresAt lic then Some ErrExpired else None)"
    using assms by (auto simp: Verify_def split: if_splits list.splits option.splits)
  then show ?thesis by (auto simp: signed_for_def)
qed

lemma TrimSpace_key:
  "TrimSpace (key_prefix @ b64_encode p @ ''.'' @ b64_encode q) = key_prefix @ b64_encode p @ ''.'' @ b64_encode q"
  by (rule TrimSpace_visible)
    (simp add: b64_encode_visible key_prefix_def visible_Cons byte_def)

lemma b64_encode_no_dot: "CHR ''.'' \<notin> set (b64_encode p)"
proof -
  have "mkbyte 46 = CHR ''.''" by code_simp
  then show ?thesis using b64_encode_visible [of p] by simp
qed

lemma Verify_signed:
  "Verify L pub product (key_prefix @ b64_encode p @ ''.'' @ b64_encode q) now =
     (if length pub \<noteq> PublicKeySize then (zero_license, Some ErrBadSignature)
      else if \<not> ed_verify L pub p q then (zero_license, Some ErrBadSignature)
      else (case lic_unmarshal L p of
              None \<Rightarrow> (zero_license, Some ErrMalformed)
            | Some lic \<Rightarrow>
                if Product lic \<noteq> product then (zero_license, Some (ErrWrongProduct (Product lic)))
                else if now > ExpiresAt lic then (lic, Some ErrExpired)
                else (lic, None)))"
proof -
  have "SplitN2 (b64_encode p @ CHR ''.'' # b64_encode q) (CHR ''.'') = [b64_encode p, b64_encode q]"
    by (rule SplitN2_append [OF b64_encode_no_dot])
  then show ?thesis by (simp add: Verify_def TrimSpace_key [simplified] b64_roundtrip)
qed

subsection \<open>Activation\<close>

record activation =
  act_Tier :: tier
  act_Limits :: limits
  act_License :: "license option"
  Notice :: gostring

abbreviation lic_dash :: gostring where "lic_dash \<equiv> [mkbyte 0xE2, mkbyte 0x80, mkbyte 0x94]"

definition free_activation :: "gostring \<Rightarrow> activation" where
  "free_activation notice =
     \<lparr>act_Tier = TierFree, act_Limits = free_limits, act_License = None, Notice = notice\<rparr>"

definition free_edition_notice :: gostring where
  "free_edition_notice =
     ''This is the free edition, which cannot activate license keys. ''
       @ ''Download the licensed build to use your key '' @ lic_dash @ '' your key is fine.''"

definition expired_notice :: "license \<Rightarrow> gostring" where
  "expired_notice lic =
     ''License expired on '' @ format_day (ExpiresAt lic) @ '' '' @ lic_dash
       @ '' running on free limits. Renew to restore your tier.''"

definition invalid_notice :: gostring where
  "invalid_notice =
     ''License key is not valid for this product '' @ lic_dash @ '' running on free limits.''"

definition Activate :: "license_lib \<Rightarrow> gostring \<Rightarrow> gostring \<Rightarrow> gostring \<Rightarrow> instant \<Rightarrow> activation" where
  "Activate L pub product key now =
     (if length pub \<noteq> PublicKeySize then
        free_activation (if TrimSpace key \<noteq> [] then free_edition_notice else [])
      else if TrimSpace key = [] then free_activation []
      else (case Verify L pub product key now of
              (lic, None) \<Rightarrow>
                \<lparr>act_Tier = Tier lic, act_Limits = limitsFor (Tier lic), act_License = Some lic, Notice = []\<rparr>
            | (lic, Some ErrExpired) \<Rightarrow> free_activation (expired_notice lic)
            | (lic, Some _) \<Rightarrow> free_activation invalid_notice))"

definition CanAddTarget :: "activation \<Rightarrow> int \<Rightarrow> bool" where
  "CanAddTarget a current \<longleftrightarrow> MaxTargets (act_Limits a) = 0 \<or> current < MaxTargets (act_Limits a)"

definition AllowsChannel :: "activation \<Rightarrow> gostring \<Rightarrow> bool" where
  "AllowsChannel a name = list_ex (\<lambda>c. c = name) (Channels (act_Limits a))"

definition RetentionCutoff :: "activation \<Rightarrow> instant \<Rightarrow> instant" where
  "RetentionCutoff a now =
     (if RetentionDays (act_Limits a) = 0 then time_zero
      else now - RetentionDays (act_Limits a) * day_ns)"

lemma free_limits_eq: "free_limits = limitsFor TierFree"
  by (simp add: limitsFor_def free_limits_def TierLimits_def)

lemma limitsFor_cases: "limitsFor t \<in> snd ` set TierLimits"
  by (auto simp: limitsFor_def free_limits_def TierLimits_def split: option.splits if_splits)

lemma Activate_cases:
  "(\<exists>notice. Activate L pub product key now = free_activation notice)
   \<or> (\<exists>lic. Verify L pub product key now = (lic, None)
        \<and> Activate L pub product key now =
            \<lparr>act_Tier = Tier lic, act_Limits = limitsFor (Tier lic), act_License = Some lic, Notice = []\<rparr>)"
proof -
  obtain lic err where v: "Verify L pub product key now = (lic, err)" by (cases "Verify L pub product key now")
  show ?thesis
  proof (cases "length pub \<noteq> PublicKeySize \<or> TrimSpace key = []")
    case True
    then show ?thesis by (metis Activate_def)
  next
    case False
    then show ?thesis
      by (cases err) (auto simp: Activate_def v split: license_error.split)
  qed
qed

text \<open>The same key at another time: only its expiry can make a difference.\<close>

lemma Verify_other_time:
  assumes "Verify L pub product key now = (lic, None)"
  shows "Verify L pub product key now' = (lic, if now' > ExpiresAt lic then Some ErrExpired else None)"
  using assms by (auto simp: Verify_def split: if_splits list.splits option.splits)

lemma Activate_other_time:
  assumes "act_Tier (Activate L pub product key now) \<noteq> TierFree \<or> TrimSpace key = []"
  shows "Activate L pub product key now' =
    (case act_License (Activate L pub product key now) of
       None \<Rightarrow> Activate L pub product key now
     | Some lic \<Rightarrow>
         if now' \<le> ExpiresAt lic then Activate L pub product key now else free_activation (expired_notice lic))"
proof (cases "length pub \<noteq> PublicKeySize \<or> TrimSpace key = []")
  case True
  then show ?thesis by (auto simp: Activate_def free_activation_def)
next
  case False
  then obtain lic where v: "Verify L pub product key now = (lic, None)"
    and a: "Activate L pub product key now =
      \<lparr>act_Tier = Tier lic, act_Limits = limitsFor (Tier lic), act_License = Some lic, Notice = []\<rparr>"
    using Activate_cases [of L pub product key now] assms by (auto simp: free_activation_def)
  from Verify_other_time [OF v, of now'] False show ?thesis unfolding a by (auto simp: Activate_def)
qed

text \<open>
  (C27) A paid tier needs a valid signature. Whatever key is pasted in, either the activation is the
  free tier with the free limits and no license, or the key carries a license that the issuer's key
  signed, for this product and not expired, and tier and limits are the ones that license names.
  So without an issuer key in the build, or with an invalid, foreign or expired license, the
  product runs on free limits, and it always runs: the limits are always a row of the table.
\<close>

theorem paid_tier_needs_signature:
  "let a = Activate L pub product key now in
     ((act_Tier a = TierFree \<and> act_Limits a = limitsFor TierFree \<and> act_License a = None)
      \<or> (\<exists>lic. act_License a = Some lic \<and> signed_for L pub lic \<and> Product lic = product
           \<and> now \<le> ExpiresAt lic \<and> act_Tier a = Tier lic \<and> act_Limits a = limitsFor (Tier lic)))
     \<and> act_Limits a \<in> snd ` set TierLimits"
proof -
  consider notice where "Activate L pub product key now = free_activation notice"
    | lic where "Verify L pub product key now = (lic, None)"
        "Activate L pub product key now =
           \<lparr>act_Tier = Tier lic, act_Limits = limitsFor (Tier lic), act_License = Some lic, Notice = []\<rparr>"
    using Activate_cases [of L pub product key now] by blast
  then show ?thesis
  proof cases
    case (1 notice)
    then show ?thesis
      using limitsFor_cases [of TierFree] by (simp add: free_activation_def free_limits_eq)
  next
    case (2 lic)
    from Verify_sound [OF 2(1)] 2(2) show ?thesis using limitsFor_cases [of "Tier lic"] by (simp add: Let_def)
  qed
qed

text \<open>
  What \<open>encoding/json\<close> documents of a structure of strings and times: what it writes it reads back,
  with every invalid byte of a string replaced by the replacement character.
\<close>

definition json_license :: "license \<Rightarrow> license" where
  "json_license l =
     l\<lparr>Product := utf8_clean (Product l), Tier := utf8_clean (Tier l), Email := utf8_clean (Email l),
       KeyID := utf8_clean (KeyID l)\<rparr>"

lemma json_license_valid:
  "valid_utf8 (Product l) \<Longrightarrow> valid_utf8 (Tier l) \<Longrightarrow> valid_utf8 (Email l) \<Longrightarrow> valid_utf8 (KeyID l) \<Longrightarrow>
     json_license l = l"
  by (simp add: json_license_def valid_utf8_iff_clean)

lemma json_license_simps [simp]:
  "Product (json_license l) = utf8_clean (Product l)" "Tier (json_license l) = utf8_clean (Tier l)"
  "ExpiresAt (json_license l) = ExpiresAt l"
  by (simp_all add: json_license_def)

lemma Sign_Verify:
  assumes "Sign L priv lic = Inr key" "length pub = PublicKeySize" "valid_utf8 (Product lic)"
    and "\<And>m. ed_verify L pub m (ed_sign L priv m)"
    and "\<And>p. lic_marshal L lic = Some p \<Longrightarrow> lic_unmarshal L p = Some (json_license lic)"
  shows "Verify L pub (Product lic) key now = (json_license lic, if now > ExpiresAt lic then Some ErrExpired else None)"
proof -
  obtain p where p: "lic_marshal L lic = Some p"
    and key: "key = key_prefix @ b64_encode p @ ''.'' @ b64_encode (ed_sign L priv p)"
    using assms(1) by (auto simp: Sign_def split: if_splits option.splits)
  show ?thesis
    using assms(2-4) assms(5) [OF p] unfolding key Verify_signed by (simp add: valid_utf8_iff_clean)
qed

lemma Sign_trimmed:
  assumes "Sign L priv lic = Inr key"
  shows "TrimSpace key = key" "key \<noteq> []"
proof -
  obtain p q where key: "key = key_prefix @ b64_encode p @ ''.'' @ b64_encode q"
    using assms by (auto simp: Sign_def split: if_splits option.splits)
  show "TrimSpace key = key" unfolding key by (rule TrimSpace_key)
  show "key \<noteq> []" by (simp add: key key_prefix_def)
qed

lemma Sign_rejected:
  assumes "Sign L priv lic = Inr key" "\<forall>m. \<not> ed_verify L pub m (ed_sign L priv m)"
  shows "act_License (Activate L pub product key now) = None"
proof -
  obtain p where key: "key = key_prefix @ b64_encode p @ ''.'' @ b64_encode (ed_sign L priv p)"
    using assms(1) by (auto simp: Sign_def split: if_splits option.splits)
  have "snd (Verify L pub product key now) \<noteq> None" unfolding key Verify_signed using assms(2) by simp
  then show ?thesis using Activate_cases [of L pub product key now] by (auto simp: free_activation_def)
qed

text \<open>
  (C26) Issuing and activating agree. A key made by \<open>Sign\<close> for a license of this product verifies as
  that license (with the invalid bytes of its strings replaced, so exactly as that license when its
  strings are UTF-8), and activates its tier until its expiry; after it, the free tier with a notice
  that names the day. With a public key that rejects the signature it activates no license. Assumed of
  the libraries: Ed25519 accepts its own signature of a message, and the JSON codec reads back what it
  wrote for this license, invalid bytes replaced.
\<close>

theorem license_roundtrip:
  assumes "Sign L priv lic = Inr key" "length pub = PublicKeySize"
    and "Product lic = product" "valid_utf8 product"
    and "\<And>m. ed_verify L pub m (ed_sign L priv m)"
    and "\<And>p. lic_marshal L lic = Some p \<Longrightarrow> lic_unmarshal L p = Some (json_license lic)"
  shows "Verify L pub product key now = (json_license lic, if now > ExpiresAt lic then Some ErrExpired else None)
    \<and> (if now \<le> ExpiresAt lic
       then Activate L pub product key now =
         \<lparr>act_Tier = utf8_clean (Tier lic), act_Limits = limitsFor (utf8_clean (Tier lic)),
          act_License = Some (json_license lic), Notice = []\<rparr>
       else Activate L pub product key now = free_activation (expired_notice (json_license lic)))
    \<and> (valid_utf8 (Tier lic) \<and> valid_utf8 (Email lic) \<and> valid_utf8 (KeyID lic) \<longrightarrow> json_license lic = lic)
    \<and> (\<forall>pub'. (\<forall>m. \<not> ed_verify L pub' m (ed_sign L priv m)) \<longrightarrow>
         act_License (Activate L pub' product key now) = None)"
proof -
  have v: "Verify L pub product key now = (json_license lic, if now > ExpiresAt lic then Some ErrExpired else None)"
    using Sign_Verify [OF assms(1,2) _ assms(5,6), of now] assms(3,4) by simp
  have "valid_utf8 (Tier lic) \<and> valid_utf8 (Email lic) \<and> valid_utf8 (KeyID lic) \<longrightarrow> json_license lic = lic"
    using json_license_valid [of lic] assms(3,4) by simp
  then show ?thesis
    using v assms(2) Sign_trimmed [OF assms(1)] Sign_rejected [OF assms(1)] by (simp add: Activate_def)
qed

text \<open>
  Sample parameters. A signature is the private key and the message; a license is written as its six
  fields, each in base64url and closed by a dot, a time in unary.
\<close>

definition demo_time :: "int \<Rightarrow> gostring" where
  "demo_time i = (if i < 0 then CHR ''-'' # replicate (nat (- i)) (CHR ''1'') else replicate (nat i) (CHR ''1''))"

definition demo_time_of :: "gostring \<Rightarrow> int" where
  "demo_time_of s =
     (case s of [] \<Rightarrow> 0 | c # r \<Rightarrow> if c = CHR ''-'' then - int (length r) else int (length s))"

definition demo_fields :: "license \<Rightarrow> gostring list" where
  "demo_fields l = [utf8_clean (Product l), utf8_clean (Tier l), utf8_clean (Email l),
     demo_time (IssuedAt l), demo_time (ExpiresAt l), utf8_clean (KeyID l)]"

fun demo_parse :: "nat \<Rightarrow> gostring \<Rightarrow> gostring list" where
  "demo_parse 0 s = []"
| "demo_parse (Suc n) s =
     (case SplitN2 s (CHR ''.'') of
        [a, b] \<Rightarrow> (case b64_decode a of Some w \<Rightarrow> w # demo_parse n b | None \<Rightarrow> [])
      | _ \<Rightarrow> [])"

definition demo_lib :: license_lib where
  "demo_lib =
     \<lparr>ed_sign = (\<lambda>k m. k @ m), ed_verify = (\<lambda>k m s. s = k @ m),
      lic_marshal = (\<lambda>l. Some (concat (map (\<lambda>w. b64_encode w @ ''.'') (demo_fields l)))),
      lic_unmarshal = (\<lambda>p.
        case demo_parse 6 p of
          [a, b, c, i, x, k] \<Rightarrow>
            Some \<lparr>Product = a, Tier = b, Email = c, IssuedAt = demo_time_of i, ExpiresAt = demo_time_of x, KeyID = k\<rparr>
        | _ \<Rightarrow> None)\<rparr>"

lemma demo_time_inverse: "demo_time_of (demo_time i) = i"
proof (cases "i \<le> 0")
  case True
  then show ?thesis by (cases "i = 0") (simp_all add: demo_time_of_def demo_time_def)
next
  case False
  then obtain k where "nat i = Suc k" by (cases "nat i") auto
  with False show ?thesis by (simp add: demo_time_of_def demo_time_def)
qed

lemma demo_parse_fields: "demo_parse (length ws) (concat (map (\<lambda>w. b64_encode w @ ''.'') ws)) = ws"
  by (induction ws) (simp_all add: SplitN2_append [OF b64_encode_no_dot] b64_roundtrip)

lemma demo_codec: "lic_marshal demo_lib l = Some p \<Longrightarrow> lic_unmarshal demo_lib p = Some (json_license l)"
proof -
  assume "lic_marshal demo_lib l = Some p"
  then have p: "p = concat (map (\<lambda>w. b64_encode w @ ''.'') (demo_fields l))" by (simp add: demo_lib_def)
  have six: "length (demo_fields l) = 6" by (simp add: demo_fields_def)
  have "demo_parse 6 p = demo_fields l"
    using demo_parse_fields [of "demo_fields l"] unfolding p six .
  then show ?thesis by (simp add: demo_lib_def demo_fields_def demo_time_inverse json_license_def)
qed

definition demo_license :: license where
  "demo_license = \<lparr>Product = ''asm'', Tier = TierPro, Email = ''a@b.c'', IssuedAt = -1, ExpiresAt = 100, KeyID = ''k1''\<rparr>"

definition demo_pub :: gostring where "demo_pub = replicate 32 (CHR ''k'')"

lemma demo_license_text: "utf8_clean ''asm'' = ''asm''" "utf8_clean TierPro = TierPro"
  by code_simp+

lemma demo_signed: "\<exists>key. Sign demo_lib demo_pub demo_license = Inr key"
  by (simp add: Sign_def demo_license_def demo_lib_def TierPro_def)

lemma demo_verifies:
  "Sign demo_lib demo_pub demo_license = Inr key \<Longrightarrow>
     Verify demo_lib demo_pub ''asm'' key now = (json_license demo_license, if now > 100 then Some ErrExpired else None)"
  using Sign_Verify [of demo_lib demo_pub demo_license key demo_pub now] demo_codec
  by (simp add: demo_lib_def demo_pub_def PublicKeySize_def demo_license_def valid_utf8_iff_clean demo_license_text)

lemma license_roundtrip_witness:
  "\<exists>key. Sign demo_lib demo_pub demo_license = Inr key
     \<and> act_Tier (Activate demo_lib demo_pub ''asm'' key 50) = TierPro
     \<and> act_License (Activate demo_lib demo_pub ''asm'' key 101) = None"
proof -
  obtain key where key: "Sign demo_lib demo_pub demo_license = Inr key" using demo_signed by blast
  have len: "length demo_pub = PublicKeySize" by (simp add: demo_pub_def PublicKeySize_def)
  have prod: "Product demo_license = ''asm''" by (simp add: demo_license_def)
  have utf: "valid_utf8 ''asm''" by (simp add: valid_utf8_iff_clean demo_license_text)
  have sig: "ed_verify demo_lib demo_pub m (ed_sign demo_lib demo_pub m)" for m by (simp add: demo_lib_def)
  note R = license_roundtrip [OF key len prod utf sig demo_codec]
  have ex: "ExpiresAt demo_license = 100" "Tier demo_license = TierPro" by (simp_all add: demo_license_def)
  from R [of 50] have "act_Tier (Activate demo_lib demo_pub ''asm'' key 50) = TierPro"
    by (simp add: ex demo_license_text)
  moreover from R [of 101] have "act_License (Activate demo_lib demo_pub ''asm'' key 101) = None"
    by (simp add: ex free_activation_def)
  ultimately show ?thesis using key by blast
qed

end
