(* ===== verification/AiEvidence.thy ===== *)
theory AiEvidence
  imports GoJson
begin

section \<open>Evidence for the AI sidecar (\<open>internal/aiclient/evidence.go\<close>, \<open>types.go\<close>)\<close>

text \<open>
  What may leave the process: the bounded copy of a finding's evidence from which secret-looking
  keys are dropped, and the packet built from it. A map that comes out nil is written \<open>ANil\<close>, which
  is how it marshals. A value of another Go type goes through its JSON value first.
\<close>

subsection \<open>Bounds and secret keys\<close>

definition maxEvidenceKeys :: nat where "maxEvidenceKeys = 24"
definition maxEvidenceString :: nat where "maxEvidenceString = 400"
definition maxEvidenceList :: nat where "maxEvidenceList = 12"
definition maxEvidenceDepth :: nat where "maxEvidenceDepth = 3"

definition secretKeyMarkers :: "gostring list" where
  "secretKeyMarkers =
     [''password'', ''passwd'', ''passphrase'', ''secret'', ''token'', ''apikey'', ''api_key'', ''api-key'',
      ''private'', ''credential'', ''cookie'', ''session'', ''authorization'', ''bearer'', ''license_key'',
      ''licence_key'', ''signature'']"

text \<open>
  \<open>strings.ToLower\<close> as far as ASCII markers can tell: besides the ASCII capitals, the Kelvin sign
  and the dotted capital I become ASCII letters; every other rune stays outside ASCII.
\<close>

definition lower_rune :: "gostring \<Rightarrow> gostring" where
  "lower_rune r =
     (if r = [mkbyte 0xE2, mkbyte 0x84, mkbyte 0xAA] then ''k''
      else if r = [mkbyte 0xC4, mkbyte 0xB0] then ''i''
      else ToLower r)"

definition lower_key :: "gostring \<Rightarrow> gostring" where
  "lower_key k = concat (map lower_rune (go_runes k))"

definition isSecretKey :: "gostring \<Rightarrow> bool" where
  "isSecretKey k = list_ex (\<lambda>m. Contains (lower_key k) m) secretKeyMarkers"

abbreviation ellipsis :: gostring where "ellipsis \<equiv> [mkbyte 0xE2, mkbyte 0x80, mkbyte 0xA6]"

definition truncateRunes :: "gostring \<Rightarrow> nat \<Rightarrow> gostring" where
  "truncateRunes s n =
     (let r = go_runes s in if length r \<le> n then s else concat (take n r) @ ellipsis)"

lemma is_rune_ellipsis: "is_rune ellipsis"
  by (simp add: is_rune_def byte_in_def byte_mkbyte rune_width_Some_iff rune_shape_def)

lemma go_runes_truncated:
  "n < length (go_runes s) \<Longrightarrow> go_runes (truncateRunes s n) = take n (go_runes s) @ [ellipsis]"
proof -
  assume n: "n < length (go_runes s)"
  have "\<forall>r \<in> set (take n (go_runes s) @ [ellipsis]). is_rune r"
    using go_runes_is_rune is_rune_ellipsis by (auto dest: in_set_takeD)
  from go_runes_concat [OF this] n show ?thesis by (simp add: truncateRunes_def Let_def)
qed

lemma truncateRunes_length: "length (go_runes (truncateRunes s n)) \<le> Suc n"
proof (cases "n < length (go_runes s)")
  case True
  then show ?thesis by (simp add: go_runes_truncated)
next
  case False
  then show ?thesis by (simp add: truncateRunes_def)
qed

lemma truncateRunes_idem: "truncateRunes (truncateRunes s n) n = truncateRunes s n"
proof (cases "n < length (go_runes s)")
  case True
  then have "go_runes (truncateRunes s n) = take n (go_runes s) @ [ellipsis]" by (rule go_runes_truncated)
  with True show ?thesis by (simp add: truncateRunes_def Let_def)
next
  case False
  then show ?thesis by (simp add: truncateRunes_def)
qed

subsection \<open>Sanitising\<close>

text \<open>The entries of a map that are kept: not secret, the first \<open>maxEvidenceKeys\<close> in key order.\<close>

definition keep_keys :: "(gostring \<times> jany) list \<Rightarrow> (gostring \<times> jany) list" where
  "keep_keys kvs = take maxEvidenceKeys (sort_key fst (filter (\<lambda>p. \<not> isSecretKey (fst p)) kvs))"

definition too_deep :: gostring where "too_deep = ''[omitted: nested too deep]''"
definition not_serialisable :: gostring where "not_serialisable = ''[omitted: not serialisable]''"

text \<open>Values of types that \<open>sanitizeValue\<close> has no case for: none is left after a trip through JSON.\<close>

fun others :: "jany \<Rightarrow> nat" where
  "others (AList vs) = sum_list (map others vs)"
| "others (AMap kvs) = sum_list (map (\<lambda>p. others (snd p)) kvs)"
| "others (AOther v) = 1"
| "others _ = 0"

lemma json_value_others: "json_value v = Some w \<Longrightarrow> others w = 0"
proof (induction v arbitrary: w rule: json_value.induct)
  case (3 vs)
  then obtain ws where ws: "map json_value vs = map Some ws" "w = AList ws"
    by (auto simp: collect_eq_Some_iff)
  have "others x = 0" if "x \<in> set ws" for x
  proof -
    have "Some x \<in> set (map json_value vs)" using that ws(1) by simp
    then show ?thesis using 3(1) by auto
  qed
  with ws show ?case by simp
next
  case (4 kvs)
  let ?f = "\<lambda>(k, v). map_option (Pair (utf8_clean k)) (json_value v)"
  from 4(2) obtain ws where ws: "map ?f kvs = map Some ws" "w = AMap ws"
    by (auto simp: collect_eq_Some_iff)
  have "others (snd p) = 0" if "p \<in> set ws" for p
  proof -
    have "Some p \<in> set (map ?f kvs)" using that ws(1) by simp
    then obtain q where q: "q \<in> set kvs" "?f q = Some p" by (metis (no_types, lifting) imageE list.set_map)
    obtain k v where kv: "q = (k, v)" by (cases q)
    with q(2) obtain z where "json_value v = Some z" "p = (utf8_clean k, z)" by auto
    then show ?thesis using 4(1) [OF q(1) kv [symmetric]] by simp
  qed
  with ws show ?case by simp
qed (auto simp: comp_def)

lemma others_member: "p \<in> set kvs \<Longrightarrow> others (snd p) \<le> others (AMap kvs)"
  by (induction kvs) auto

lemma others_item: "v \<in> set vs \<Longrightarrow> others v \<le> others (AList vs)"
  by (induction vs) auto

lemma keep_keys_subset: "set (keep_keys kvs) \<subseteq> set kvs"
  by (auto simp: keep_keys_def dest: in_set_takeD)

function sanitizeValue :: "jany \<Rightarrow> nat \<Rightarrow> jany" where
  "sanitizeValue ANil d = ANil"
| "sanitizeValue (ABool b) d = ABool b"
| "sanitizeValue (ANum i) d = ANum i"
| "sanitizeValue (AStr s) d = AStr (truncateRunes s maxEvidenceString)"
| "sanitizeValue (AMap kvs) d =
     (if d \<ge> maxEvidenceDepth then AStr too_deep
      else if keep_keys kvs = [] then ANil
      else AMap (map (\<lambda>p. (fst p, sanitizeValue (snd p) (d + 1))) (keep_keys kvs)))"
| "sanitizeValue (AList vs) d =
     (if d \<ge> maxEvidenceDepth then AStr too_deep
      else AList (map (\<lambda>v. sanitizeValue v (d + 1)) (take maxEvidenceList vs)))"
| "sanitizeValue (AStrs ss) d =
     AList (map (\<lambda>s. AStr (truncateRunes s maxEvidenceString)) (take maxEvidenceList ss))"
| "sanitizeValue (AOther v) d =
     (case json_value (AOther v) of
        None \<Rightarrow> AStr not_serialisable
      | Some w \<Rightarrow> sanitizeValue w d)"
| "sanitizeValue (AFloat t) d = AFloat t"
  by pat_completeness auto
termination
proof (relation "measures [\<lambda>(v, d). others v, \<lambda>(v, d). size v]", goal_cases)
  case 1
  then show ?case by simp
next
  case (2 kvs d p)
  then have p: "p \<in> set kvs" using keep_keys_subset by blast
  then have "size (snd p) < size (AMap kvs)"
    by (induction kvs) (auto simp: size_prod_simp intro: less_SucI)
  with others_member [OF p] show ?case by auto
next
  case (3 vs d v)
  then have v: "v \<in> set vs" by (blast dest: in_set_takeD)
  then have "size v < size (AList vs)" by (induction vs) auto
  with others_item [OF v] show ?case by auto
next
  case (4 v d w)
  then have "others w = 0" by (rule json_value_others)
  then show ?case by simp
qed

text \<open>The top level: a nil or empty map, or one with no key left, is nil.\<close>

definition sanitizeMap :: "(gostring \<times> jany) list \<Rightarrow> nat \<Rightarrow> evidence" where
  "sanitizeMap kvs d =
     (if kvs = [] then None
      else if keep_keys kvs = [] then None
      else Some (map (\<lambda>p. (fst p, sanitizeValue (snd p) d)) (keep_keys kvs)))"

definition SanitizeEvidence :: "evidence \<Rightarrow> evidence" where
  "SanitizeEvidence ev = (case ev of None \<Rightarrow> None | Some kvs \<Rightarrow> sanitizeMap kvs 1)"

subsection \<open>What sanitised evidence looks like\<close>

text \<open>
  \<open>bounded d v\<close>: the value \<open>v\<close> at nesting depth \<open>d\<close> respects every limit, and no key anywhere in it
  looks secret.
\<close>

fun bounded :: "nat \<Rightarrow> jany \<Rightarrow> bool" where
  "bounded d (AStr s) \<longleftrightarrow> length (go_runes s) \<le> maxEvidenceString + 1"
| "bounded d (AMap kvs) \<longleftrightarrow> d < maxEvidenceDepth \<and> length kvs \<le> maxEvidenceKeys \<and> sorted (map fst kvs)
     \<and> list_all (\<lambda>p. \<not> isSecretKey (fst p) \<and> bounded (d + 1) (snd p)) kvs"
| "bounded d (AList vs) \<longleftrightarrow> length vs \<le> maxEvidenceList
     \<and> (d < maxEvidenceDepth \<or> list_all (\<lambda>v. \<exists>s. v = AStr s) vs)
     \<and> list_all (bounded (d + 1)) vs"
| "bounded d (AStrs ss) \<longleftrightarrow> False"
| "bounded d (AOther v) \<longleftrightarrow> False"
| "bounded d (AFloat t) \<longleftrightarrow> True"
| "bounded d _ \<longleftrightarrow> True"

lemma keep_keys_facts:
  "length (keep_keys kvs) \<le> maxEvidenceKeys" "sorted (map fst (keep_keys kvs))"
  "p \<in> set (keep_keys kvs) \<Longrightarrow> \<not> isSecretKey (fst p)"
  by (auto simp: keep_keys_def sorted_wrt_take simp flip: take_map dest: in_set_takeD)

lemma bounded_marker: "bounded d (AStr too_deep)" "bounded d (AStr not_serialisable)"
  using length_go_runes [of too_deep] length_go_runes [of not_serialisable]
  by (simp_all add: too_deep_def not_serialisable_def maxEvidenceString_def)

lemma bounded_sanitizeValue: "bounded d (sanitizeValue v d)"
proof (induction v d rule: sanitizeValue.induct)
  case (4 s d)
  then show ?case by (simp add: truncateRunes_length)
next
  case (5 kvs d)
  show ?case
  proof (cases "d \<ge> maxEvidenceDepth \<or> keep_keys kvs = []")
    case True
    then show ?thesis by (auto simp: bounded_marker simp del: bounded.simps(1))
  next
    case False
    have "\<not> isSecretKey (fst p) \<and> bounded (d + 1) (sanitizeValue (snd p) (d + 1))"
      if "p \<in> set (keep_keys kvs)" for p
      using 5 [of p] False that keep_keys_facts(3) by auto
    with False show ?thesis using keep_keys_facts(1,2) [of kvs] by (simp add: list_all_iff comp_def)
  qed
next
  case (6 vs d)
  show ?case
  proof (cases "d \<ge> maxEvidenceDepth")
    case True
    then show ?thesis by (simp add: bounded_marker del: bounded.simps(1))
  next
    case False
    then show ?thesis using 6 by (simp add: list_all_iff)
  qed
next
  case (7 ss d)
  then show ?case by (simp add: list_all_iff truncateRunes_length)
next
  case (8 v d)
  then show ?case by (simp add: bounded_marker del: bounded.simps(1) split: option.split)
qed simp_all

text \<open>A number that \<open>json.Marshal\<close> refuses, at any depth of a value that has passed the type switch.\<close>

fun has_refused :: "jany \<Rightarrow> bool" where
  "has_refused (AList vs) \<longleftrightarrow> list_ex has_refused vs"
| "has_refused (AMap kvs) \<longleftrightarrow> list_ex (\<lambda>p. has_refused (snd p)) kvs"
| "has_refused (AFloat t) \<longleftrightarrow> t = None"
| "has_refused _ \<longleftrightarrow> False"

lemma bounded_marshals: "bounded d v \<Longrightarrow> json_marshal v = None \<longleftrightarrow> has_refused v"
proof (induction d v rule: bounded.induct)
  case (2 d kvs)
  then have "json_marshal (snd p) = None \<longleftrightarrow> has_refused (snd p)" if "p \<in> set kvs" for p
    using that by (auto simp: list_all_iff)
  then have "None \<in> set (map (\<lambda>(k, v). map_option (Pair k) (json_marshal v)) kvs) \<longleftrightarrow>
      list_ex (\<lambda>p. has_refused (snd p)) kvs"
    by (force simp: list_ex_iff split: prod.splits)
  then show ?case by (simp add: collect_eq_None_iff)
next
  case (3 d vs)
  then have "json_marshal v = None \<longleftrightarrow> has_refused v" if "v \<in> set vs" for v
    using that by (auto simp: list_all_iff)
  then have "None \<in> set (map json_marshal vs) \<longleftrightarrow> list_ex has_refused vs"
    by (force simp: list_ex_iff)
  then show ?case by (simp add: collect_eq_None_iff)
next
  case (6 d t)
  then show ?case by (cases t) simp_all
qed auto

text \<open>What came through JSON has no such number.\<close>

lemma json_value_accepted: "json_value v = Some w \<Longrightarrow> \<not> has_refused w"
proof (induction v arbitrary: w rule: json_value.induct)
  case (2 ss)
  then show ?case by (auto simp: list_ex_iff)
next
  case (3 vs)
  then obtain ws where ws: "map json_value vs = map Some ws" "w = AList ws"
    by (auto simp: collect_eq_Some_iff)
  have "\<not> has_refused x" if "x \<in> set ws" for x
  proof -
    have "Some x \<in> set (map json_value vs)" using that ws(1) by simp
    then show ?thesis using 3(1) by auto
  qed
  with ws show ?case by (auto simp: list_ex_iff)
next
  case (4 kvs)
  let ?f = "\<lambda>(k, v). map_option (Pair (utf8_clean k)) (json_value v)"
  from 4(2) obtain ws where ws: "map ?f kvs = map Some ws" "w = AMap ws"
    by (auto simp: collect_eq_Some_iff)
  have "\<not> has_refused (snd p)" if "p \<in> set ws" for p
  proof -
    have "Some p \<in> set (map ?f kvs)" using that ws(1) by simp
    then obtain q where q: "q \<in> set kvs" "?f q = Some p" by (metis (no_types, lifting) imageE list.set_map)
    obtain k v where kv: "q = (k, v)" by (cases q)
    with q(2) obtain z where "json_value v = Some z" "p = (utf8_clean k, z)" by auto
    then show ?thesis using 4(1) [OF q(1) kv [symmetric]] by simp
  qed
  with ws show ?case by (auto simp: list_ex_iff)
qed auto

text \<open>Sanitising brings in none.\<close>

lemma has_refused_sanitizeValue: "has_refused (sanitizeValue v d) \<Longrightarrow> has_refused v"
proof (induction v d rule: sanitizeValue.induct)
  case (5 kvs d)
  then have "\<not> d \<ge> maxEvidenceDepth" "keep_keys kvs \<noteq> []" by (auto split: if_splits)
  with 5(2) obtain p where p: "p \<in> set (keep_keys kvs)" "has_refused (sanitizeValue (snd p) (d + 1))"
    by (auto simp: list_ex_iff)
  with 5(1) [of p] \<open>\<not> d \<ge> maxEvidenceDepth\<close> \<open>keep_keys kvs \<noteq> []\<close> have "has_refused (snd p)" by auto
  then show ?case using p(1) keep_keys_subset by (auto simp: list_ex_iff)
next
  case (6 vs d)
  then show ?case by (auto simp: list_ex_iff dest: in_set_takeD split: if_splits)
next
  case (7 ss d)
  then show ?case by (auto simp: list_ex_iff)
next
  case (8 v d)
  then show ?case using json_value_accepted by (auto split: option.splits)
qed auto

lemma sanitizeMap_value:
  "d < maxEvidenceDepth \<Longrightarrow>
     sanitizeValue (AMap kvs) d = (case sanitizeMap kvs (d + 1) of None \<Rightarrow> ANil | Some m \<Rightarrow> AMap m)"
  by (auto simp: sanitizeMap_def keep_keys_def)

text \<open>
  (C31) Only bounded, secret-free evidence is forwarded. Whatever a finding's evidence holds, the
  sanitised copy has no secret-looking key at any depth, at most 24 keys per map in sorted order, at
  most 12 items per list, strings of at most 401 characters and at most three levels of maps; no key
  or value is invented at the top level. It serialises unless the evidence holds a number that
  \<open>json.Marshal\<close> refuses, a float that is NaN or infinite or an invalid \<open>json.Number\<close>: those are
  passed on as they are, and one that is kept makes the whole packet fail. (The comment of
  \<open>sanitizeValue\<close> says that what does not marshal is dropped to a marker rather than failing the
  request, which holds only of the types its switch does not name.)
\<close>

theorem evidence_sanitised:
  "case SanitizeEvidence ev of
     None \<Rightarrow> True
   | Some kvs \<Rightarrow>
       bounded 0 (AMap kvs) \<and> kvs \<noteq> []
       \<and> (json_marshal (AMap kvs) = None \<longleftrightarrow> has_refused (AMap kvs))
       \<and> (has_refused (AMap kvs) \<longrightarrow> has_refused (AMap (the ev)))
       \<and> (\<forall>k v. (k, v) \<in> set kvs \<longrightarrow> (\<exists>w. (k, w) \<in> set (the ev) \<and> v = sanitizeValue w 1))"
proof (cases "SanitizeEvidence ev")
  case (Some kvs)
  then obtain m where m: "ev = Some m" "m \<noteq> []" "keep_keys m \<noteq> []"
    and kvs: "kvs = map (\<lambda>p. (fst p, sanitizeValue (snd p) 1)) (keep_keys m)"
    by (auto simp: SanitizeEvidence_def sanitizeMap_def split: option.splits if_splits)
  have val: "sanitizeValue (AMap m) 0 = AMap kvs" using m by (simp add: kvs maxEvidenceDepth_def)
  with bounded_sanitizeValue [of 0 "AMap m"] have b: "bounded 0 (AMap kvs)" by simp
  have "has_refused (AMap kvs) \<longrightarrow> has_refused (AMap m)"
    using has_refused_sanitizeValue [of "AMap m" 0] unfolding val by blast
  moreover have "\<exists>w. (k, w) \<in> set (the ev) \<and> v = sanitizeValue w 1" if "(k, v) \<in> set kvs" for k v
    using that keep_keys_subset [of m] m(1) unfolding kvs by force
  moreover have "kvs \<noteq> []" using m(3) kvs by simp
  ultimately show ?thesis using Some b bounded_marshals [OF b] m(1) by (simp only: option.case option.sel) blast
qed simp

lemma evidence_sanitised_witness:
  "SanitizeEvidence (Some [(''session_token'', AStr ''s3cret''), (''port'', ANum 443)]) = Some [(''port'', ANum 443)]
   \<and> bounded 0 (AMap [(''port'', ANum 443)]) \<and> json_marshal (AMap [(''port'', ANum 443)]) \<noteq> None
   \<and> SanitizeEvidence (Some [(''score'', AFloat None)]) = Some [(''score'', AFloat None)]
   \<and> json_marshal (AMap [(''score'', AFloat None)]) = None"
proof -
  have keys: "isSecretKey ''session_token''" "\<not> isSecretKey ''port''" "\<not> isSecretKey ''score''" by code_simp+
  have ok: "SanitizeEvidence (Some [(''session_token'', AStr ''s3cret''), (''port'', ANum 443)]) = Some [(''port'', ANum 443)]"
    using keys by (simp add: SanitizeEvidence_def sanitizeMap_def keep_keys_def maxEvidenceKeys_def)
  have nan: "SanitizeEvidence (Some [(''score'', AFloat None)]) = Some [(''score'', AFloat None)]"
    using keys by (simp add: SanitizeEvidence_def sanitizeMap_def keep_keys_def maxEvidenceKeys_def)
  have "json_marshal (AMap [(''score'', AFloat None)]) = None"
    using evidence_sanitised [of "Some [(''score'', AFloat None)]"] nan by simp
  then show ?thesis
    using evidence_sanitised [of "Some [(''session_token'', AStr ''s3cret''), (''port'', ANum 443)]"] ok nan
    by simp
qed

subsection \<open>Packets (\<open>types.go\<close>, \<open>NewFindingPacket\<close>)\<close>

definition CanonicalDisclaimer :: gostring where
  "CanonicalDisclaimer =
     ''AI-generated summary '' @ [mkbyte 0xE2, mkbyte 0x80, mkbyte 0x94] @ '' verify against raw findings''"

definition FeatureExplainFinding :: gostring where "FeatureExplainFinding = ''hexward.explain_finding''"

record core_finding =
  cf_Fingerprint :: gostring
  cf_Module :: gostring
  cf_Check :: gostring
  cf_Title :: gostring
  cf_Target :: gostring
  cf_Severity :: gostring
  cf_Status :: gostring
  cf_Remediation :: gostring
  cf_Evidence :: evidence

record evidence_packet =
  ep_Feature :: gostring
  ep_Product :: gostring
  ep_Finding :: gostring
  ep_Language :: gostring

record explanation =
  ExplanationText :: gostring
  WhatToVerify :: "gostring list"
  Disclaimer :: gostring

text \<open>A JSON object with its fields in the given order, as a struct is written.\<close>

definition json_fields :: "(gostring \<times> gostring) list \<Rightarrow> gostring" where
  "json_fields kvs = ''{'' @ JoinStrings (map (\<lambda>(k, v). json_string k @ '':'' @ v) kvs) '','' @ ''}''"

definition omitempty :: "gostring \<Rightarrow> gostring \<Rightarrow> (gostring \<times> gostring) list" where
  "omitempty k s = (if s = [] then [] else [(k, json_string s)])"

definition marshal_core_finding :: "core_finding \<Rightarrow> gostring option" where
  "marshal_core_finding f =
     (case (case cf_Evidence f of
              None \<Rightarrow> Some []
            | Some kvs \<Rightarrow>
                if kvs = [] then Some []
                else map_option (\<lambda>t. [(''evidence'', t)]) (json_marshal (AMap kvs))) of
        None \<Rightarrow> None
      | Some ev \<Rightarrow>
          Some (json_fields
            (omitempty ''fingerprint'' (cf_Fingerprint f) @ omitempty ''module'' (cf_Module f)
             @ [(''check'', json_string (cf_Check f)), (''title'', json_string (cf_Title f))]
             @ omitempty ''target'' (cf_Target f) @ [(''severity'', json_string (cf_Severity f))]
             @ omitempty ''status'' (cf_Status f) @ omitempty ''remediation'' (cf_Remediation f) @ ev)))"

definition NormalizeLanguage :: "gostring \<Rightarrow> gostring" where
  "NormalizeLanguage lang =
     (let l = map (\<lambda>c. if c = CHR ''_'' then CHR ''-'' else c) (ToLower (TrimSpace lang))
      in if l = ''id'' \<or> l = ''in'' \<or> l = ''ind'' \<or> HasPrefix l ''id-'' \<or> l = ''indonesian''
            \<or> l = ''bahasa'' \<or> l = ''bahasa indonesia''
         then ''id'' else ''en'')"

definition sanitised_finding :: "core_finding \<Rightarrow> core_finding" where
  "sanitised_finding f =
     f\<lparr>cf_Title := truncateRunes (cf_Title f) maxEvidenceString,
       cf_Target := truncateRunes (cf_Target f) maxEvidenceString,
       cf_Remediation := truncateRunes (cf_Remediation f) (2 * maxEvidenceString),
       cf_Evidence := SanitizeEvidence (cf_Evidence f)\<rparr>"

definition NewFindingPacket :: "gostring \<Rightarrow> gostring \<Rightarrow> core_finding \<Rightarrow> goerror + evidence_packet" where
  "NewFindingPacket product language f =
     (if TrimSpace product = [] then Inl ''aiclient: product is required''
      else if TrimSpace (cf_Check f) = [] \<or> TrimSpace (cf_Title f) = [] \<or> TrimSpace (cf_Severity f) = []
      then Inl ''aiclient: finding needs check, title and severity''
      else case marshal_core_finding (sanitised_finding f) of
             None \<Rightarrow> Inl ''aiclient: marshal finding: json error''
           | Some raw \<Rightarrow>
               Inr \<lparr>ep_Feature = FeatureExplainFinding, ep_Product = product, ep_Finding = raw,
                    ep_Language = NormalizeLanguage language\<rparr>)"

text \<open>The finding's evidence keeps a number that \<open>json.Marshal\<close> refuses.\<close>

definition keeps_refused :: "evidence \<Rightarrow> bool" where
  "keeps_refused ev \<longleftrightarrow> (case SanitizeEvidence ev of None \<Rightarrow> False | Some kvs \<Rightarrow> has_refused (AMap kvs))"

lemma marshal_sanitised:
  "marshal_core_finding (sanitised_finding f) = None \<longleftrightarrow> keeps_refused (cf_Evidence f)"
proof (cases "SanitizeEvidence (cf_Evidence f)")
  case None
  then show ?thesis by (simp add: marshal_core_finding_def sanitised_finding_def keeps_refused_def)
next
  case (Some kvs)
  then obtain m where m: "keep_keys m \<noteq> []" "kvs = map (\<lambda>p. (fst p, sanitizeValue (snd p) 1)) (keep_keys m)"
    by (auto simp: SanitizeEvidence_def sanitizeMap_def split: option.splits if_splits)
  then have "sanitizeValue (AMap m) 0 = AMap kvs" by (simp add: maxEvidenceDepth_def)
  with bounded_sanitizeValue [of 0 "AMap m"] have "json_marshal (AMap kvs) = None \<longleftrightarrow> has_refused (AMap kvs)"
    by (metis bounded_marshals)
  moreover have "kvs \<noteq> []" using m by simp
  ultimately show ?thesis using Some
    by (cases "json_marshal (AMap kvs)") (simp_all add: marshal_core_finding_def sanitised_finding_def
        keeps_refused_def del: json_marshal.simps has_refused.simps)
qed

lemma NormalizeLanguage_range: "NormalizeLanguage l = ''id'' \<or> NormalizeLanguage l = ''en''"
  by (simp add: NormalizeLanguage_def Let_def)

text \<open>
  A packet can be built for every finding that names its check, title and severity and whose sanitised
  evidence holds no number that \<open>json.Marshal\<close> refuses; otherwise building it fails with the error of
  the first part that is missing, or of the serialisation. The packet says which language, one of two,
  and carries the sanitised finding and nothing else.
\<close>

theorem packet_total:
  "(is_ok (NewFindingPacket product language f) \<longleftrightarrow>
      TrimSpace product \<noteq> [] \<and> TrimSpace (cf_Check f) \<noteq> [] \<and> TrimSpace (cf_Title f) \<noteq> []
      \<and> TrimSpace (cf_Severity f) \<noteq> [] \<and> \<not> keeps_refused (cf_Evidence f))
   \<and> (case NewFindingPacket product language f of
        Inl e \<Rightarrow> e = (if TrimSpace product = [] then ''aiclient: product is required''
                      else if TrimSpace (cf_Check f) = [] \<or> TrimSpace (cf_Title f) = [] \<or> TrimSpace (cf_Severity f) = []
                      then ''aiclient: finding needs check, title and severity''
                      else ''aiclient: marshal finding: json error'')
      | Inr p \<Rightarrow>
          Some (ep_Finding p) = marshal_core_finding (sanitised_finding f)
          \<and> ep_Feature p = FeatureExplainFinding \<and> ep_Product p = product
          \<and> (ep_Language p = ''id'' \<or> ep_Language p = ''en''))"
  using NormalizeLanguage_range [of language] marshal_sanitised [of f]
  by (cases "marshal_core_finding (sanitised_finding f)") (simp_all add: NewFindingPacket_def)

end
