(* ===== verification/AiClient.thy ===== *)
theory AiClient
  imports AiEvidence GoStd Complex_Main
begin

section \<open>The AI sidecar client (\<open>internal/aiclient/guard.go\<close>, \<open>client.go\<close>)\<close>

text \<open>
  The severity guard over narration, the client's settings, the request it sends, the classification
  of answers, and the retry loop of \<open>Explain\<close>. The HTTP exchange and the two JSON decoders of
  answers are parameters.
\<close>

subsection \<open>The severity guard (\<open>guard.go\<close>)\<close>

definition severityWords :: "gostring list" where
  "severityWords = [''critical'', ''high'', ''medium'', ''moderate'', ''low'', ''info'', ''informational'']"

definition is_terminator :: "char \<Rightarrow> bool" where
  "is_terminator c \<longleftrightarrow> c = CHR ''.'' \<or> c = CHR ''!'' \<or> c = CHR ''?''"

text \<open>The class \<open>\s\<close> of the regular expressions: tab, line feed, form feed, carriage return, space.\<close>

definition re_space :: "char \<Rightarrow> bool" where
  "re_space c \<longleftrightarrow> byte c = 9 \<or> byte c = 10 \<or> byte c = 12 \<or> byte c = 13 \<or> byte c = 32"

definition word_char :: "char \<Rightarrow> bool" where
  "word_char c \<longleftrightarrow> 48 \<le> byte c \<and> byte c \<le> 57 \<or> 65 \<le> byte c \<and> byte c \<le> 90
     \<or> 97 \<le> byte c \<and> byte c \<le> 122 \<or> byte c = 95"

text \<open>
  \<open>sentenceSplit\<close>: terminators before the first sentence are skipped; a sentence is a run of other
  characters, then its terminators, then white space. No run can give a character back to the next
  part, so the greedy matches are the longest runs.
\<close>

definition cut_sentence :: "gostring \<Rightarrow> gostring \<times> gostring" where
  "cut_sentence s =
     (let r1 = dropWhile (\<lambda>c. \<not> is_terminator c) s;
          r2 = dropWhile is_terminator r1
      in (takeWhile (\<lambda>c. \<not> is_terminator c) s @ takeWhile is_terminator r1 @ takeWhile re_space r2,
          dropWhile re_space r2))"

lemma cut_sentence_append: "fst (cut_sentence s) @ snd (cut_sentence s) = s"
  by (simp add: cut_sentence_def Let_def)

lemma cut_sentence_nonempty:
  assumes "s \<noteq> []" "\<not> is_terminator (hd s)"
  shows "fst (cut_sentence s) \<noteq> []"
  using assms by (cases s) (simp_all add: cut_sentence_def Let_def)

lemma cut_sentence_shorter:
  assumes "s \<noteq> []" "\<not> is_terminator (hd s)"
  shows "length (snd (cut_sentence s)) < length s"
proof -
  have "length (fst (cut_sentence s)) + length (snd (cut_sentence s)) = length s"
    by (metis cut_sentence_append length_append)
  then show ?thesis using cut_sentence_nonempty [OF assms] by (cases "fst (cut_sentence s)") auto
qed

function sentences :: "gostring \<Rightarrow> gostring list" where
  "sentences s =
     (let s' = dropWhile is_terminator s in
      if s' = [] then [] else fst (cut_sentence s') # sentences (snd (cut_sentence s')))"
  by pat_completeness auto
termination
proof (relation "measure length", goal_cases)
  case 1
  then show ?case by simp
next
  case (2 s s')
  then have "\<not> is_terminator (hd s')" by (simp add: hd_dropWhile)
  with 2 have "length (snd (cut_sentence s')) < length s'" by (intro cut_sentence_shorter) simp_all
  moreover have "length s' \<le> length s" using 2(1) by (simp add: length_dropWhile_le)
  ultimately show ?case by simp
qed

declare sentences.simps [simp del]

text \<open>
  The second expression, with the words that are not the engine's own as alternatives, read as a
  backtracking matcher: a piece of it maps a string to the rests it can leave. Letters compare
  without ASCII case.
\<close>

definition re_word :: "gostring \<Rightarrow> gostring \<Rightarrow> gostring list" where
  "re_word w s = (if HasPrefix (ToLower s) w then [drop (length w) s] else [])"

definition re_alt :: "gostring list \<Rightarrow> gostring \<Rightarrow> gostring list" where
  "re_alt ws s = concat (map (\<lambda>w. re_word w s) ws)"

definition re_repeat :: "nat \<Rightarrow> (char \<Rightarrow> bool) \<Rightarrow> gostring \<Rightarrow> gostring list" where
  "re_repeat least P s = map (\<lambda>k. drop k s) [least..<Suc (length (takeWhile P s))]"

definition re_seq :: "(gostring \<Rightarrow> gostring list) \<Rightarrow> (gostring \<Rightarrow> gostring list) \<Rightarrow> gostring \<Rightarrow> gostring list" where
  "re_seq f g s = concat (map g (f s))"

text \<open>A word boundary after a letter: no word character follows.\<close>

definition re_boundary :: "gostring \<Rightarrow> gostring list" where
  "re_boundary s = (case s of [] \<Rightarrow> [s] | c # _ \<Rightarrow> if word_char c then [] else [s])"

definition conflict_here :: "gostring list \<Rightarrow> gostring \<Rightarrow> bool" where
  "conflict_here ws s \<longleftrightarrow>
     re_seq (re_alt ws)
       (re_seq (re_repeat 1 (\<lambda>c. re_space c \<or> c = CHR ''-''))
         (re_seq (re_alt [''severity'', ''risk'', ''priority'']) re_boundary)) s \<noteq> []
     \<or> re_seq (re_alt [''severity'', ''risk'', ''priority''])
         (re_seq (re_repeat 1 re_space)
           (re_seq (\<lambda>u. u # re_seq (re_alt [''level'', ''rating'']) (re_seq (re_repeat 1 re_space) (re_word ''is'')) u
                        @ re_alt [''is'', ''of''] u)
             (re_seq (re_repeat 0 re_space) (re_seq (re_alt ws) re_boundary)))) s \<noteq> []"

text \<open>A match starts at a word boundary, so the character before it is not a word character.\<close>

fun conflict_from :: "gostring list \<Rightarrow> bool \<Rightarrow> gostring \<Rightarrow> bool" where
  "conflict_from ws inside [] = False"
| "conflict_from ws inside (c # s) \<longleftrightarrow>
     (\<not> inside \<and> conflict_here ws (c # s)) \<or> conflict_from ws (word_char c) s"

definition states_conflict :: "gostring list \<Rightarrow> gostring \<Rightarrow> bool" where
  "states_conflict ws s = conflict_from ws False s"

definition same_severity :: "gostring \<Rightarrow> gostring list" where
  "same_severity engine =
     (if engine = ''info'' \<or> engine = ''informational'' then [engine, ''info'', ''informational'']
      else if engine = ''medium'' \<or> engine = ''moderate'' then [engine, ''medium'', ''moderate'']
      else [engine])"

definition conflicting_words :: "gostring \<Rightarrow> gostring list" where
  "conflicting_words engine = filter (\<lambda>w. w \<notin> set (same_severity engine)) severityWords"

definition dropConflictingSeverity :: "gostring \<Rightarrow> gostring \<Rightarrow> gostring" where
  "dropConflictingSeverity text engineSeverity =
     (let engine = ToLower (TrimSpace engineSeverity) in
      if engine = [] \<or> text = [] then text
      else
        (let kept = filter (\<lambda>s. \<not> states_conflict (conflicting_words engine) s) (sentences text);
             out = TrimSpace (concat kept)
         in if out = [] then text else out))"

subsection \<open>Settings (\<open>client.go\<close>)\<close>

definition defaultTimeout :: duration where "defaultTimeout = 20 * second"
definition defaultMaxRetries :: int where "defaultMaxRetries = 2"
definition defaultRetryBackoff :: duration where "defaultRetryBackoff = 400 * 1000000"
definition defaultModel :: gostring where "defaultModel = ''hexward-ai''"
definition defaultMaxTokens :: int where "defaultMaxTokens = 512"
definition DefaultBaseURL :: gostring where "DefaultBaseURL = ''http://127.0.0.1:8435''"

record ai_client =
  baseURL :: gostring
  model :: gostring
  timeout :: duration
  maxRetries :: int
  retryBackoff :: duration
  grammar :: gostring
  maxTokens :: int
  apiKey :: gostring
  noThinking :: bool

text \<open>The functional options; the HTTP client of \<open>WithHTTPClient\<close> is the parameter of \<open>Explain\<close>.\<close>

definition WithModel :: "gostring \<Rightarrow> ai_client \<Rightarrow> ai_client" where
  "WithModel m c = (if m \<noteq> [] then c\<lparr>model := m\<rparr> else c)"

definition WithTimeout :: "duration \<Rightarrow> ai_client \<Rightarrow> ai_client" where
  "WithTimeout d c = (if d > 0 then c\<lparr>timeout := d\<rparr> else c)"

definition WithMaxRetries :: "int \<Rightarrow> ai_client \<Rightarrow> ai_client" where
  "WithMaxRetries n c = (if n \<ge> 0 then c\<lparr>maxRetries := n\<rparr> else c)"

definition WithRetryBackoff :: "duration \<Rightarrow> ai_client \<Rightarrow> ai_client" where
  "WithRetryBackoff d c = (if d > 0 then c\<lparr>retryBackoff := d\<rparr> else c)"

definition WithGrammar :: "gostring \<Rightarrow> ai_client \<Rightarrow> ai_client" where
  "WithGrammar g c = c\<lparr>grammar := g\<rparr>"

definition WithMaxTokens :: "int \<Rightarrow> ai_client \<Rightarrow> ai_client" where
  "WithMaxTokens n c = (if n > 0 then c\<lparr>maxTokens := n\<rparr> else c)"

definition WithAPIKey :: "gostring \<Rightarrow> ai_client \<Rightarrow> ai_client" where
  "WithAPIKey key c = c\<lparr>apiKey := TrimSpace key\<rparr>"

definition WithDisableThinking :: "ai_client \<Rightarrow> ai_client" where
  "WithDisableThinking c = c\<lparr>noThinking := True\<rparr>"

definition ai_New :: "gostring \<Rightarrow> (ai_client \<Rightarrow> ai_client) list \<Rightarrow> ai_client" where
  "ai_New url opts =
     (let url = (if url = [] then DefaultBaseURL else url);
          c = \<lparr>baseURL = TrimRight url ''/'', model = defaultModel, timeout = defaultTimeout,
               maxRetries = defaultMaxRetries, retryBackoff = defaultRetryBackoff, grammar = [],
               maxTokens = defaultMaxTokens, apiKey = [], noThinking = False\<rparr>
      in fold (\<lambda>opt c. opt c) opts c)"

text \<open>Settings no option can spoil.\<close>

definition client_ok :: "ai_client \<Rightarrow> bool" where
  "client_ok c \<longleftrightarrow> model c \<noteq> [] \<and> 0 < timeout c \<and> 0 \<le> maxRetries c \<and> 0 < retryBackoff c \<and> 0 < maxTokens c"

lemma client_ok_options:
  assumes "client_ok c"
  shows "client_ok (WithModel m c)" "client_ok (WithTimeout d c)" "client_ok (WithMaxRetries n c)"
    "client_ok (WithRetryBackoff d c)" "client_ok (WithGrammar g c)" "client_ok (WithMaxTokens n c)"
    "client_ok (WithAPIKey key c)" "client_ok (WithDisableThinking c)"
  using assms
  by (simp_all add: client_ok_def WithModel_def WithTimeout_def WithMaxRetries_def WithRetryBackoff_def
      WithGrammar_def WithMaxTokens_def WithAPIKey_def WithDisableThinking_def)

lemma client_ok_New:
  assumes "\<And>opt c. opt \<in> set opts \<Longrightarrow> client_ok c \<Longrightarrow> client_ok (opt c)"
  shows "client_ok (ai_New url opts)"
proof -
  have "client_ok c \<Longrightarrow> client_ok (fold (\<lambda>opt c. opt c) opts c)" for c
    using assms by (induction opts arbitrary: c) auto
  then show ?thesis
    by (simp add: ai_New_def Let_def client_ok_def defaultModel_def defaultTimeout_def defaultMaxRetries_def
        defaultRetryBackoff_def defaultMaxTokens_def)
qed

subsection \<open>The request\<close>

abbreviation ai_dash :: gostring where "ai_dash \<equiv> [mkbyte 0xE2, mkbyte 0x80, mkbyte 0x94]"

text \<open>The grounding rules, line by line.\<close>

definition systemPrompt :: gostring where
  "systemPrompt = JoinStrings
     [''You are the Hexward AI Assist narrator. You will receive one JSON evidence packet de''
        @ ''scribing a single security finding that a Hexward product'' @ [mkbyte 0x27]
        @ ''s own deterministic engine already produced.'',
      [],
      ''Rules you must follow exactly:'',
      ''1. Use ONLY the fields inside the evidence packet. Do not state any fact (an ID, a r''
        @ ''ule number, an IP address, a hostname, a CVE identifier, a date, or any other specif''
        @ ''ic value) that is not present in the packet. Do not calculate, convert, round or re-''
        @ ''express numbers and dates (no '' @ [dquote] @ ''that is about 11 years'' @ [dquote]
        @ ''); quote them exactly as the packet gives them. If something relevant is not in the ''
        @ ''packet, say plainly that the evidence does not contain it.'',
      ''2. You narrate; you do not decide. Never invent a new finding, never change or imply''
        @ '' a different severity, never claim something is fixed, safe, or dangerous beyond wha''
        @ ''t the packet already states.'',
      ''3. If the feature is hexward.explain_finding: explain in plain language what the fin''
        @ ''ding means, using only its check, title, target, severity, status, remediation and e''
        @ ''vidence fields, and why it matters to the owner of that target. Keep the explanation''
        @ '' to at most four sentences. In what_to_verify give two to four concrete checks a per''
        @ ''son can actually perform before acting (for example: confirm who owns the target, co''
        @ ''nfirm the change window, re-run the check after the fix) '' @ ai_dash
        @ '' do not simply restate evidence values as list items. You may restate the packet''
        @ [mkbyte 0x27]
        @ ''s own remediation text; never invent a different fix, command, or configuration.'',
      ''4. If the feature is rulehawk.explain_finding: explain in plain language why the rul''
        @ ''e relationship in the packet matters, and list what a human should verify before tou''
        @ ''ching the rule. Never draft a replacement rule or CLI command.'',
      ''5. If the feature is auditlight.why_disappeared: explain, using only the packet''
        @ [mkbyte 0x27] @ ''s '' @ [dquote] @ ''status'' @ [dquote]
        @ '' field and its plain meaning (fixed / no_longer_detected / check_failed / target_ski''
        @ ''pped), which of those happened and what that means for how much the report can be tr''
        @ ''usted. Never claim '' @ [dquote] @ ''fixed'' @ [dquote] @ '' for any other status value.'',
      ''6. Respond with a single JSON object matching the required schema exactly: {'' @ [dquote]
        @ ''explanation'' @ [dquote] @ '': string, '' @ [dquote] @ ''what_to_verify'' @ [dquote]
        @ '': [string, ...], '' @ [dquote] @ ''disclaimer'' @ [dquote]
        @ '': string}. No prose outside the JSON object.''] [mkbyte 10]"

definition languageInstruction :: "gostring \<Rightarrow> gostring" where
  "languageInstruction lang =
     (if lang = ''id''
      then ''Write the '' @ [dquote] @ ''explanation'' @ [dquote] @ '' and every '' @ [dquote] @ ''what_to_verify''
             @ [dquote] @ '' item in Bahasa Indonesia. Keep rule text, hostnames, IP addresses, identifiers ''
             @ ''and other field values exactly as they appear in the packet '' @ ai_dash
             @ '' do not translate them.''
      else ''Write the '' @ [dquote] @ ''explanation'' @ [dquote] @ '' and every '' @ [dquote] @ ''what_to_verify''
             @ [dquote] @ '' item in English.'')"

record chat_request =
  rq_Model :: gostring
  rq_Messages :: "(gostring \<times> gostring) list"
  rq_Temperature :: rat
  rq_Grammar :: gostring
  rq_MaxTokens :: int
  rq_DisableThinking :: bool
  rq_Authorization :: gostring

text \<open>
  What the client reads of an answer's body: an error message the server put in it, or the contents
  of the choices.
\<close>

record chat_response =
  rs_Error :: "gostring option"
  rs_Choices :: "gostring list"

text \<open>
  The outside world: compaction of a raw JSON value (none when it is not valid), the severity field
  of a finding's JSON, the two decoders of answers, the error of building a request to an address
  (none when the address is one), and the exchange of attempt \<open>i\<close>: a transport error, or a status
  code with the body (cut at one MiB) or the error of reading it.
\<close>

record ai_lib =
  json_compact :: "gostring \<Rightarrow> gostring option"
  json_severity :: "gostring \<Rightarrow> gostring option"
  parse_response :: "gostring \<Rightarrow> chat_response option"
  parse_explanation :: "gostring \<Rightarrow> explanation option"
  build_error :: "gostring \<Rightarrow> goerror option"
  http_do :: "nat \<Rightarrow> chat_request \<Rightarrow> goerror + (int \<times> (goerror + gostring))"

definition findingSeverity :: "ai_lib \<Rightarrow> evidence_packet \<Rightarrow> gostring" where
  "findingSeverity L p =
     (if ep_Feature p \<noteq> FeatureExplainFinding then []
      else case json_severity L (ep_Finding p) of None \<Rightarrow> [] | Some s \<Rightarrow> TrimSpace s)"

definition severityInstruction :: "ai_lib \<Rightarrow> evidence_packet \<Rightarrow> gostring" where
  "severityInstruction L p =
     (let sev = findingSeverity L p in
      if sev = [] then []
      else ''The engine rated this finding '' @ go_quote sev
             @ ''. If you mention severity, use exactly that word; never call it higher or lower. '')"

definition marshal_packet :: "ai_lib \<Rightarrow> evidence_packet \<Rightarrow> gostring option" where
  "marshal_packet L p =
     map_option (\<lambda>raw. json_fields ([(''feature'', json_string (ep_Feature p)), (''product'', json_string (ep_Product p)),
         (''finding'', raw)] @ omitempty ''language'' (ep_Language p)))
       (json_compact L (ep_Finding p))"

definition build_request :: "ai_lib \<Rightarrow> ai_client \<Rightarrow> evidence_packet \<Rightarrow> gostring \<Rightarrow> chat_request" where
  "build_request L c p payload =
     \<lparr>rq_Model = model c,
      rq_Messages =
        [(''system'', systemPrompt @ [mkbyte 10] @ ''7. '' @ languageInstruction (ep_Language p)),
         (''user'', payload @ [mkbyte 10, mkbyte 10] @ severityInstruction L p @ languageInstruction (ep_Language p))],
      rq_Temperature = 1 / 5, rq_Grammar = grammar c, rq_MaxTokens = maxTokens c,
      rq_DisableThinking = noThinking c,
      rq_Authorization = (if apiKey c \<noteq> [] then ''Bearer '' @ apiKey c else [])\<rparr>"

subsection \<open>One attempt\<close>

datatype ai_error =
    Retryable goerror
  | Unbuildable goerror
  | Rejected goerror
  | Unparsable goerror
  | Unavailable goerror
  | Interrupted goerror
  | BadPacket goerror

definition IsUnavailable :: "ai_error \<Rightarrow> bool" where
  "IsUnavailable e = (case e of Unavailable _ \<Rightarrow> True | _ \<Rightarrow> False)"

definition isRetryable :: "ai_error \<Rightarrow> bool" where
  "isRetryable e = (case e of Retryable _ \<Rightarrow> True | _ \<Rightarrow> False)"

fun ai_error_text :: "ai_error \<Rightarrow> goerror" where
  "ai_error_text (Retryable t) = t"
| "ai_error_text (Unbuildable t) = t"
| "ai_error_text (Rejected t) = t"
| "ai_error_text (Unparsable t) = t"
| "ai_error_text (Unavailable t) = t"
| "ai_error_text (Interrupted t) = t"
| "ai_error_text (BadPacket t) = t"

definition truncate_bytes :: "gostring \<Rightarrow> nat \<Rightarrow> gostring" where
  "truncate_bytes b n = (if length b \<le> n then b else take n b @ ellipsis)"

definition unavailable_text :: gostring where "unavailable_text = ''aiclient: hexward-ai sidecar unavailable''"
definition rejected_text :: gostring where "rejected_text = ''aiclient: hexward-ai rejected the request''"
definition invalid_text :: gostring where "invalid_text = ''aiclient: hexward-ai returned an unparsable response''"

definition doRequest :: "ai_lib \<Rightarrow> ai_client \<Rightarrow> nat \<Rightarrow> chat_request \<Rightarrow> ai_error + explanation" where
  "doRequest L c i req =
     (case build_error L (baseURL c @ ''/v1/chat/completions'') of
        Some e \<Rightarrow> Inl (Unbuildable (''aiclient: build request: '' @ e))
      | None \<Rightarrow>
         (case http_do L i req of
            Inl e \<Rightarrow> Inl (Retryable (''aiclient: request to '' @ baseURL c @ '': '' @ e))
          | Inr (code, Inl e) \<Rightarrow> Inl (Retryable (''aiclient: read response body: '' @ e))
          | Inr (code, Inr body) \<Rightarrow>
              if code \<ge> 500 then
                Inl (Retryable (unavailable_text @ '': HTTP '' @ show_int code @ '': '' @ truncate_bytes body 300))
              else if code \<ge> 400 then
                Inl (Rejected (rejected_text @ '': HTTP '' @ show_int code @ '': '' @ truncate_bytes body 300))
              else
                (case parse_response L body of
                   None \<Rightarrow> Inl (Unparsable (invalid_text @ '': not valid JSON: '' @ truncate_bytes body 300))
                 | Some parsed \<Rightarrow>
                     (case rs_Error parsed of
                        Some msg \<Rightarrow> Inl (Retryable (unavailable_text @ '': sidecar reported an error: '' @ msg))
                      | None \<Rightarrow>
                          (case rs_Choices parsed of
                             [] \<Rightarrow> Inl (Unparsable (invalid_text @ '': response had no choices''))
                           | content # _ \<Rightarrow>
                               (case parse_explanation L content of
                                  None \<Rightarrow> Inl (Unparsable (invalid_text
                                            @ '': model content was not the required JSON schema: '' @ truncate_bytes content 300))
                                | Some x \<Rightarrow>
                                    if TrimSpace (ExplanationText x) = []
                                    then Inl (Unparsable (invalid_text @ '': empty explanation field''))
                                    else Inr x))))))"

lemma doRequest_ok: "doRequest L c i req = Inr x \<Longrightarrow> TrimSpace (ExplanationText x) \<noteq> []"
  by (auto simp: doRequest_def split: sum.splits prod.splits if_splits option.splits list.splits)

subsection \<open>\<open>Explain\<close>\<close>

text \<open>
  The retry loop from attempt \<open>i\<close> on; \<open>left\<close> attempts remain after it. \<open>ctx_err i\<close> is the context's
  error when it is done during the pause before attempt \<open>i\<close>. The second component counts the
  attempts made, the third lists the pauses. An attempt sends one request, or none where the request
  cannot be built, which ends the loop.
\<close>

fun explain_attempts ::
  "ai_lib \<Rightarrow> (nat \<Rightarrow> goerror option) \<Rightarrow> ai_client \<Rightarrow> chat_request \<Rightarrow> nat \<Rightarrow> nat \<Rightarrow>
   (ai_error + explanation) \<times> nat \<times> duration list" where
  "explain_attempts L ctx_err c req i left =
     (case (if i > 0 then ctx_err i else None) of
        Some e \<Rightarrow> (Inl (Interrupted e), 0, [])
      | None \<Rightarrow>
          (let pause = (if i > 0 then [int i * retryBackoff c] else []) in
           case doRequest L c i req of
             Inr x \<Rightarrow> (Inr x, 1, pause)
           | Inl err \<Rightarrow>
               if \<not> isRetryable err then (Inl err, 1, pause)
               else (case left of
                       0 \<Rightarrow> (Inl (Unavailable (unavailable_text @ '' (after '' @ show_int (maxRetries c + 1)
                                 @ '' attempt(s)): '' @ ai_error_text err)), 1, pause)
                     | Suc k \<Rightarrow>
                         (let (r, n, ps) = explain_attempts L ctx_err c req (Suc i) k
                          in (r, Suc n, pause @ ps)))))"

declare explain_attempts.simps [simp del]

definition finish_explanation :: "ai_lib \<Rightarrow> evidence_packet \<Rightarrow> explanation \<Rightarrow> explanation" where
  "finish_explanation L p x =
     (let sev = findingSeverity L p;
          x = (if sev \<noteq> [] then x\<lparr>ExplanationText := dropConflictingSeverity (ExplanationText x) sev\<rparr> else x)
      in x\<lparr>Disclaimer := CanonicalDisclaimer\<rparr>)"

definition Explain ::
  "ai_lib \<Rightarrow> (nat \<Rightarrow> goerror option) \<Rightarrow> ai_client \<Rightarrow> evidence_packet \<Rightarrow>
   (ai_error + explanation) \<times> nat \<times> duration list" where
  "Explain L ctx_err c p =
     (if ep_Feature p = [] then (Inl (BadPacket ''aiclient: EvidencePacket.Feature is required''), 0, [])
      else if ep_Product p = [] then (Inl (BadPacket ''aiclient: EvidencePacket.Product is required''), 0, [])
      else if ep_Finding p = [] then (Inl (BadPacket ''aiclient: EvidencePacket.Finding is required''), 0, [])
      else
        (let p = p\<lparr>ep_Language := NormalizeLanguage (ep_Language p)\<rparr> in
         case marshal_packet L p of
           None \<Rightarrow> (Inl (BadPacket ''aiclient: marshal evidence packet: invalid JSON''), 0, [])
         | Some payload \<Rightarrow>
             (case explain_attempts L ctx_err c (build_request L c p payload) 0 (nat (maxRetries c)) of
                (Inr x, n, ps) \<Rightarrow> (Inr (finish_explanation L p x), n, ps)
              | (Inl e, n, ps) \<Rightarrow> (Inl e, n, ps))))"

definition answered :: "ai_lib \<Rightarrow> ai_client \<Rightarrow> chat_request \<Rightarrow> nat \<Rightarrow> bool" where
  "answered L c req i \<longleftrightarrow> (case doRequest L c i req of Inr _ \<Rightarrow> True | Inl e \<Rightarrow> \<not> isRetryable e)"

text \<open>The three ways the loop ends: the context, the last attempt, or an answer.\<close>

definition loop_end :: "ai_lib \<Rightarrow> (nat \<Rightarrow> goerror option) \<Rightarrow> ai_client \<Rightarrow> chat_request \<Rightarrow> nat \<Rightarrow> nat \<Rightarrow> nat \<Rightarrow>
  ai_error + explanation \<Rightarrow> bool" where
  "loop_end L ctx_err c req i left n r \<longleftrightarrow>
     (\<exists>e. r = Inl (Interrupted e) \<and> ctx_err (i + n) = Some e \<and> n \<le> left)
     \<or> (\<exists>t. r = Inl (Unavailable t) \<and> n = Suc left \<and> \<not> answered L c req (i + left))
     \<or> (0 < n \<and> n \<le> Suc left \<and> r = doRequest L c (i + n - 1) req \<and> answered L c req (i + n - 1))"

lemma explain_attempts_interrupted:
  "0 < i \<Longrightarrow> ctx_err i = Some e \<Longrightarrow> explain_attempts L ctx_err c req i left = (Inl (Interrupted e), 0, [])"
  by (simp add: explain_attempts.simps [of L ctx_err c req i])

lemma explain_attempts_answered:
  assumes "i = 0 \<or> ctx_err i = None" "answered L c req i"
  shows "\<exists>ps. explain_attempts L ctx_err c req i left = (doRequest L c i req, 1, ps)"
proof (cases "doRequest L c i req")
  case (Inl e)
  with assms(2) have "\<not> isRetryable e" by (simp add: answered_def)
  with Inl assms(1) show ?thesis by (auto simp: explain_attempts.simps [of L ctx_err c req i] Let_def)
next
  case (Inr x)
  with assms(1) show ?thesis by (auto simp: explain_attempts.simps [of L ctx_err c req i] Let_def)
qed

lemma not_answeredE:
  assumes "\<not> answered L c req i"
  obtains e where "doRequest L c i req = Inl e" "isRetryable e"
  using assms by (cases "doRequest L c i req") (simp_all add: answered_def)

lemma explain_attempts_spent:
  assumes "i = 0 \<or> ctx_err i = None" "\<not> answered L c req i"
  shows "\<exists>t ps. explain_attempts L ctx_err c req i 0 = (Inl (Unavailable t), 1, ps)"
proof -
  obtain e where "doRequest L c i req = Inl e" "isRetryable e" using not_answeredE [OF assms(2)] .
  with assms(1) show ?thesis by (auto simp: explain_attempts.simps [of L ctx_err c req i] Let_def)
qed

lemma explain_attempts_again:
  assumes "i = 0 \<or> ctx_err i = None" "\<not> answered L c req i"
    and "explain_attempts L ctx_err c req (Suc i) left = (r, n, ps)"
  shows "\<exists>ps'. explain_attempts L ctx_err c req i (Suc left) = (r, Suc n, ps')"
proof -
  obtain e where "doRequest L c i req = Inl e" "isRetryable e" using not_answeredE [OF assms(2)] .
  with assms(1, 3) show ?thesis by (auto simp: explain_attempts.simps [of L ctx_err c req i] Let_def)
qed

lemma explain_attempts_outcome:
  assumes "explain_attempts L ctx_err c req i left = (r, n, ps)"
  shows "(\<forall>k. k + 1 < n \<longrightarrow> \<not> answered L c req (i + k)) \<and> loop_end L ctx_err c req i left n r"
  using assms
proof (induction left arbitrary: i r n ps)
  case (0 i)
  consider (ctx) e where "0 < i" "ctx_err i = Some e"
    | (ans) "i = 0 \<or> ctx_err i = None" "answered L c req i"
    | (no) "i = 0 \<or> ctx_err i = None" "\<not> answered L c req i" by (cases "ctx_err i") auto
  then show ?case
  proof cases
    case ctx
    then show ?thesis using 0 explain_attempts_interrupted [of i ctx_err, OF ctx] by (simp add: loop_end_def)
  next
    case ans
    then show ?thesis using 0 explain_attempts_answered [of i ctx_err L c req 0, OF ans] ans by (auto simp: loop_end_def)
  next
    case no
    then show ?thesis using 0 explain_attempts_spent [of i ctx_err, OF no] by (auto simp: loop_end_def)
  qed
next
  case (Suc left i)
  consider (ctx) e where "0 < i" "ctx_err i = Some e"
    | (ans) "i = 0 \<or> ctx_err i = None" "answered L c req i"
    | (no) "i = 0 \<or> ctx_err i = None" "\<not> answered L c req i" by (cases "ctx_err i") auto
  then show ?case
  proof cases
    case ctx
    then show ?thesis using Suc.prems explain_attempts_interrupted [of i ctx_err, OF ctx] by (simp add: loop_end_def)
  next
    case ans
    then show ?thesis using Suc.prems explain_attempts_answered [of i ctx_err L c req "Suc left", OF ans] ans by (auto simp: loop_end_def)
  next
    case no
    obtain r' n' ps' where rec: "explain_attempts L ctx_err c req (Suc i) left = (r', n', ps')"
      by (cases "explain_attempts L ctx_err c req (Suc i) left")
    have eqs: "r = r'" "n = Suc n'" using Suc.prems explain_attempts_again [of i ctx_err, OF no rec] by auto
    note ih = Suc.IH [OF rec]
    have "\<not> answered L c req (i + k)" if "k + 1 < n" for k
      using ih that eqs(2) no by (cases k) simp_all
    moreover have "loop_end L ctx_err c req i (Suc left) n r"
      using ih unfolding loop_end_def eqs by auto
    ultimately show ?thesis by blast
  qed
qed

lemma answered_result:
  "answered L c req k \<Longrightarrow> doRequest L c k req = Inl e \<Longrightarrow> \<exists>t. e = Unbuildable t \<or> e = Rejected t \<or> e = Unparsable t"
  by (auto simp: answered_def doRequest_def isRetryable_def
      split: sum.splits prod.splits if_splits option.splits list.splits)

lemma dropConflictingSeverity_nonblank:
  assumes "TrimSpace text \<noteq> []"
  shows "dropConflictingSeverity text sev \<noteq> []"
proof -
  have "TrimSpace [] = []" using set_TrimSpace [of "[]"] by simp
  then have "text \<noteq> []" using assms by metis
  then show ?thesis by (simp add: dropConflictingSeverity_def Let_def)
qed

text \<open>The packet with its language checked, and the request every attempt sends for it.\<close>

definition checked_packet :: "evidence_packet \<Rightarrow> evidence_packet" where
  "checked_packet p = p\<lparr>ep_Language := NormalizeLanguage (ep_Language p)\<rparr>"

definition sent_request :: "ai_lib \<Rightarrow> ai_client \<Rightarrow> evidence_packet \<Rightarrow> chat_request" where
  "sent_request L c p =
     (let q = checked_packet p
      in build_request L c q (case marshal_packet L q of Some payload \<Rightarrow> payload | None \<Rightarrow> []))"

lemma finish_explanation_ok:
  assumes "TrimSpace (ExplanationText x) \<noteq> []"
  shows "ExplanationText (finish_explanation L p x) \<noteq> []
    \<and> Disclaimer (finish_explanation L p x) = CanonicalDisclaimer"
proof -
  have "TrimSpace [] = []" using set_TrimSpace [of "[]"] by simp
  then have "ExplanationText x \<noteq> []" using assms by metis
  then show ?thesis
    using dropConflictingSeverity_nonblank [OF assms] by (simp add: finish_explanation_def Let_def)
qed

text \<open>A call either refuses the packet before sending anything, or is a run of the loop.\<close>

lemma Explain_loop:
  assumes "Explain L ctx_err c p = (r, n, ps)"
  obtains (refused) t where "n = 0" "r = Inl (BadPacket t)"
    | (run) r' where
        "explain_attempts L ctx_err c (sent_request L c p) 0 (nat (maxRetries c)) = (r', n, ps)"
        "r = (case r' of Inr x \<Rightarrow> Inr (finish_explanation L (checked_packet p) x) | Inl e \<Rightarrow> Inl e)"
proof (cases "ep_Feature p = [] \<or> ep_Product p = [] \<or> ep_Finding p = [] \<or> marshal_packet L (checked_packet p) = None")
  case True
  with assms refused show ?thesis by (auto simp: Explain_def Let_def checked_packet_def split: if_splits)
next
  case False
  then obtain payload where pay: "marshal_packet L (checked_packet p) = Some payload" by blast
  have req: "sent_request L c p = build_request L c (checked_packet p) payload"
    by (simp add: sent_request_def Let_def pay)
  obtain r' n' ps' where "explain_attempts L ctx_err c (sent_request L c p) 0 (nat (maxRetries c)) = (r', n', ps')"
    by (cases "explain_attempts L ctx_err c (sent_request L c p) 0 (nat (maxRetries c))")
  moreover have "n = n' \<and> ps = ps' \<and> r = (case r' of Inr x \<Rightarrow> Inr (finish_explanation L (checked_packet p) x) | Inl e \<Rightarrow> Inl e)"
    using assms False pay calculation by (auto simp: Explain_def Let_def req checked_packet_def split: sum.splits)
  ultimately show ?thesis using run by blast
qed

lemma Explain_answer:
  assumes "Explain L ctx_err c p = (r, n, ps)"
  shows "n \<le> Suc (nat (maxRetries c))
    \<and> (\<forall>x. r = Inr x \<longrightarrow> 0 < n \<and> ExplanationText x \<noteq> [] \<and> Disclaimer x = CanonicalDisclaimer)"
  using assms
proof (cases rule: Explain_loop)
  case (run r')
  show ?thesis
  proof (cases r')
    case (Inl e)
    then show ?thesis using run explain_attempts_outcome [OF run(1)] by (auto simp: loop_end_def)
  next
    case (Inr y)
    with explain_attempts_outcome [OF run(1)] have n: "0 < n" "n \<le> Suc (nat (maxRetries c))"
      and y: "doRequest L c (n - 1) (sent_request L c p) = Inr y" by (auto simp: loop_end_def)
    from finish_explanation_ok [OF doRequest_ok [OF y]] n run(2) Inr show ?thesis by simp
  qed
qed simp

text \<open>
  (C32) What \<open>Explain\<close> can return. At most \<open>maxRetries + 1\<close> attempts are made, and another one only
  after an answer that is worth repeating (no answer, a status of 500 or more, or an error body). A
  narration is the last answer, finished: it has text and carries the canonical disclaimer, whatever
  the model wrote there. \<open>Unavailable\<close> means that every attempt failed that way, and all of them
  were made.
\<close>

theorem explain_outcome:
  assumes "Explain L ctx_err c p = (r, n, ps)" "0 \<le> maxRetries c"
  shows "int n \<le> maxRetries c + 1
    \<and> (\<forall>k. k + 1 < n \<longrightarrow> (\<exists>e. doRequest L c k (sent_request L c p) = Inl e \<and> isRetryable e))
    \<and> (case r of
         Inr x \<Rightarrow> 0 < n \<and> ExplanationText x \<noteq> [] \<and> Disclaimer x = CanonicalDisclaimer
           \<and> (\<exists>y. doRequest L c (n - 1) (sent_request L c p) = Inr y
                \<and> x = finish_explanation L (checked_packet p) y)
       | Inl (Unavailable t) \<Rightarrow> int n = maxRetries c + 1
           \<and> (\<exists>e. doRequest L c (n - 1) (sent_request L c p) = Inl e \<and> isRetryable e)
       | Inl (Interrupted e) \<Rightarrow> ctx_err n = Some e
       | Inl (BadPacket t) \<Rightarrow> n = 0
       | Inl e \<Rightarrow> 0 < n \<and> doRequest L c (n - 1) (sent_request L c p) = Inl e \<and> \<not> isRetryable e)"
  using assms(1)
proof (cases rule: Explain_loop)
  case refused
  then show ?thesis using assms(2) by simp
next
  case (run r')
  define req where "req = sent_request L c p"
  have early: "\<forall>k. k + 1 < n \<longrightarrow> \<not> answered L c req k"
    and fin: "loop_end L ctx_err c req 0 (nat (maxRetries c)) n r'"
    using explain_attempts_outcome [OF run(1)] by (simp_all add: req_def)
  have retried: "\<forall>k. k + 1 < n \<longrightarrow> (\<exists>e. doRequest L c k req = Inl e \<and> isRetryable e)"
    using early not_answeredE by metis
  note [simp] = req_def [symmetric]
  note r = run(2)
  from fin consider
      (ctx) e where "r' = Inl (Interrupted e)" "ctx_err n = Some e" "n \<le> nat (maxRetries c)"
    | (spent) t where "r' = Inl (Unavailable t)" "n = Suc (nat (maxRetries c))" "\<not> answered L c req (nat (maxRetries c))"
    | (got) "0 < n" "n \<le> Suc (nat (maxRetries c))" "r' = doRequest L c (n - 1) req" "answered L c req (n - 1)"
    by (auto simp: loop_end_def)
  then show ?thesis
  proof cases
    case ctx
    then show ?thesis using r assms(2) retried by simp
  next
    case spent
    obtain e where "doRequest L c (nat (maxRetries c)) req = Inl e" "isRetryable e"
      using not_answeredE [OF spent(3)] .
    then show ?thesis using r spent assms(2) retried by auto
  next
    case got
    have bound: "int n \<le> maxRetries c + 1" using got(2) assms(2) by simp
    show ?thesis
    proof (cases r')
      case (Inr x)
      have d: "doRequest L c (n - 1) req = Inr x" using got(3) Inr by simp
      have "r = Inr (finish_explanation L (checked_packet p) x)" using r Inr by simp
      then show ?thesis using bound retried got(1) d finish_explanation_ok [OF doRequest_ok [OF d]] by auto
    next
      case (Inl e)
      have d: "doRequest L c (n - 1) req = Inl e" using got(3) Inl by simp
      obtain t where "e = Unbuildable t \<or> e = Rejected t \<or> e = Unparsable t" using answered_result [OF got(4) d] by blast
      moreover have "r = Inl e" using r Inl by simp
      ultimately show ?thesis using bound retried got(1) d by (auto simp: isRetryable_def)
    qed
  qed
qed

text \<open>A sidecar that is not running: three attempts, then \<open>Unavailable\<close>.\<close>

definition demo_ai_lib :: ai_lib where
  "demo_ai_lib = \<lparr>json_compact = Some, json_severity = (\<lambda>_. None), parse_response = (\<lambda>_. None),
     parse_explanation = (\<lambda>_. None), build_error = (\<lambda>_. None), http_do = (\<lambda>_ _. Inl ''refused'')\<rparr>"

definition demo_packet :: evidence_packet where
  "demo_packet = \<lparr>ep_Feature = ''f'', ep_Product = ''p'', ep_Finding = ''{}'', ep_Language = []\<rparr>"

lemma demo_attempt: "\<exists>e. doRequest demo_ai_lib c k req = Inl (Retryable e)"
  by (simp add: doRequest_def demo_ai_lib_def)

lemma demo_explain:
  "\<exists>t ps. Explain demo_ai_lib (\<lambda>_. None) (ai_New [] []) demo_packet = (Inl (Unavailable t), 3, ps)"
proof -
  let ?c = "ai_New [] []"
  define req where "req = build_request demo_ai_lib ?c (checked_packet demo_packet)
    (the (marshal_packet demo_ai_lib (checked_packet demo_packet)))"
  have no: "\<not> answered demo_ai_lib ?c req i" for i
    using demo_attempt [of ?c i req] by (auto simp: answered_def isRetryable_def)
  have retries: "maxRetries ?c = 2" by (simp add: ai_New_def defaultMaxRetries_def)
  obtain t ps where "explain_attempts demo_ai_lib (\<lambda>_. None) ?c req 2 0 = (Inl (Unavailable t), 1, ps)"
    using explain_attempts_spent [OF _ no, of 2 "\<lambda>_. None"] by auto
  then obtain ps where "explain_attempts demo_ai_lib (\<lambda>_. None) ?c req 1 1 = (Inl (Unavailable t), 2, ps)"
    using explain_attempts_again [OF _ no, of 1 "\<lambda>_. None" 0] by (auto simp: numeral_2_eq_2)
  then obtain ps where loop: "explain_attempts demo_ai_lib (\<lambda>_. None) ?c req 0 2 = (Inl (Unavailable t), 3, ps)"
    using explain_attempts_again [OF _ no, of 0 "\<lambda>_. None" 1] by (auto simp: numeral_2_eq_2 numeral_3_eq_3)
  have packet: "ep_Feature demo_packet \<noteq> []" "ep_Product demo_packet \<noteq> []" "ep_Finding demo_packet \<noteq> []"
    by (simp_all add: demo_packet_def)
  obtain payload where pay: "marshal_packet demo_ai_lib (checked_packet demo_packet) = Some payload"
    by (simp add: marshal_packet_def demo_ai_lib_def)
  show ?thesis
    using loop pay packet retries
    by (simp add: Explain_def Let_def req_def checked_packet_def [symmetric])
qed

lemma explain_outcome_witness:
  "\<exists>t. int 3 = maxRetries (ai_New [] []) + 1
     \<and> (\<exists>e. doRequest demo_ai_lib (ai_New [] []) 2 (sent_request demo_ai_lib (ai_New [] []) demo_packet) = Inl e
          \<and> isRetryable e)
     \<and> fst (Explain demo_ai_lib (\<lambda>_. None) (ai_New [] []) demo_packet) = Inl (Unavailable t)"
proof -
  obtain t ps where run: "Explain demo_ai_lib (\<lambda>_. None) (ai_New [] []) demo_packet = (Inl (Unavailable t), 3, ps)"
    using demo_explain by blast
  have "0 \<le> maxRetries (ai_New [] [])" by (simp add: ai_New_def defaultMaxRetries_def)
  from explain_outcome [OF run this] run show ?thesis by simp
qed

end
