(* ===== verification/WebServer.thy ===== *)
theory WebServer
  imports AsmCollector SqliteStore NotifyChannels License AiClient
begin

section \<open>The dashboard's API (\<open>web/server.go\<close>, \<open>web/ai.go\<close>)\<close>

text \<open>
  The HTTP handlers over the running system. The state of the dashboard is the database (findings
  and saved targets), the scheduler's registry, the world of the collectors (the challenge store
  with it), the license activation and the license file. A handler maps a request to a response
  and the state after it; its body is what the JSON decoder makes of the bytes (\<open>None\<close> when it
  rejects them). The bytes of a JSON answer are not rendered: a response carries the value that is
  encoded. What the outside answers during one request is an \<open>env\<close>.
\<close>

subsection \<open>The server\<close>

record ai_assist =
  assist_Client :: "ai_client option"
  assist_Endpoint :: gostring
  assist_Keyed :: bool
  assist_Language :: gostring

text \<open>
  The fields fixed at start-up. \<open>sv_TierLimits\<close> and \<open>sv_Verify\<close> are \<open>None\<close> for nil, \<open>sv_Targets\<close>
  tells whether targets are saved in the database.
\<close>

record ('w, 'o) server =
  sv_Module :: module_info
  sv_ExportMeta :: hfs_meta
  sv_ExportEvidence :: 'o
  sv_Targets :: bool
  sv_TierLimits :: "(tier \<times> limits) list option"
  sv_Verify :: "(gostring \<Rightarrow> 'w \<Rightarrow> (goerror + challenge list) \<times> 'w) option"
  sv_IssuerPub :: gostring
  sv_LicenseFile :: gostring
  sv_AI :: "ai_assist option"

record 'w web =
  web_db :: sqldb
  web_sched :: "'w sched"
  web_world :: 'w
  web_activation :: activation
  web_file :: "gostring option"

text \<open>
  One request's surroundings: the clock at its successive readings, the request's context (its
  error at attempt \<open>i\<close> of a narration, and at the end of a scan), what writing the license file
  returns and leaves on disk, and the libraries.
\<close>

record ('o, 'e) env =
  env_clock :: "nat \<Rightarrow> instant"
  env_ctx :: "nat \<Rightarrow> goerror option"
  env_write :: "gostring \<Rightarrow> goerror option \<times> gostring option"
  env_license :: license_lib
  env_ai :: ai_lib
  env_hfs_new :: "gostring \<Rightarrow> hfs_meta \<Rightarrow> hfs_source \<Rightarrow> instant \<Rightarrow> 'o \<Rightarrow> 'e"
  env_hfs_marshal :: "'e \<Rightarrow> gostring option"

subsection \<open>Responses\<close>

record summary =
  sum_Product :: gostring
  sum_Tier :: gostring
  sum_Notice :: gostring
  sum_Counts :: "(gostring \<times> nat) list"
  sum_OpenTotal :: nat
  sum_Targets :: nat
  sum_MaxTargets :: int
  sum_CanScanNow :: bool
  sum_TargetKind :: gostring

record finding_json =
  fj_Fingerprint :: gostring
  fj_Target :: gostring
  fj_Check :: gostring
  fj_Title :: gostring
  fj_Severity :: gostring
  fj_Status :: gostring
  fj_Remediation :: gostring
  fj_Evidence :: evidence
  fj_FirstSeen :: instant
  fj_LastSeen :: instant

record ai_status =
  st_Enabled :: bool
  st_Reason :: gostring
  st_Language :: gostring
  st_Keyed :: bool

record explain_response =
  ex_Available :: bool
  ex_Reason :: gostring
  ex_Explanation :: gostring
  ex_WhatToVerify :: "gostring list"
  ex_Disclaimer :: gostring

datatype body =
    ErrorBody gostring
  | SummaryBody summary
  | VerificationBody bool "(gostring \<times> gostring) list list"
  | FindingsBody "finding_json list"
  | ExportBody "gostring list"
  | OkBody
  | TargetsBody "(gostring \<times> gostring) list"
  | CanonicalBody gostring
  | LicenseBody gostring gostring "(gostring \<times> instant) option"
  | TierBody gostring
  | AiStatusBody ai_status
  | ExplainBody explain_response

record response =
  http_code :: int
  http_body :: body

definition writeJSON :: "body \<Rightarrow> response" where
  "writeJSON b = \<lparr>http_code = 200, http_body = b\<rparr>"

definition httpError :: "int \<Rightarrow> gostring \<Rightarrow> response" where
  "httpError code msg = \<lparr>http_code = code, http_body = ErrorBody msg\<rparr>"

lemma response_fields [simp]:
  "http_code (writeJSON b) = 200" "http_body (writeJSON b) = b"
  "http_code (httpError c m) = c" "http_body (httpError c m) = ErrorBody m"
  by (simp_all add: writeJSON_def httpError_def)

subsection \<open>Construction and limits\<close>

text \<open>
  \<open>NewServer\<close> resolves the activation from the license file; \<open>file\<close> is what reading it gives.
\<close>

definition initial_activation ::
  "license_lib \<Rightarrow> gostring \<Rightarrow> gostring \<Rightarrow> gostring \<Rightarrow> gostring option \<Rightarrow> instant \<Rightarrow> activation" where
  "initial_activation L pub product path file now =
     Activate L pub product
       (if path \<noteq> [] then (case file of Some b \<Rightarrow> TrimSpace b | None \<Rightarrow> []) else []) now"

definition NewServer ::
  "license_lib \<Rightarrow> ('w, 'o) server \<Rightarrow> sqldb \<Rightarrow> 'w sched \<Rightarrow> 'w \<Rightarrow> gostring option \<Rightarrow> instant \<Rightarrow> 'w web" where
  "NewServer L sv st sc w file now =
     \<lparr>web_db = st, web_sched = sc, web_world = w,
      web_activation =
        initial_activation L (sv_IssuerPub sv) (module_ID (sv_Module sv)) (sv_LicenseFile sv) file now,
      web_file = file\<rparr>"

definition effLimits :: "('w, 'o) server \<Rightarrow> 'w web \<Rightarrow> limits" where
  "effLimits sv s =
     (let act = web_activation s in
      case sv_TierLimits sv of
        None \<Rightarrow> act_Limits act
      | Some table \<Rightarrow>
          (case map_of table (act_Tier act) of Some l \<Rightarrow> l | None \<Rightarrow> act_Limits act))"

definition canAdd :: "limits \<Rightarrow> int \<Rightarrow> bool" where
  "canAdd l current \<longleftrightarrow> MaxTargets l = 0 \<or> current < MaxTargets l"

subsection \<open>Reading handlers\<close>

definition count_severities :: "frec list \<Rightarrow> (gostring \<times> nat) list" where
  "count_severities rs =
     fold (\<lambda>r m. AList.update (severity r)
                   ((case map_of m (severity r) of None \<Rightarrow> 0 | Some n \<Rightarrow> n) + 1) m) rs []"

definition handleSummary :: "('w, 'o) server \<Rightarrow> 'w web \<Rightarrow> response \<times> 'w web" where
  "handleSummary sv s =
     (let m = module_ID (sv_Module sv) in
      case sql_ListOpen m (web_db s) of
        (Inl e, d) \<Rightarrow> (httpError 500 ''store error'', s\<lparr>web_db := d\<rparr>)
      | (Inr rs, d) \<Rightarrow>
          (let act = web_activation s; lim = effLimits sv s in
           (writeJSON (SummaryBody
              \<lparr>sum_Product = module_Name (sv_Module sv), sum_Tier = act_Tier act, sum_Notice = Notice act,
               sum_Counts = count_severities rs, sum_OpenTotal = length rs,
               sum_Targets = length (ListTargets m (web_sched s)),
               sum_MaxTargets = MaxTargets lim, sum_CanScanNow = ScanNow_allowed lim,
               sum_TargetKind = TargetKind (sv_Module sv)\<rparr>),
            s\<lparr>web_db := d\<rparr>)))"

definition Instructions :: "challenge \<Rightarrow> gostring" where
  "Instructions c =
     ''Verify ownership of '' @ Domain c @ '' by EITHER:'' @ [mkbyte 10]
     @ ''  DNS  '' @ ai_dash @ '' add a TXT record at '' @ go_quote (DNSRecordName c)
     @ '' with value '' @ go_quote (DNSRecordValue c) @ [mkbyte 10]
     @ ''  HTTP '' @ ai_dash @ '' serve '' @ go_quote (HTTPURL c) @ '' containing ''
     @ go_quote (HTTPFileContents c) @ [mkbyte 10]
     @ ''Then it verifies automatically on the next scan.''"

definition challenge_json :: "challenge \<Rightarrow> (gostring \<times> gostring) list" where
  "challenge_json c =
     [(''domain'', Domain c), (''state'', State c), (''dns_record'', DNSRecordName c),
      (''dns_value'', DNSRecordValue c), (''http_url'', HTTPURL c),
      (''http_contents'', HTTPFileContents c), (''instructions'', Instructions c)]"

definition handleVerification :: "('w, 'o) server \<Rightarrow> 'w web \<Rightarrow> response \<times> 'w web" where
  "handleVerification sv s =
     (case sv_Verify sv of
        None \<Rightarrow> (writeJSON (VerificationBody False []), s)
      | Some list_challenges \<Rightarrow>
          (case list_challenges (module_ID (sv_Module sv)) (web_world s) of
             (Inl e, w) \<Rightarrow> (httpError 500 ''verification store error'', s\<lparr>web_world := w\<rparr>)
           | (Inr cs, w) \<Rightarrow>
               (writeJSON (VerificationBody True (map challenge_json cs)), s\<lparr>web_world := w\<rparr>)))"

text \<open>Resolved findings are listed for a day.\<close>

definition hidden :: "instant \<Rightarrow> frec \<Rightarrow> bool" where
  "hidden now r \<longleftrightarrow> status r = StatusResolved
     \<and> (case resolvedAt r of None \<Rightarrow> True | Some t \<Rightarrow> time_Sub now t > 24 * hour)"

definition finding_row :: "frec \<Rightarrow> finding_json" where
  "finding_row r =
     \<lparr>fj_Fingerprint = fingerprint r, fj_Target = target r, fj_Check = check r, fj_Title = title r,
      fj_Severity = severity r, fj_Status = status r, fj_Remediation = remediation r,
      fj_Evidence = evidence r, fj_FirstSeen = firstSeen r, fj_LastSeen = lastSeen r\<rparr>"

definition handleFindings :: "('o, 'e) env \<Rightarrow> ('w, 'o) server \<Rightarrow> 'w web \<Rightarrow> response \<times> 'w web" where
  "handleFindings E sv s =
     (case sql_ListAll (module_ID (sv_Module sv)) (web_db s) of
        (Inl e, d) \<Rightarrow> (httpError 500 ''store error'', s\<lparr>web_db := d\<rparr>)
      | (Inr rs, d) \<Rightarrow>
          (writeJSON (FindingsBody
             (map (\<lambda>p. finding_row (snd p))
                (filter (\<lambda>p. \<not> hidden (env_clock E (fst p)) (snd p)) (enumerate 0 rs)))),
           s\<lparr>web_db := d\<rparr>))"

text \<open>\<open>format\<close> is the query parameter; a finding whose event cannot be written is skipped.\<close>

definition export_lines :: "('o, 'e) env \<Rightarrow> hfs_meta \<Rightarrow> 'o \<Rightarrow> frec list \<Rightarrow> gostring list" where
  "export_lines E meta ev rs =
     (let now = env_clock E 0 in
      List.map_filter
        (\<lambda>r. if hidden now r then None
             else map_option (\<lambda>line. line @ [mkbyte 10])
                    (env_hfs_marshal E (env_hfs_new E ''snapshot'' meta (Source (finding_of r)) now ev))) rs)"

definition handleFindingsExport ::
  "('o, 'e) env \<Rightarrow> ('w, 'o) server \<Rightarrow> gostring \<Rightarrow> 'w web \<Rightarrow> response \<times> 'w web" where
  "handleFindingsExport E sv format s =
     (if format \<noteq> [] \<and> format \<noteq> ''hfs'' then (httpError 400 ''format must be hfs'', s)
      else case sql_ListAll (module_ID (sv_Module sv)) (web_db s) of
             (Inl e, d) \<Rightarrow> (httpError 500 ''store error'', s\<lparr>web_db := d\<rparr>)
           | (Inr rs, d) \<Rightarrow>
               (let meta = sv_ExportMeta sv;
                    meta = (if m_Product meta = []
                            then meta\<lparr>m_Product := module_ID (sv_Module sv),
                                      m_Version := module_Version (sv_Module sv)\<rparr>
                            else meta)
                in (writeJSON (ExportBody (export_lines E meta (sv_ExportEvidence sv) rs)),
                    s\<lparr>web_db := d\<rparr>)))"

subsection \<open>Findings and targets\<close>

definition handleFindingStatus ::
  "('w, 'o) server \<Rightarrow> (gostring \<times> gostring) option \<Rightarrow> 'w web \<Rightarrow> response \<times> 'w web" where
  "handleFindingStatus sv req s =
     (case req of
        None \<Rightarrow> (httpError 400 ''invalid JSON'', s)
      | Some (fp, next_status) \<Rightarrow>
          if next_status \<notin> {StatusAcknowledged, StatusSuppressed, StatusOpen} then
            (httpError 400 ''status must be acknowledged, suppressed, or open'', s)
          else
            (case sql_Get (module_ID (sv_Module sv)) fp (web_db s) of
               (Inr (Some r), d) \<Rightarrow>
                 (case sql_Upsert (r\<lparr>status := next_status\<rparr>) d of
                    (Some e, d) \<Rightarrow> (httpError 500 ''store error'', s\<lparr>web_db := d\<rparr>)
                  | (None, d) \<Rightarrow> (writeJSON OkBody, s\<lparr>web_db := d\<rparr>))
             | (_, d) \<Rightarrow> (httpError 404 ''finding not found'', s\<lparr>web_db := d\<rparr>)))"

definition handleListTargets :: "('w, 'o) server \<Rightarrow> 'w web \<Rightarrow> response \<times> 'w web" where
  "handleListTargets sv s =
     (writeJSON (TargetsBody (map (\<lambda>t. (Raw t, Canonical t)) (ListTargets (module_ID (sv_Module sv)) (web_sched s)))), s)"

definition target_limit_text :: gostring where
  "target_limit_text =
     ''target limit reached for your tier '' @ ai_dash
       @ '' Pro and Team: https://whop.com/nizar-tuanku/attack-surface-monitor?utm_source=app''"

definition scan_now_text :: gostring where
  "scan_now_text =
     ''on-demand scans are a Pro feature '' @ ai_dash
       @ '' scheduled scans continue as normal. Pro and Team: https://whop.com/nizar-tuanku/attack-surface-monitor?utm_source=app''"

text \<open>The last component lists the scans the scheduler starts.\<close>

definition handleAddTarget ::
  "('w, 'o) server \<Rightarrow> gostring option \<Rightarrow> 'w web \<Rightarrow> response \<times> 'w web \<times> (gostring \<times> scan_target) list" where
  "handleAddTarget sv req s =
     (case req of
        None \<Rightarrow> (httpError 400 ''invalid JSON'', s, [])
      | Some raw \<Rightarrow>
          (let m = module_ID (sv_Module sv); current = int (length (ListTargets m (web_sched s))) in
           if \<not> canAdd (effLimits sv s) current then (httpError 402 target_limit_text, s, [])
           else
             (case AddTarget m raw (web_sched s) (web_world s) of
                (Inl e, sc, w, js) \<Rightarrow>
                  (httpError 400 e, s\<lparr>web_sched := sc, web_world := w\<rparr>, js)
              | (Inr t, sc, w, js) \<Rightarrow>
                  (let s = s\<lparr>web_sched := sc, web_world := w\<rparr> in
                   if \<not> sv_Targets sv then (writeJSON (CanonicalBody (Canonical t)), s, js)
                   else
                     (case sql_SaveTarget m (Raw t) (Canonical t) (web_db s) of
                        (Some e, d) \<Rightarrow>
                          (httpError 500 ''target added but could not be persisted'', s\<lparr>web_db := d\<rparr>, js)
                      | (None, d) \<Rightarrow>
                          (writeJSON (CanonicalBody (Canonical t)), s\<lparr>web_db := d\<rparr>, js))))))"

definition handleRemoveTarget ::
  "('w, 'o) server \<Rightarrow> gostring \<Rightarrow> 'w web \<Rightarrow> response \<times> 'w web" where
  "handleRemoveTarget sv canonical s =
     (let m = module_ID (sv_Module sv) in
      if canonical = [] then (httpError 400 ''canonical query parameter required'', s)
      else
        (let s = s\<lparr>web_sched := RemoveTarget m canonical (web_sched s)\<rparr>;
             s = (if sv_Targets sv
                  then s\<lparr>web_db := snd (sql_DeleteTarget m canonical (web_db s))\<rparr> else s)
         in (writeJSON OkBody, s)))"

definition handleScanNow ::
  "('o, 'e) env \<Rightarrow> ('w, 'o) server \<Rightarrow> 'w web \<Rightarrow> response \<times> (gostring \<times> scan_target) list" where
  "handleScanNow E sv s =
     (if \<not> ScanNow_allowed (effLimits sv s) then (httpError 402 scan_now_text, [])
      else case ScanNow (env_ctx E 0) (module_ID (sv_Module sv)) (web_sched s) of
             (Some e, js) \<Rightarrow> (httpError 500 e, js)
           | (None, js) \<Rightarrow> (writeJSON OkBody, js))"

subsection \<open>Licensing\<close>

definition handleGetLicense :: "'w web \<Rightarrow> response" where
  "handleGetLicense s =
     (let act = web_activation s in
      writeJSON (LicenseBody (act_Tier act) (Notice act)
        (map_option (\<lambda>l. (Email l, ExpiresAt l)) (act_License act))))"

definition handleSetLicense ::
  "('o, 'e) env \<Rightarrow> ('w, 'o) server \<Rightarrow> gostring option \<Rightarrow> 'w web \<Rightarrow> response \<times> 'w web" where
  "handleSetLicense E sv req s =
     (case req of
        None \<Rightarrow> (httpError 400 ''invalid JSON'', s)
      | Some k \<Rightarrow>
          (let key = TrimSpace k;
               act = Activate (env_license E) (sv_IssuerPub sv) (module_ID (sv_Module sv)) key (env_clock E 0)
           in if act_Tier act = TierFree \<and> key \<noteq> [] then (httpError 400 (Notice act), s)
              else if sv_LicenseFile sv \<noteq> [] then
                (case env_write E (key @ [mkbyte 10]) of
                   (Some e, file) \<Rightarrow>
                     (httpError 500 ''could not persist license key'', s\<lparr>web_file := file\<rparr>)
                 | (None, file) \<Rightarrow>
                     (writeJSON (TierBody (act_Tier act)), s\<lparr>web_file := file, web_activation := act\<rparr>))
              else (writeJSON (TierBody (act_Tier act)), s\<lparr>web_activation := act\<rparr>)))"

end
