(* ===== verification/WebAssist.thy ===== *)
theory WebAssist
  imports WebServer
begin

section \<open>AI Assist and the router (\<open>web/ai.go\<close>, \<open>Handler\<close> of \<open>web/server.go\<close>)\<close>

text \<open>
  The optional narration of a stored finding, and the dispatch of a request to its handler.
\<close>

subsection \<open>Configuration\<close>

record ai_config =
  cfg_URL :: gostring
  cfg_KeyFile :: gostring
  cfg_Language :: gostring
  cfg_NoThinking :: bool

text \<open>\<open>url_parse\<close> gives scheme and host of a URL, \<open>read_file\<close> the content of a file.\<close>

definition NewAIAssist ::
  "(gostring \<Rightarrow> (gostring \<times> gostring) option) \<Rightarrow> (gostring \<Rightarrow> goerror + gostring) \<Rightarrow> ai_config \<Rightarrow>
   goerror + ai_assist option" where
  "NewAIAssist url_parse read_file conf =
     (let raw = TrimSpace (cfg_URL conf) in
      if raw = [] then Inr None
      else if (case url_parse raw of
                 None \<Rightarrow> True
               | Some (scheme, host) \<Rightarrow> (scheme \<noteq> ''http'' \<and> scheme \<noteq> ''https'') \<or> host = [])
      then Inl (''ai-assist-url must be an http(s) base URL such as http://127.0.0.1:8435, got '' @ go_quote raw)
      else
        (let opts = [WithTimeout (120 * second), WithMaxRetries 0, WithMaxTokens 300];
             endpoint = TrimRight raw ''/'';
             thinking = (if cfg_NoThinking conf then [WithDisableThinking] else []);
             assist = (\<lambda>keyed opts.
               \<lparr>assist_Client = Some (ai_New endpoint (opts @ thinking)), assist_Endpoint = endpoint,
                assist_Keyed = keyed, assist_Language = NormalizeLanguage (cfg_Language conf)\<rparr>)
         in if cfg_KeyFile conf = [] then Inr (Some (assist False opts))
            else
              (case read_file (cfg_KeyFile conf) of
                 Inl e \<Rightarrow> Inl (''read ai-assist-key-file: '' @ e)
               | Inr b \<Rightarrow>
                   (let key = TrimSpace b in
                    if key = [] then Inl (''ai-assist-key-file '' @ cfg_KeyFile conf @ '' is empty'')
                    else Inr (Some (assist True (opts @ [WithAPIKey key])))))))"

lemma NewAIAssist_client:
  assumes "NewAIAssist url_parse read_file conf = Inr (Some a)"
  shows "\<exists>c. assist_Client a = Some c \<and> client_ok c \<and> maxRetries c = 0"
proof -
  define opts where "opts = [WithTimeout (120 * second), WithMaxRetries 0, WithMaxTokens 300]"
  define rest where "rest = (if cfg_NoThinking conf then [WithDisableThinking] else [])"
  obtain key where key: "set key \<subseteq> range WithAPIKey"
    and a: "assist_Client a = Some (ai_New (TrimRight (TrimSpace (cfg_URL conf)) ''/'') ((opts @ key) @ rest))"
  proof (cases "cfg_KeyFile conf = []")
    case True
    with assms show ?thesis
      by (intro that [of "[]"]) (auto simp: NewAIAssist_def Let_def opts_def rest_def split: if_splits)
  next
    case False
    then obtain b where "read_file (cfg_KeyFile conf) = Inr b"
      using assms by (auto simp: NewAIAssist_def Let_def split: if_splits sum.splits)
    with assms False show ?thesis
      by (intro that [of "[WithAPIKey (TrimSpace b)]"])
        (auto simp: NewAIAssist_def Let_def opts_def rest_def split: if_splits)
  qed
  have option_cases: "opt \<in> {WithTimeout (120 * second), WithMaxRetries 0, WithMaxTokens 300, WithDisableThinking}
      \<union> range WithAPIKey" if "opt \<in> set ((opts @ key) @ rest)" for opt
    using that key by (auto simp: opts_def rest_def split: if_splits)
  have "client_ok (ai_New url ((opts @ key) @ rest))" for url
    by (rule client_ok_New) (use option_cases client_ok_options in fastforce)
  moreover have "maxRetries (ai_New url ((opts @ key) @ rest)) = 0" for url
  proof -
    have keep: "maxRetries (fold (\<lambda>opt c. opt c) os c) = maxRetries c"
      if "set os \<subseteq> insert WithDisableThinking (range WithAPIKey)" for os and c :: ai_client
      using that by (induction os arbitrary: c) (auto simp: WithDisableThinking_def WithAPIKey_def)
    have "set (key @ rest) \<subseteq> insert WithDisableThinking (range WithAPIKey)"
      using key by (auto simp: rest_def)
    from keep [OF this] show ?thesis
      by (simp add: ai_New_def Let_def opts_def WithMaxTokens_def WithMaxRetries_def WithTimeout_def)
  qed
  ultimately show ?thesis using a by blast
qed

subsection \<open>The handlers\<close>

definition ai_off_text :: gostring where
  "ai_off_text = ''AI Assist is off. Start with -ai-assist-url to enable it.''"

definition ai_tier_text :: gostring where
  "ai_tier_text =
     ''A dedicated AI host or your own endpoint (API key) needs a Pro or Team licence. The free edition works with a hexward-ai sidecar on the same host.''"

text \<open>The client to use, or the sentence the dashboard shows instead of the button.\<close>

definition aiAllowed :: "('w, 'o) server \<Rightarrow> 'w web \<Rightarrow> gostring + (ai_assist \<times> ai_client)" where
  "aiAllowed sv s =
     (case sv_AI sv of
        None \<Rightarrow> Inl ai_off_text
      | Some a \<Rightarrow>
          (case assist_Client a of
             None \<Rightarrow> Inl ai_off_text
           | Some c \<Rightarrow>
               (let t = act_Tier (web_activation s) in
                if assist_Keyed a \<and> t \<noteq> TierPro \<and> t \<noteq> TierTeam then Inl ai_tier_text else Inr (a, c))))"

definition handleAIStatus :: "('w, 'o) server \<Rightarrow> 'w web \<Rightarrow> response" where
  "handleAIStatus sv s =
     writeJSON (AiStatusBody
       \<lparr>st_Enabled = is_ok (aiAllowed sv s),
        st_Reason = (case aiAllowed sv s of Inl reason \<Rightarrow> reason | Inr _ \<Rightarrow> []),
        st_Language = (case sv_AI sv of None \<Rightarrow> [] | Some a \<Rightarrow> assist_Language a),
        st_Keyed = (case sv_AI sv of None \<Rightarrow> False | Some a \<Rightarrow> assist_Keyed a)\<rparr>)"

definition not_available :: "gostring \<Rightarrow> response" where
  "not_available reason =
     writeJSON (ExplainBody \<lparr>ex_Available = False, ex_Reason = reason, ex_Explanation = [],
                             ex_WhatToVerify = [], ex_Disclaimer = []\<rparr>)"

definition told_finding :: "gostring \<Rightarrow> frec \<Rightarrow> core_finding" where
  "told_finding m r =
     \<lparr>cf_Fingerprint = fingerprint r, cf_Module = m, cf_Check = check r, cf_Title = title r,
      cf_Target = target r, cf_Severity = severity r, cf_Status = status r,
      cf_Remediation = remediation r, cf_Evidence = evidence r\<rparr>"

text \<open>
  The handler from the check of \<open>aiAllowed\<close> on, once the finding is found, and the whole handler. The
  last component counts the attempts made at the model, each at most one request.
\<close>

definition narrate :: "('o, 'e) env \<Rightarrow> ('w, 'o) server \<Rightarrow> 'w web \<Rightarrow> frec \<Rightarrow> response \<times> nat" where
  "narrate E sv s f =
     (case aiAllowed sv s of
        Inl reason \<Rightarrow> (not_available reason, 0)
      | Inr (a, c) \<Rightarrow>
          (case NewFindingPacket (module_ID (sv_Module sv)) (assist_Language a)
                  (told_finding (module_ID (sv_Module sv)) f) of
             Inl e \<Rightarrow> (not_available ''This finding has no title or severity to explain.'', 0)
           | Inr packet \<Rightarrow>
               (case Explain (env_ai E) (env_ctx E) c packet of
                  (Inl e, n, _) \<Rightarrow>
                    (not_available ''The AI Assist sidecar did not answer. The finding is unaffected.'', n)
                | (Inr x, n, _) \<Rightarrow>
                    (writeJSON (ExplainBody
                       \<lparr>ex_Available = True, ex_Reason = [], ex_Explanation = ExplanationText x,
                        ex_WhatToVerify = WhatToVerify x, ex_Disclaimer = Disclaimer x\<rparr>), n))))"

definition handleExplainFinding ::
  "('o, 'e) env \<Rightarrow> ('w, 'o) server \<Rightarrow> gostring option \<Rightarrow> 'w web \<Rightarrow> response \<times> 'w web \<times> nat" where
  "handleExplainFinding E sv req s =
     (case req of
        None \<Rightarrow> (httpError 400 ''fingerprint is required'', s, 0)
      | Some fp \<Rightarrow>
          if TrimSpace fp = [] then (httpError 400 ''fingerprint is required'', s, 0)
          else
            (case sql_Get (module_ID (sv_Module sv)) fp (web_db s) of
               (Inl e, d) \<Rightarrow> (httpError 500 ''store error'', s\<lparr>web_db := d\<rparr>, 0)
             | (Inr None, d) \<Rightarrow> (httpError 404 ''no such finding'', s\<lparr>web_db := d\<rparr>, 0)
             | (Inr (Some f), d) \<Rightarrow>
                 (let s = s\<lparr>web_db := d\<rparr>; (r, n) = narrate E sv s f in (r, s, n))))"

subsection \<open>The router\<close>

datatype request =
    GetSummary | GetFindings | GetExport gostring | PostStatus "(gostring \<times> gostring) option"
  | GetTargets | PostTarget "gostring option" | DeleteTarget gostring | PostScan
  | GetLicense | PostLicense "gostring option" | GetVerification
  | GetAI | PostExplain "gostring option"

text \<open>The pages of the embedded interface, which read nothing of the state, are left out.\<close>

definition Handler ::
  "('o, 'e) env \<Rightarrow> ('w, 'o) server \<Rightarrow> request \<Rightarrow> 'w web \<Rightarrow>
   response \<times> 'w web \<times> (gostring \<times> scan_target) list" where
  "Handler E sv q s =
     (let no_scan = (\<lambda>(r, s). (r, s, [])) in
      case q of
        GetSummary \<Rightarrow> no_scan (handleSummary sv s)
      | GetFindings \<Rightarrow> no_scan (handleFindings E sv s)
      | GetExport f \<Rightarrow> no_scan (handleFindingsExport E sv f s)
      | PostStatus b \<Rightarrow> no_scan (handleFindingStatus sv b s)
      | GetTargets \<Rightarrow> no_scan (handleListTargets sv s)
      | PostTarget b \<Rightarrow> handleAddTarget sv b s
      | DeleteTarget c \<Rightarrow> no_scan (handleRemoveTarget sv c s)
      | PostScan \<Rightarrow> (let (r, js) = handleScanNow E sv s in (r, s, js))
      | GetLicense \<Rightarrow> (handleGetLicense s, s, [])
      | PostLicense b \<Rightarrow> no_scan (handleSetLicense E sv b s)
      | GetVerification \<Rightarrow> no_scan (handleVerification sv s)
      | GetAI \<Rightarrow> (handleAIStatus sv s, s, [])
      | PostExplain b \<Rightarrow> (let (r, s, n) = handleExplainFinding E sv b s in (r, s, [])))"

end
