(* ===== verification/WebProperties.thy ===== *)
theory WebProperties
  imports WebAssist ReconcileSqlite
begin

section \<open>What the dashboard guarantees\<close>

text \<open>
  Properties of the handlers together, over one request or any sequence of them: who may change a
  finding, when the number of targets can grow, and that the saved targets follow the registered
  ones. The store's facts come from the interpretations of \<open>finding_store\<close> and \<open>target_store\<close> on the database.
\<close>

subsection \<open>What a statement leaves of the tables\<close>

text \<open>A statement that reads: the tables are the same, and so is the absence of faults.\<close>

definition only_read :: "sqldb \<Rightarrow> sqldb \<Rightarrow> bool" where
  "only_read d d' \<longleftrightarrow> findings d' = findings d \<and> targets d' = targets d \<and> (faults d = [] \<longrightarrow> faults d' = [])"

lemma only_read_refl [simp]: "only_read d d"
  by (simp add: only_read_def)

lemma only_read_exec: "exec d = (x, d') \<Longrightarrow> only_read d d'"
  by (auto simp: only_read_def exec_def split: list.splits)

lemma only_read_query: "query P arrange d = (x, d') \<Longrightarrow> only_read d d'"
  by (auto simp: query_def intro: only_read_exec split: prod.splits option.splits)

lemma only_read_lists:
  "sql_ListOpen m d = (x, d') \<Longrightarrow> only_read d d'" "sql_ListAll m d = (x, d') \<Longrightarrow> only_read d d'"
  by (simp_all add: sql_ListOpen_def sql_ListAll_def only_read_query)

lemma only_read_Get: "sql_Get m fp d = (x, d') \<Longrightarrow> only_read d d'"
  by (auto simp: sql_Get_def intro: only_read_exec split: prod.splits option.splits)

lemma Upsert_targets:
  "sql_Upsert r d = (x, d') \<Longrightarrow> targets d' = targets d \<and> (faults d = [] \<longrightarrow> faults d' = [])"
  by (auto simp: sql_Upsert_def Let_def only_read_def dest!: only_read_exec
      split: sum.splits prod.splits option.splits if_splits)

lemma SaveTarget_findings:
  "sql_SaveTarget m raw c d = (x, d') \<Longrightarrow> findings d' = findings d \<and> (faults d = [] \<longrightarrow> faults d' = [])"
  by (auto simp: sql_SaveTarget_def only_read_def dest!: only_read_exec
      split: prod.splits option.splits if_splits)

lemma DeleteTarget_findings:
  "sql_DeleteTarget m c d = (x, d') \<Longrightarrow> findings d' = findings d \<and> (faults d = [] \<longrightarrow> faults d' = [])"
  by (auto simp: sql_DeleteTarget_def only_read_def dest!: only_read_exec split: prod.splits option.splits)

lemma targets_good_statements:
  assumes "sql_targets_good d"
  shows "sql_targets_good (snd (sql_SaveTarget m raw c d))" "sql_targets_good (snd (sql_DeleteTarget m c d))"
proof -
  have same: "sql_targets_good d'" if "targets d' = targets d" for d'
    using that assms by (simp add: sql_targets_good_def sql_targets_of_def)
  obtain x d' where save: "sql_SaveTarget m raw c d = (x, d')" by (cases "sql_SaveTarget m raw c d")
  show "sql_targets_good (snd (sql_SaveTarget m raw c d))"
  proof (cases x)
    case None
    then show ?thesis using save sql_t.save_content [OF assms] by auto
  next
    case (Some e)
    then have "targets d' = targets d"
      using save by (auto simp: sql_SaveTarget_def dest: exec_tables split: prod.splits option.splits if_splits)
    then show ?thesis using save same by simp
  qed
  obtain y d'' where del: "sql_DeleteTarget m c d = (y, d'')" by (cases "sql_DeleteTarget m c d")
  show "sql_targets_good (snd (sql_DeleteTarget m c d))"
  proof (cases y)
    case None
    then show ?thesis using del sql_t.delete_content [OF assms] by auto
  next
    case (Some e)
    then have "targets d'' = targets d"
      using del by (auto simp: sql_DeleteTarget_def dest: exec_tables split: prod.splits option.splits)
    then show ?thesis using del same by simp
  qed
qed

text \<open>Without faults a statement on the targets goes through.\<close>

lemma no_faults:
  "faults d = [] \<Longrightarrow> exec d = (None, d)"
  by (simp add: exec_def)

lemma targets_statement_succeeds:
  "faults d = [] \<Longrightarrow> fst (sql_SaveTarget m raw c d) = None"
  "faults d = [] \<Longrightarrow> fst (sql_DeleteTarget m c d) = None"
  by (simp_all add: sql_SaveTarget_def sql_DeleteTarget_def no_faults)

text \<open>All the handlers that only read the database, and what they leave of the rest.\<close>

definition same_but_db :: "'w web \<Rightarrow> 'w web \<Rightarrow> bool" where
  "same_but_db s s' \<longleftrightarrow> only_read (web_db s) (web_db s') \<and> web_sched s' = web_sched s
     \<and> web_activation s' = web_activation s \<and> web_file s' = web_file s"

lemma reading_handlers:
  "handleSummary sv s = (r, s') \<Longrightarrow> same_but_db s s'"
  "handleVerification sv s = (r, s') \<Longrightarrow> same_but_db s s'"
  "handleFindings E sv s = (r, s') \<Longrightarrow> same_but_db s s'"
  "handleFindingsExport E sv f s = (r, s') \<Longrightarrow> same_but_db s s'"
  "handleExplainFinding E sv q s = (r, s', n) \<Longrightarrow> same_but_db s s'"
proof -
  show "handleSummary sv s = (r, s') \<Longrightarrow> same_but_db s s'"
    by (auto simp: handleSummary_def same_but_db_def Let_def dest: only_read_lists split: prod.splits sum.splits)
  show "handleVerification sv s = (r, s') \<Longrightarrow> same_but_db s s'"
    by (auto simp: handleVerification_def same_but_db_def split: option.splits prod.splits sum.splits)
  show "handleFindings E sv s = (r, s') \<Longrightarrow> same_but_db s s'"
    by (auto simp: handleFindings_def same_but_db_def dest: only_read_lists split: prod.splits sum.splits)
  show "handleFindingsExport E sv f s = (r, s') \<Longrightarrow> same_but_db s s'"
    by (auto simp: handleFindingsExport_def same_but_db_def Let_def dest: only_read_lists
        split: prod.splits sum.splits if_splits)
  show "handleExplainFinding E sv q s = (r, s', n) \<Longrightarrow> same_but_db s s'"
    by (auto simp: handleExplainFinding_def same_but_db_def Let_def dest: only_read_Get
        split: prod.splits sum.splits if_splits option.splits list.splits)
qed


lemma Handler_cases:
  assumes "Handler E sv q s = (r, s', js)"
  obtains (reads) "same_but_db s s'"
    | (status) b where "q = PostStatus b" "handleFindingStatus sv b s = (r, s')"
    | (add) b where "q = PostTarget b" "handleAddTarget sv b s = (r, s', js)"
    | (remove) c where "q = DeleteTarget c" "handleRemoveTarget sv c s = (r, s')"
    | (license) b where "q = PostLicense b" "handleSetLicense E sv b s = (r, s')"
proof (cases q)
  case (PostExplain b)
  then obtain n where "handleExplainFinding E sv b s = (r, s', n)"
    using assms by (auto simp: Handler_def split: prod.splits)
  then show thesis using reads reading_handlers(5) by blast
qed (use assms reads status add remove license in
      \<open>auto simp: Handler_def handleListTargets_def same_but_db_def Let_def
        dest: reading_handlers(1-4) split: prod.splits\<close>)

subsection \<open>Findings\<close>

lemma status_update:
  assumes good: "sql_good (web_db s)" and run: "handleFindingStatus sv (Some (fp, st)) s = (r, s')"
    and ok: "http_code r = 200"
  shows "\<exists>f. sql_lookup (web_db s) (module_ID (sv_Module sv), fp) = Some f
    \<and> st \<in> {StatusAcknowledged, StatusSuppressed, StatusOpen}
    \<and> sql_lookup (web_db s') =
        (sql_lookup (web_db s))((module_ID (sv_Module sv), fp) \<mapsto> f\<lparr>status := st\<rparr>)"
proof -
  let ?m = "module_ID (sv_Module sv)"
  obtain f d d' where st: "st \<in> {StatusAcknowledged, StatusSuppressed, StatusOpen}"
    and get: "sql_Get ?m fp (web_db s) = (Inr (Some f), d)"
    and up: "sql_Upsert (f\<lparr>status := st\<rparr>) d = (None, d')" and s': "web_db s' = d'"
    using run ok
    by (auto simp: handleFindingStatus_def Let_def split: prod.splits sum.splits option.splits if_splits)
  from sql.get_ok [OF good _ get] have look: "sql_lookup (web_db s) (?m, fp) = Some f"
    and good': "sql_good d" and same: "sql_lookup d = sql_lookup (web_db s)" by auto
  have key: "rkey f = (?m, fp)" using sql.lookup_key [OF good _ look] by simp
  then have key': "rkey (f\<lparr>status := st\<rparr>) = (?m, fp)" by (simp add: rkey_def)
  have "same_identity (f\<lparr>status := st\<rparr>) g" if "sql_lookup d (rkey (f\<lparr>status := st\<rparr>)) = Some g" for g
    using that look unfolding key' same by (simp add: same_identity_def)
  then obtain ev where ev: "sql_keep (evidence (f\<lparr>status := st\<rparr>)) = Some ev"
    and after: "\<And>m fp'. sql_lookup d' (m, fp') =
      (if (m, fp') = (?m, fp) then Some (f\<lparr>status := st\<rparr>\<lparr>evidence := ev\<rparr>) else sql_lookup d (m, fp'))"
    using sql.upsert_lookup [OF good' _ up] unfolding key' by auto
  have "ev = evidence f" using ev sql.lookup_kept [OF good _ look] by simp
  with after have "sql_lookup d' = (sql_lookup (web_db s))((?m, fp) \<mapsto> f\<lparr>status := st\<rparr>)"
    by (auto simp: fun_eq_iff same)
  with look st s' show ?thesis by blast
qed

lemma status_refused:
  assumes "handleFindingStatus sv b s = (r, s')" "http_code r \<noteq> 200"
  shows "findings (web_db s') = findings (web_db s)"
  using assms
  by (auto simp: handleFindingStatus_def only_read_def dest!: only_read_Get sql_Upsert_Some
      split: option.splits prod.splits sum.splits if_splits)

lemma status_good:
  assumes "sql_good (web_db s)" "handleFindingStatus sv b s = (r, s')"
  shows "sql_good (web_db s')"
proof -
  have get: "sql_good d" if "sql_Get m fp (web_db s) = (x, d)" for m fp x d
    using only_read_Get [OF that] assms(1) by (simp add: only_read_def sql_good_def)
  show ?thesis
    using assms
    by (auto simp: handleFindingStatus_def dest!: get intro: sql_good_Upsert
        split: option.splits prod.splits sum.splits if_splits)
qed

lemma other_requests_keep_findings:
  assumes "Handler E sv q s = (r, s', js)" "\<And>b. q \<noteq> PostStatus b"
  shows "findings (web_db s') = findings (web_db s)"
  using assms(1)
proof (cases rule: Handler_cases)
  case reads
  then show ?thesis by (simp add: same_but_db_def only_read_def)
next
  case (status b)
  with assms(2) [of b] show ?thesis by blast
next
  case (add b)
  then show ?thesis
    by (auto simp: handleAddTarget_def Let_def dest: SaveTarget_findings
        split: option.splits if_splits prod.splits sum.splits)
next
  case (remove c)
  then show ?thesis
    by (cases "sql_DeleteTarget (module_ID (sv_Module sv)) c (web_db s)")
      (auto simp: handleRemoveTarget_def Let_def dest: DeleteTarget_findings split: if_splits)
next
  case (license b)
  then show ?thesis
    by (auto simp: handleSetLicense_def Let_def split: option.splits if_splits prod.splits)
qed

text \<open>
  (C4) The only request that changes a finding is an accepted status change, and it changes the
  status of that one finding and nothing else: not its severity, title, evidence or times, and no
  other finding. In particular asking for a narration, adding or removing a target, or entering a
  license key leaves every finding as it was, and so does every refused request. The scans that a
  request asks for are returned with the answer and are the scheduler's to run; what they do to the
  findings is the subject of the properties of the reconcile engine.
\<close>

theorem findings_changed_only_by_status:
  assumes "sql_good (web_db s)" "Handler E sv q s = (r, s', js)"
  shows "sql_good (web_db s')
    \<and> (sql_lookup (web_db s') = sql_lookup (web_db s)
       \<or> (\<exists>fp st f. q = PostStatus (Some (fp, st)) \<and> http_code r = 200
            \<and> st \<in> {StatusAcknowledged, StatusSuppressed, StatusOpen}
            \<and> sql_lookup (web_db s) (module_ID (sv_Module sv), fp) = Some f
            \<and> sql_lookup (web_db s') =
                (sql_lookup (web_db s))((module_ID (sv_Module sv), fp) \<mapsto> f\<lparr>status := st\<rparr>)))"
proof (cases "\<exists>b. q = PostStatus b")
  case True
  then obtain b where q: "q = PostStatus b" by blast
  with assms(2) have run: "handleFindingStatus sv b s = (r, s')"
    by (auto simp: Handler_def split: prod.splits)
  show ?thesis
  proof (cases "http_code r = 200")
    case True
    then obtain fp st where b: "b = Some (fp, st)"
      using run by (cases b) (auto simp: handleFindingStatus_def)
    from status_update [OF assms(1) run [unfolded b] True] status_good [OF assms(1) run] q b True
    show ?thesis by blast
  next
    case False
    from status_refused [OF run False] show ?thesis
      using status_good [OF assms(1) run] sql_lookup_tables by blast
  qed
next
  case False
  then have "findings (web_db s') = findings (web_db s)"
    using other_requests_keep_findings [OF assms(2)] by blast
  then show ?thesis using assms(1) sql_good_tables sql_lookup_tables by blast
qed


subsection \<open>Targets\<close>

definition target_count :: "('w, 'o) server \<Rightarrow> 'w web \<Rightarrow> nat" where
  "target_count sv s = length (ListTargets (module_ID (sv_Module sv)) (web_sched s))"

text \<open>The system's invariants: the registry's, the two tables', and a usable module id.\<close>

definition web_ok :: "'w web \<Rightarrow> bool" where
  "web_ok s \<longleftrightarrow> sched_ok (web_sched s) \<and> sql_good (web_db s) \<and> sql_targets_good (web_db s)"

lemma target_count_card:
  "sched_ok (web_sched s) \<Longrightarrow>
     target_count sv s = card (dom (registered (web_sched s) (module_ID (sv_Module sv))))"
proof -
  let ?m = "module_ID (sv_Module sv)"
  assume ok: "sched_ok (web_sched s)"
  show ?thesis
  proof (cases "map_of (modules (web_sched s)) ?m")
    case None
    then show ?thesis by (simp add: target_count_def ListTargets_def registered_def)
  next
    case (Some reg)
    then have "distinct (map fst (reg_targets reg))"
      using sched_ok_lookup [OF ok] by (auto simp: registration_ok_def)
    then have "card (fst ` set (reg_targets reg)) = length (reg_targets reg)"
      by (metis distinct_card length_map list.set_map)
    with Some show ?thesis
      by (simp add: target_count_def ListTargets_def registered_def snapshotTargets_def dom_map_of_conv_image_fst)
  qed
qed

text \<open>What an accepted and what a refused target do to registry and saved targets.\<close>

lemma add_target_effect:
  assumes "handleAddTarget sv b s = (r, s', js)"
  shows "(web_sched s' = web_sched s \<and> web_db s' = web_db s)
    \<or> (\<exists>raw t. b = Some raw \<and> canAdd (effLimits sv s) (int (target_count sv s))
        \<and> registered (web_sched s') = (registered (web_sched s))(module_ID (sv_Module sv) :=
              (registered (web_sched s) (module_ID (sv_Module sv)))(Canonical t \<mapsto> t))
        \<and> web_db s' = (if sv_Targets sv
              then snd (sql_SaveTarget (module_ID (sv_Module sv)) (Raw t) (Canonical t) (web_db s)) else web_db s)
        \<and> (\<exists>w w' js'. AddTarget (module_ID (sv_Module sv)) raw (web_sched s) w = (Inr t, web_sched s', w', js')))"
proof (cases b)
  case None
  with assms show ?thesis by (simp add: handleAddTarget_def)
next
  case (Some raw)
  let ?m = "module_ID (sv_Module sv)"
  obtain res sc w js' where run: "AddTarget ?m raw (web_sched s) (web_world s) = (res, sc, w, js')"
    by (cases "AddTarget ?m raw (web_sched s) (web_world s)") auto
  show ?thesis
  proof (cases "canAdd (effLimits sv s) (int (target_count sv s))")
    case False
    then show ?thesis using assms Some by (simp add: handleAddTarget_def target_count_def Let_def)
  next
    case True
    show ?thesis
    proof (cases res)
      case (Inl e)
      then have "sc = web_sched s"
        using run by (auto simp: AddTarget_def split: option.splits prod.splits sum.splits)
      then show ?thesis using assms Some True run Inl
        by (auto simp: handleAddTarget_def target_count_def Let_def)
    next
      case (Inr t)
      obtain x d where save: "sql_SaveTarget ?m (Raw t) (Canonical t) (web_db s) = (x, d)"
        by (cases "sql_SaveTarget ?m (Raw t) (Canonical t) (web_db s)")
      have s': "web_sched s' = sc" "web_db s' = (if sv_Targets sv then d else web_db s)"
        using assms Some True run Inr save
        by (auto simp: handleAddTarget_def target_count_def Let_def split: if_splits option.splits)
      then show ?thesis using registered_AddTarget [OF run] True Some Inr save run by auto
    qed
  qed
qed

lemma add_target_cases:
  assumes "handleAddTarget sv b s = (r, s', js)"
  obtains (refused) "web_sched s' = web_sched s" "web_db s' = web_db s"
    | (accepted) raw t w w' js' where "b = Some raw" "canAdd (effLimits sv s) (int (target_count sv s))"
        "registered (web_sched s') = (registered (web_sched s))(module_ID (sv_Module sv) :=
              (registered (web_sched s) (module_ID (sv_Module sv)))(Canonical t \<mapsto> t))"
        "web_db s' = (if sv_Targets sv
              then snd (sql_SaveTarget (module_ID (sv_Module sv)) (Raw t) (Canonical t) (web_db s)) else web_db s)"
        "AddTarget (module_ID (sv_Module sv)) raw (web_sched s) w = (Inr t, web_sched s', w', js')"
  using add_target_effect [OF assms] by blast

lemma Handler_keeps_web_ok:
  assumes ok: "web_ok s" and run: "Handler E sv q s = (r, s', js)"
  shows "web_ok s'"
proof -
  have good: "sql_good (web_db s')"
  proof (cases "\<exists>b. q = PostStatus b")
    case True
    then show ?thesis
      using ok run status_good by (auto simp: Handler_def web_ok_def split: prod.splits)
  next
    case False
    then show ?thesis
      using other_requests_keep_findings [OF run] ok sql_good_tables by (auto simp: web_ok_def)
  qed
  from run show ?thesis
  proof (cases rule: Handler_cases)
    case reads
    then show ?thesis using ok good
      by (simp add: web_ok_def same_but_db_def only_read_def sql_targets_good_def sql_targets_of_def)
  next
    case (status b)
    then have "web_sched s' = web_sched s \<and> targets (web_db s') = targets (web_db s)"
      by (auto simp: handleFindingStatus_def only_read_def dest!: only_read_Get Upsert_targets
          split: option.splits prod.splits sum.splits if_splits)
    then show ?thesis using ok good by (simp add: web_ok_def sql_targets_good_def sql_targets_of_def)
  next
    case (add b)
    from add(2) show ?thesis
    proof (cases rule: add_target_cases)
      case refused
      then show ?thesis using ok by (simp add: web_ok_def)
    next
      case (accepted raw t w w' js')
      have "sched_ok (web_sched s')"
        using ok sched_ok_AddTarget [of "web_sched s" "module_ID (sv_Module sv)" raw w] accepted(5)
        by (simp add: web_ok_def)
      then show ?thesis using good ok accepted(4) targets_good_statements(1) by (simp add: web_ok_def)
    qed
  next
    case (remove c)
    then show ?thesis
      using ok good sched_ok_RemoveTarget targets_good_statements(2)
      by (auto simp: handleRemoveTarget_def Let_def web_ok_def split: if_splits)
  next
    case (license b)
    then have "web_sched s' = web_sched s \<and> web_db s' = web_db s"
      by (auto simp: handleSetLicense_def Let_def split: option.splits if_splits prod.splits)
    then show ?thesis using ok by (simp add: web_ok_def)
  qed
qed


text \<open>How many targets there can be after one request.\<close>

lemma card_dom_upd: "finite (dom f) \<Longrightarrow> card (dom (f(k \<mapsto> v))) \<le> Suc (card (dom f))"
  by (simp add: card_insert_if)

lemma finite_registered: "finite (dom (registered sc m))"
  by (cases "map_of (modules sc) m") (simp_all add: registered_def finite_dom_map_of)

lemma target_count_step:
  assumes ok: "web_ok s" and run: "Handler E sv q s = (r, s', js)"
  shows "target_count sv s' \<le> target_count sv s
    \<or> (target_count sv s' = Suc (target_count sv s) \<and> canAdd (effLimits sv s) (int (target_count sv s))
       \<and> (\<exists>raw. q = PostTarget (Some raw)))"
proof -
  let ?m = "module_ID (sv_Module sv)"
  have before: "target_count sv s = card (dom (registered (web_sched s) ?m))"
    and after: "target_count sv s' = card (dom (registered (web_sched s') ?m))"
    using target_count_card ok Handler_keeps_web_ok [OF ok run] unfolding web_ok_def by blast+
  have same: ?thesis if "web_sched s' = web_sched s" using that by (simp add: target_count_def)
  from run show ?thesis
  proof (cases rule: Handler_cases)
    case reads
    then show ?thesis using same by (simp add: same_but_db_def)
  next
    case (status b)
    then have "web_sched s' = web_sched s"
      by (auto simp: handleFindingStatus_def split: option.splits prod.splits sum.splits if_splits)
    then show ?thesis by (rule same)
  next
    case (add b)
    from add(2) show ?thesis
    proof (cases rule: add_target_cases)
      case refused
      then show ?thesis using same by simp
    next
      case (accepted raw t w w' js')
      have "target_count sv s' \<le> Suc (target_count sv s)"
        unfolding before after accepted(3) fun_upd_same by (rule card_dom_upd [OF finite_registered])
      then show ?thesis using accepted(1,2) add(1) by (auto simp: le_Suc_eq)
    qed
  next
    case (remove c)
    have "dom (registered (RemoveTarget ?m c (web_sched s)) ?m) \<subseteq> dom (registered (web_sched s) ?m)"
      by (auto simp: registered_RemoveTarget)
    then have "card (dom (registered (RemoveTarget ?m c (web_sched s)) ?m)) \<le> card (dom (registered (web_sched s) ?m))"
      by (rule card_mono [OF finite_registered])
    moreover have "web_sched s' \<in> {web_sched s, RemoveTarget ?m c (web_sched s)}"
      using remove(2) by (auto simp: handleRemoveTarget_def Let_def split: if_splits)
    ultimately show ?thesis using before after same by auto
  next
    case (license b)
    then have "web_sched s' = web_sched s"
      by (auto simp: handleSetLicense_def Let_def split: option.splits if_splits prod.splits)
    then show ?thesis by (rule same)
  qed
qed

text \<open>A run of requests, each in its own surroundings.\<close>

fun serve :: "('w, 'o) server \<Rightarrow> (('o, 'e) env \<times> request) list \<Rightarrow> 'w web \<Rightarrow> 'w web" where
  "serve sv [] s = s"
| "serve sv ((E, q) # rest) s = serve sv rest (fst (snd (Handler E sv q s)))"

lemma serve_web_ok: "web_ok s \<Longrightarrow> web_ok (serve sv qs s)"
proof (induction sv qs s rule: serve.induct)
  case (2 sv E q rest s)
  obtain r s' js where "Handler E sv q s = (r, s', js)" by (cases "Handler E sv q s")
  with 2 Handler_keeps_web_ok show ?case by fastforce
qed simp

text \<open>Without an issuer key in the build, every key leaves the free tier.\<close>

lemma keyless_activation:
  "length pub \<noteq> PublicKeySize \<Longrightarrow> act_Tier (Activate L pub product key now) = TierFree"
  by (simp add: Activate_def free_activation_def)

lemma keyless_stays_free:
  assumes "length (sv_IssuerPub sv) \<noteq> PublicKeySize" "act_Tier (web_activation s) = TierFree"
    and "Handler E sv q s = (r, s', js)"
  shows "act_Tier (web_activation s') = TierFree"
  using assms(3)
proof (cases rule: Handler_cases)
  case reads
  then show ?thesis using assms(2) by (simp add: same_but_db_def)
next
  case (status b)
  then show ?thesis using assms(2)
    by (auto simp: handleFindingStatus_def split: option.splits prod.splits sum.splits if_splits)
next
  case (add b)
  then show ?thesis using assms(2)
    by (auto simp: handleAddTarget_def Let_def split: option.splits if_splits prod.splits sum.splits)
next
  case (remove c)
  then show ?thesis using assms(2) by (auto simp: handleRemoveTarget_def Let_def split: if_splits)
next
  case (license b)
  then show ?thesis using assms(2) keyless_activation [OF assms(1)]
    by (auto simp: handleSetLicense_def Let_def split: option.splits if_splits prod.splits)
qed

text \<open>
  The target limit holds. A request can raise the number of targets only by one, only by adding
  a target, and only below the limit in force. So over any sequence of requests to a build without
  an issuer key, whatever keys are entered, targets added and removed, the product never monitors
  more targets than its free tier allows. Requests are served one after the other here.
\<close>

theorem target_limit_enforced:
  assumes "web_ok s" "length (sv_IssuerPub sv) \<noteq> PublicKeySize" "act_Tier (web_activation s) = TierFree"
    and "sv_TierLimits sv = Some table" "map_of table TierFree = Some l" "0 < MaxTargets l"
    and "int (target_count sv s) \<le> MaxTargets l"
  shows "int (target_count sv (serve sv qs s)) \<le> MaxTargets l
    \<and> act_Tier (web_activation (serve sv qs s)) = TierFree"
  using assms
proof (induction sv qs s rule: serve.induct)
  case (2 sv E q rest s)
  obtain r s' js where run: "Handler E sv q s = (r, s', js)" by (cases "Handler E sv q s")
  have "effLimits sv s = l" using 2 by (simp add: effLimits_def)
  with target_count_step [OF _ run] 2(2,7,8) have "int (target_count sv s') \<le> MaxTargets l"
    by (auto simp: canAdd_def)
  with 2 run Handler_keeps_web_ok [OF _ run] keyless_stays_free [OF _ _ run] show ?case by simp
qed simp


text \<open>The saved targets of the module, by canonical form.\<close>

definition saved_canonicals :: "('w, 'o) server \<Rightarrow> 'w web \<Rightarrow> gostring set" where
  "saved_canonicals sv s = snd ` set (sql_targets_of (web_db s) (module_ID (sv_Module sv)))"

definition saved_follows :: "('w, 'o) server \<Rightarrow> 'w web \<Rightarrow> bool" where
  "saved_follows sv s \<longleftrightarrow> faults (web_db s) = []
     \<and> saved_canonicals sv s = dom (registered (web_sched s) (module_ID (sv_Module sv)))"

lemma saved_follows_same:
  assumes "saved_follows sv s" "targets (web_db s') = targets (web_db s)" "faults (web_db s') = []"
    and "web_sched s' = web_sched s"
  shows "saved_follows sv s'"
  using assms by (simp add: saved_follows_def saved_canonicals_def sql_targets_of_def)

lemma saved_follows_add:
  assumes "saved_follows sv s" "sql_targets_good (web_db s)"
    and "web_db s' = snd (sql_SaveTarget (module_ID (sv_Module sv)) (Raw t) c (web_db s))"
    and "registered (web_sched s') (module_ID (sv_Module sv)) =
           (registered (web_sched s) (module_ID (sv_Module sv)))(c \<mapsto> t)"
  shows "saved_follows sv s'"
proof -
  have f: "faults (web_db s) = []" using assms(1) by (simp add: saved_follows_def)
  have run: "sql_SaveTarget (module_ID (sv_Module sv)) (Raw t) c (web_db s) = (None, web_db s')"
    using targets_statement_succeeds(1) [OF f] assms(3) by (simp add: prod_eq_iff)
  from sql_t.save_content [OF assms(2) run] SaveTarget_findings [OF run] f assms(1,4)
  show ?thesis by (auto simp: saved_follows_def saved_canonicals_def)
qed

lemma saved_follows_remove:
  assumes "saved_follows sv s" "sql_targets_good (web_db s)"
    and "web_db s' = snd (sql_DeleteTarget (module_ID (sv_Module sv)) c (web_db s))"
    and "web_sched s' = RemoveTarget (module_ID (sv_Module sv)) c (web_sched s)"
  shows "saved_follows sv s'"
proof -
  have f: "faults (web_db s) = []" using assms(1) by (simp add: saved_follows_def)
  have run: "sql_DeleteTarget (module_ID (sv_Module sv)) c (web_db s) = (None, web_db s')"
    using targets_statement_succeeds(2) [OF f] assms(3) by (simp add: prod_eq_iff)
  have "dom (registered (web_sched s') (module_ID (sv_Module sv))) =
      dom (registered (web_sched s) (module_ID (sv_Module sv))) - {c}"
    unfolding assms(4) registered_RemoveTarget by auto
  moreover have "saved_canonicals sv s' = saved_canonicals sv s - {c}"
    using sql_t.delete_content [OF assms(2) run] by (auto simp: saved_canonicals_def)
  ultimately show ?thesis using DeleteTarget_findings [OF run] f assms(1) by (simp add: saved_follows_def)
qed

lemma saved_follows_step:
  assumes ok: "web_ok s" and saves: "sv_Targets sv" and inv: "saved_follows sv s"
    and run: "Handler E sv q s = (r, s', js)"
  shows "saved_follows sv s'"
proof -
  have good: "sql_targets_good (web_db s)" using ok by (simp add: web_ok_def)
  have f: "faults (web_db s) = []" using inv by (simp add: saved_follows_def)
  from run show ?thesis
  proof (cases rule: Handler_cases)
    case reads
    then show ?thesis using saved_follows_same [OF inv] f by (simp add: same_but_db_def only_read_def)
  next
    case (status b)
    then have "targets (web_db s') = targets (web_db s) \<and> faults (web_db s') = [] \<and> web_sched s' = web_sched s"
      using f by (auto simp: handleFindingStatus_def only_read_def dest!: only_read_Get Upsert_targets
          split: option.splits prod.splits sum.splits if_splits)
    then show ?thesis using saved_follows_same [OF inv] by blast
  next
    case (add b)
    from add(2) show ?thesis
    proof (cases rule: add_target_cases)
      case refused
      then show ?thesis using saved_follows_same [OF inv] f by simp
    next
      case (accepted raw t w w' js')
      then show ?thesis using saved_follows_add [OF inv good, of s' t "Canonical t"] saves by simp
    qed
  next
    case (remove c)
    show ?thesis
    proof (cases "c = []")
      case True
      then show ?thesis using remove(2) inv by (simp add: handleRemoveTarget_def)
    next
      case False
      then show ?thesis using remove(2) saves saved_follows_remove [OF inv good, of s' c]
        by (auto simp: handleRemoveTarget_def Let_def)
    qed
  next
    case (license b)
    then have "web_sched s' = web_sched s \<and> web_db s' = web_db s"
      by (auto simp: handleSetLicense_def Let_def split: option.splits if_splits prod.splits)
    then show ?thesis using saved_follows_same [OF inv] f by simp
  qed
qed

text \<open>
  As long as the database answers, over any sequence of requests, the saved targets of the module are
  exactly the registered ones.
\<close>

lemma serve_saved_follows:
  assumes "web_ok s" "sv_Targets sv" "saved_follows sv s"
  shows "saved_follows sv (serve sv qs s)"
  using assms
proof (induction sv qs s rule: serve.induct)
  case (2 sv E q rest s)
  obtain r s' js where run: "Handler E sv q s = (r, s', js)" by (cases "Handler E sv q s")
  from saved_follows_step [OF 2(2-4) run] Handler_keeps_web_ok [OF 2(2) run] 2 run
  show ?case by simp
qed simp


subsection \<open>A sample dashboard\<close>

text \<open>The free edition with one registered and saved domain, and one open finding.\<close>

definition demo_env :: "(unit, unit) env" where
  "demo_env = \<lparr>env_clock = (\<lambda>_. 0), env_ctx = (\<lambda>_. None), env_write = (\<lambda>b. (None, Some b)),
     env_license = demo_lib, env_ai = demo_ai_lib, env_hfs_new = (\<lambda>_ _ _ _ _. ()),
     env_hfs_marshal = (\<lambda>_. None)\<rparr>"

definition one_target :: limits where
  "one_target = \<lparr>MaxTargets = 1, RetentionDays = 14, Channels = [], MultiUser = False,
     CustomInterval = False, ScanNow_allowed = False\<rparr>"

definition demo_server :: "(unit, unit) server" where
  "demo_server = \<lparr>sv_Module = Describe demo_collector, sv_ExportMeta = \<lparr>m_Product = [], m_Version = [], m_Host = []\<rparr>,
     sv_ExportEvidence = (), sv_Targets = True, sv_TierLimits = Some [(TierFree, one_target)],
     sv_Verify = None, sv_IssuerPub = [], sv_LicenseFile = ''key'', sv_AI = None\<rparr>"

definition demo_web :: "unit web" where
  "demo_web = \<lparr>web_db = demo_db StatusOpen 0, web_sched = demo_sched, web_world = (),
     web_activation = free_activation [], web_file = None\<rparr>"

lemma demo_ListTargets: "ListTargets ''asm'' demo_sched = []"
  by (simp add: ListTargets_def demo_sched_def Register_def demo_collector_def sched_New_def snapshotTargets_def Let_def)

lemma demo_server_module_ID: "module_ID (sv_Module demo_server) = ''asm''"
  by (simp add: demo_server_def demo_collector_def)

lemma demo_sched_ok: "sched_ok demo_sched"
  unfolding demo_sched_def by (intro sched_ok_Register sched_ok_New)

lemma demo_web_ok: "web_ok demo_web"
  using demo_sched_ok demo_db_good
  by (simp add: web_ok_def demo_web_def) (simp add: demo_db_def sql_targets_good_def sql_targets_of_def)

definition demo_requests :: "((unit, unit) env \<times> request) list" where
  "demo_requests = [(demo_env, PostTarget (Some ''A.b'')), (demo_env, PostLicense (Some ''k'')),
     (demo_env, PostTarget (Some ''c.d''))]"

lemma findings_changed_only_by_status_witness:
  "sql_good (web_db demo_web)
   \<and> map_option severity (sql_lookup (web_db (fst (snd
        (Handler demo_env demo_server (PostStatus (Some (''f1'', StatusSuppressed))) demo_web)))) (''asm'', ''f1''))
     = Some ''high''"
proof
  let ?q = "PostStatus (Some (''f1'', StatusSuppressed))"
  show good: "sql_good (web_db demo_web)" using demo_web_ok by (simp add: web_ok_def)
  obtain r s' js where run: "Handler demo_env demo_server ?q demo_web = (r, s', js)"
    by (cases "Handler demo_env demo_server ?q demo_web")
  have before: "map_option severity (sql_lookup (web_db demo_web) (''asm'', ''f1'')) = Some ''high''"
    by (simp add: demo_web_def demo_db_def sql_lookup_def demo_record_def new_record_def demo_finding_def
        row_key_def excluded_row_def scanRecord_def)
  from findings_changed_only_by_status [OF good run] before
  have "map_option severity (sql_lookup (web_db s') (''asm'', ''f1'')) = Some ''high''"
    by (auto split: if_splits)
  then show "map_option severity (sql_lookup (web_db (fst (snd (Handler demo_env demo_server ?q demo_web))))
      (''asm'', ''f1'')) = Some ''high''" using run by simp
qed

lemma target_limit_enforced_witness:
  "int (target_count demo_server (serve demo_server demo_requests demo_web)) \<le> 1"
proof -
  have "length (sv_IssuerPub demo_server) \<noteq> PublicKeySize" by (simp add: demo_server_def PublicKeySize_def)
  moreover have "act_Tier (web_activation demo_web) = TierFree" by (simp add: demo_web_def free_activation_def)
  moreover have "sv_TierLimits demo_server = Some [(TierFree, one_target)]" by (simp add: demo_server_def)
  moreover have "map_of [(TierFree, one_target)] TierFree = Some one_target" by simp
  moreover have "0 < MaxTargets one_target" by (simp add: one_target_def)
  moreover have "int (target_count demo_server demo_web) \<le> MaxTargets one_target"
    unfolding target_count_def demo_server_module_ID by (simp add: demo_web_def one_target_def demo_ListTargets)
  ultimately show ?thesis
    using target_limit_enforced [OF demo_web_ok, of demo_server "[(TierFree, one_target)]" one_target demo_requests]
    by (simp add: one_target_def)
qed

lemma demo_saved_follows: "saved_follows demo_server demo_web"
proof -
  have "registered demo_sched ''asm'' = Map.empty"
    by (simp add: registered_def demo_sched_def Register_def demo_collector_def sched_New_def Let_def)
  then show ?thesis
    unfolding saved_follows_def saved_canonicals_def demo_server_module_ID
    by (simp add: demo_web_def demo_db_def sql_targets_of_def)
qed

end
