(* ===== verification/WebAnswers.thy ===== *)
theory WebAnswers
  imports WebProperties
begin

section \<open>What the dashboard's answers say\<close>

text \<open>
  What single handlers answer: what becomes of a license key, what the summary counts, and what a
  narration may do and say.
\<close>

subsection \<open>A trimmed key and the newline it is stored with\<close>

lemma space_rune_newline: "w \<in> set space_runes \<Longrightarrow> w = u @ [mkbyte 10] \<Longrightarrow> u = []"
proof -
  have "list_all (\<lambda>w. last w = mkbyte 10 \<longrightarrow> length w = 1) space_runes" by code_simp
  then show "w \<in> set space_runes \<Longrightarrow> w = u @ [mkbyte 10] \<Longrightarrow> u = []"
    unfolding list_all_iff by fastforce
qed

lemma newline_rune: "[mkbyte 10] \<in> set space_runes"
  by (simp add: space_runes_def)

lemma TrimLeftSpace_leading: "leading_space (TrimLeftSpace s) = None"
proof (induction s rule: TrimLeftSpace.induct)
  case (1 s)
  then show ?case by (cases "leading_space s") (simp_all add: TrimLeftSpace.simps [of s])
qed

lemma TrimRightSpace_trailing: "trailing_space (TrimRightSpace s) = None"
proof (induction s rule: TrimRightSpace.induct)
  case (1 s)
  then show ?case by (cases "trailing_space s") (simp_all add: TrimRightSpace.simps [of s])
qed

lemma trailing_newline: "trailing_space (s @ [mkbyte 10]) = Some 1"
proof (cases "find (HasSuffix (s @ [mkbyte 10])) space_runes")
  case None
  then show ?thesis using newline_rune by (auto simp: find_None_iff HasSuffix_iff)
next
  case (Some w)
  then have w: "w \<in> set space_runes" "HasSuffix (s @ [mkbyte 10]) w"
    by (auto simp: find_Some_iff)
  then obtain u where "w = u @ [mkbyte 10]"
    using space_runes_nonempty by (auto simp: HasSuffix_iff) (metis append_butlast_last_id last_appendR last_snoc)
  with space_rune_newline [OF w(1)] have "w = [mkbyte 10]" by simp
  with Some show ?thesis by (simp add: trailing_space_def)
qed

lemma TrimRightSpace_newline: "TrimRightSpace (s @ [mkbyte 10]) = TrimRightSpace s"
  by (simp add: TrimRightSpace.simps [of "s @ [mkbyte 10]"] trailing_newline)

lemma leading_space_newline:
  assumes "leading_space (t @ v) = None" "t \<noteq> []"
  shows "leading_space (t @ [mkbyte 10]) = None"
proof (rule ccontr)
  assume "leading_space (t @ [mkbyte 10]) \<noteq> None"
  then obtain w where w: "w \<in> set space_runes" "HasPrefix (t @ [mkbyte 10]) w"
    by (auto simp: leading_space_def find_None_iff)
  have no: "\<not> HasPrefix (t @ v) w" using assms(1) w(1) by (auto simp: leading_space_def find_None_iff)
  obtain z where z: "t @ [mkbyte 10] = w @ z" using w(2) by (auto simp: HasPrefix_iff)
  show False
  proof (cases z rule: rev_cases)
    case Nil
    then show ?thesis using space_rune_newline [OF w(1), of t] z assms(2) by simp
  next
    case (snoc z' c)
    with z have "t @ v = w @ z' @ v" by simp
    then show ?thesis using no by (auto simp: HasPrefix_iff)
  qed
qed

lemma TrimSpace_newline: "TrimSpace (TrimSpace k @ [mkbyte 10]) = TrimSpace k"
proof (cases "TrimSpace k = []")
  case True
  have "TrimSpace [mkbyte 10] = []" by code_simp
  with True show ?thesis by simp
next
  case False
  obtain v where v: "TrimLeftSpace k = TrimSpace k @ v"
    using TrimRightSpace_prefix [of "TrimLeftSpace k"] by (auto simp: TrimSpace_def)
  have "leading_space (TrimSpace k @ v) = None" using TrimLeftSpace_leading [of k] v by simp
  from leading_space_newline [OF this False]
  have "TrimLeftSpace (TrimSpace k @ [mkbyte 10]) = TrimSpace k @ [mkbyte 10]"
    by (simp add: TrimLeftSpace.simps [of "TrimSpace k @ [mkbyte 10]"])
  moreover have "TrimRightSpace (TrimSpace k) = TrimSpace k"
    using TrimRightSpace_trailing [of "TrimLeftSpace k"]
    by (simp add: TrimSpace_def TrimRightSpace.simps [of "TrimRightSpace (TrimLeftSpace k)"])
  ultimately show ?thesis by (simp add: TrimSpace_def [of "TrimSpace k @ [mkbyte 10]"] TrimRightSpace_newline)
qed

subsection \<open>License keys\<close>

text \<open>
  (C28) What becomes of a key, in a program that has a license file. A key that does not activate a paid
  tier is refused and changes nothing, neither the activation nor the file. An accepted key (or the
  empty one, which removes the license) is stored, and a restart that reads the file back, at whatever
  time, resolves the activation that was accepted, or, when its license has expired by then, the free
  tier with a notice of the day it expired. When the key cannot be stored the activation stays what it
  was. The findings, targets and scheduler are never touched. (The file write is assumed to hold what
  was written when it reports success.)
\<close>

theorem license_key_survives_restart:
  assumes "handleSetLicense E sv (Some k) s = (r, s')" "sv_LicenseFile sv \<noteq> []"
    and "\<And>b f. env_write E b = (None, f) \<Longrightarrow> f = Some b"
  shows "web_db s' = web_db s \<and> web_sched s' = web_sched s
    \<and> (if http_code r = 200 then
         (act_Tier (web_activation s') \<noteq> TierFree \<or> TrimSpace k = [])
         \<and> web_file s' = Some (TrimSpace k @ [mkbyte 10])
         \<and> (\<forall>later. initial_activation (env_license E) (sv_IssuerPub sv) (module_ID (sv_Module sv))
               (sv_LicenseFile sv) (web_file s') later =
             (case act_License (web_activation s') of
                None \<Rightarrow> web_activation s'
              | Some lic \<Rightarrow> if later \<le> ExpiresAt lic then web_activation s'
                            else free_activation (expired_notice lic)))
       else web_activation s' = web_activation s \<and> (http_code r = 500 \<or> s' = s \<and> http_code r = 400))"
proof -
  define key where "key = TrimSpace k"
  let ?act = "Activate (env_license E) (sv_IssuerPub sv) (module_ID (sv_Module sv)) key"
  define act where "act = ?act (env_clock E 0)"
  have nil: "TrimSpace [] = []" by code_simp
  obtain x f where w: "env_write E (key @ [mkbyte 10]) = (x, f)" by (cases "env_write E (key @ [mkbyte 10])")
  have run: "handleSetLicense E sv (Some k) s =
      (if act_Tier act = TierFree \<and> key \<noteq> [] then (httpError 400 (Notice act), s)
       else case x of
              Some e \<Rightarrow> (httpError 500 ''could not persist license key'', s\<lparr>web_file := f\<rparr>)
            | None \<Rightarrow> (writeJSON (TierBody (act_Tier act)), s\<lparr>web_file := f, web_activation := act\<rparr>))"
    using assms(2) w by (simp add: handleSetLicense_def Let_def key_def act_def split: option.split)
  have "initial_activation (env_license E) (sv_IssuerPub sv) (module_ID (sv_Module sv)) (sv_LicenseFile sv)
      (Some (key @ [mkbyte 10])) later = ?act later" for later
    using assms(2) by (simp add: initial_activation_def key_def TrimSpace_newline)
  moreover have "?act later = (case act_License act of None \<Rightarrow> act
      | Some lic \<Rightarrow> if later \<le> ExpiresAt lic then act else free_activation (expired_notice lic))"
    if "\<not> (act_Tier act = TierFree \<and> key \<noteq> [])" for later
    unfolding act_def
  proof (rule Activate_other_time)
    show "act_Tier (?act (env_clock E 0)) \<noteq> TierFree \<or> TrimSpace key = []"
      using that nil by (auto simp: act_def)
  qed
  moreover have "x = None \<Longrightarrow> f = Some (key @ [mkbyte 10])" using assms(3) w by blast
  ultimately show ?thesis
    using assms(1) unfolding run key_def [symmetric] by (cases x) (auto split: if_splits option.split)
qed

text \<open>A dashboard with the sample issuer's key, given a signed key of that issuer.\<close>

definition demo_licensed :: "(unit, unit) server" where
  "demo_licensed = demo_server\<lparr>sv_IssuerPub := demo_pub\<rparr>"

lemma license_key_survives_restart_witness:
  "\<exists>key s'. handleSetLicense demo_env demo_licensed (Some key) demo_web = (writeJSON (TierBody TierPro), s')
     \<and> act_Tier (initial_activation demo_lib demo_pub ''asm'' ''key'' (web_file s') 99) = TierPro
     \<and> act_License (initial_activation demo_lib demo_pub ''asm'' ''key'' (web_file s') 101) = None"
proof -
  obtain key where key: "Sign demo_lib demo_pub demo_license = Inr key" using demo_signed by blast
  note trim = Sign_trimmed [OF key]
  have len: "length demo_pub = PublicKeySize" by (simp add: demo_pub_def PublicKeySize_def)
  have sv: "sv_LicenseFile demo_licensed = ''key''" "sv_IssuerPub demo_licensed = demo_pub"
    "module_ID (sv_Module demo_licensed) = ''asm''" "env_license demo_env = demo_lib" "env_clock demo_env i = 0"
    "env_write demo_env b = (None, Some b)" for i b
    by (simp_all add: demo_licensed_def demo_server_def demo_collector_def demo_env_def)
  let ?lic = "json_license demo_license"
  let ?act = "\<lparr>act_Tier = TierPro, act_Limits = limitsFor TierPro, act_License = Some ?lic, Notice = []\<rparr>"
  have lic: "Tier ?lic = TierPro" "ExpiresAt ?lic = 100"
    by (simp_all add: demo_license_def demo_license_text)
  have act: "Activate demo_lib demo_pub ''asm'' key 0 = ?act"
    using trim len lic demo_verifies [OF key, of 0] by (simp add: Activate_def)
  let ?s = "demo_web\<lparr>web_file := Some (key @ [mkbyte 10]), web_activation := ?act\<rparr>"
  have run: "handleSetLicense demo_env demo_licensed (Some key) demo_web = (writeJSON (TierBody TierPro), ?s)"
    by (simp add: handleSetLicense_def Let_def sv trim act)
  have "http_code (writeJSON (TierBody TierPro)) = 200" by (simp add: writeJSON_def)
  with license_key_survives_restart [OF run] sv lic
  have "initial_activation demo_lib demo_pub ''asm'' ''key'' (web_file ?s) later =
      (if later \<le> 100 then ?act else free_activation (expired_notice ?lic))" for later
    by simp
  with run show ?thesis by (intro exI [of _ key] exI [of _ ?s]) (simp add: free_activation_def)
qed

subsection \<open>The summary\<close>

definition counted :: "(gostring \<times> nat) list \<Rightarrow> gostring \<Rightarrow> nat" where
  "counted m sev = (case map_of m sev of None \<Rightarrow> 0 | Some n \<Rightarrow> n)"

lemma counted_update: "counted (AList.update k n m) sev = (if sev = k then n else counted m sev)"
  by (simp add: counted_def map_of_update)

lemma counted_severities: "counted (count_severities rs) sev = length (filter (\<lambda>r. severity r = sev) rs)"
proof -
  have "counted (fold (\<lambda>r m. AList.update (severity r) (counted m (severity r) + 1) m) rs m) sev
      = counted m sev + length (filter (\<lambda>r. severity r = sev) rs)" for m
    by (induction rs arbitrary: m) (auto simp: counted_update)
  from this [of "[]"] show ?thesis unfolding count_severities_def counted_def [symmetric] by (simp add: counted_def)
qed

text \<open>The fingerprints of a module's open findings that satisfy a condition.\<close>

definition open_findings :: "('w, 'o) server \<Rightarrow> 'w web \<Rightarrow> (frec \<Rightarrow> bool) \<Rightarrow> gostring set" where
  "open_findings sv s P = {fp. \<exists>f. sql_lookup (web_db s) (module_ID (sv_Module sv), fp) = Some f
     \<and> status f = StatusOpen \<and> P f}"

lemma length_open:
  assumes "sql_good (web_db s)" "sql_ListOpen (module_ID (sv_Module sv)) (web_db s) = (Inr rs, d)"
  shows "length (filter P rs) = card (open_findings sv s P)"
proof -
  let ?m = "module_ID (sv_Module sv)"
  from query_lookup [OF assms(1), where m = ?m and Q = "\<lambda>r. status r = StatusOpen"] assms(2)
  have dist: "distinct (map fingerprint rs)"
    and mem: "\<And>r. r \<in> set rs \<longleftrightarrow> sql_lookup (web_db s) (?m, fingerprint r) = Some r \<and> status r = StatusOpen"
    by (simp_all add: sql_ListOpen_def)
  have key: "fingerprint f = fp" if "sql_lookup (web_db s) (?m, fp) = Some f" for f fp
    using sql.lookup_key [OF assms(1) _ that] by (simp add: rkey_def)
  have "fp \<in> open_findings sv s P \<longleftrightarrow> (\<exists>r. r \<in> set rs \<and> P r \<and> fp = fingerprint r)" for fp
  proof
    assume "fp \<in> open_findings sv s P"
    then obtain f where f: "sql_lookup (web_db s) (?m, fp) = Some f" "status f = StatusOpen" "P f"
      by (auto simp: open_findings_def)
    with key [OF f(1)] mem [of f] show "\<exists>r. r \<in> set rs \<and> P r \<and> fp = fingerprint r" by metis
  next
    assume "\<exists>r. r \<in> set rs \<and> P r \<and> fp = fingerprint r"
    then obtain r where "r \<in> set rs" "P r" "fp = fingerprint r" by blast
    then show "fp \<in> open_findings sv s P" using mem [of r] by (simp add: open_findings_def)
  qed
  then have "open_findings sv s P = fingerprint ` set (filter P rs)" by auto
  moreover have "card (fingerprint ` set (filter P rs)) = length (filter P rs)"
    using distinct_map_filter [OF dist] by (metis distinct_card length_map list.set_map)
  ultimately show ?thesis by simp
qed

text \<open>
  (C33) The home screen counts right. Unless the store fails, the total is the number of open findings
  of the product and each severity's entry the number of those with that severity; the number of
  targets is the one the limit is checked against, and the page offers an immediate scan exactly
  when the handler would not refuse one.
\<close>

theorem summary_counts_open_findings:
  assumes "sql_good (web_db s)" "handleSummary sv s = (r, s')"
  shows "case http_body r of
      SummaryBody b \<Rightarrow> http_code r = 200
        \<and> sum_OpenTotal b = card (open_findings sv s (\<lambda>_. True))
        \<and> (\<forall>sev. counted (sum_Counts b) sev = card (open_findings sv s (\<lambda>f. severity f = sev)))
        \<and> sum_Targets b = target_count sv s
        \<and> (sum_CanScanNow b \<longleftrightarrow> http_code (fst (handleScanNow E sv s)) \<noteq> 402)
    | ErrorBody e \<Rightarrow> http_code r = 500
    | _ \<Rightarrow> False"
proof -
  obtain x d where l: "sql_ListOpen (module_ID (sv_Module sv)) (web_db s) = (x, d)"
    by (cases "sql_ListOpen (module_ID (sv_Module sv)) (web_db s)")
  have scan: "http_code (fst (handleScanNow E sv s)) \<noteq> 402 \<longleftrightarrow> ScanNow_allowed (effLimits sv s)"
    by (auto simp: handleScanNow_def split: option.split prod.split)
  show ?thesis
  proof (cases x)
    case (Inl e)
    then show ?thesis using assms(2) l by (auto simp: handleSummary_def Let_def)
  next
    case (Inr rs)
    note count = length_open [OF assms(1) l [unfolded Inr]]
    have "length rs = card (open_findings sv s (\<lambda>_. True))" using count [of "\<lambda>_. True"] by simp
    then show ?thesis using assms(2) l Inr scan
      by (auto simp: handleSummary_def Let_def counted_severities count target_count_def)
  qed
qed

lemma summary_counts_open_findings_witness:
  "card (open_findings demo_server demo_web (\<lambda>f. severity f = ''high'')) = 1
   \<and> (case http_body (fst (handleSummary demo_server demo_web)) of
        SummaryBody b \<Rightarrow> counted (sum_Counts b) ''high'' = 1 | _ \<Rightarrow> False)"
proof
  have "sql_lookup (web_db demo_web) (''asm'', fp) = Some f
      \<longleftrightarrow> fp = ''f1'' \<and> f = demo_record StatusOpen 0" for fp f
    by (auto simp: demo_web_def demo_lookup)
  then have "open_findings demo_server demo_web (\<lambda>f. severity f = ''high'') = {''f1''}"
    unfolding open_findings_def demo_server_module_ID
    by (auto simp: demo_record_def new_record_def demo_finding_def)
  then show card: "card (open_findings demo_server demo_web (\<lambda>f. severity f = ''high'')) = 1" by simp
  obtain r s' where run: "handleSummary demo_server demo_web = (r, s')" by (cases "handleSummary demo_server demo_web")
  have "http_code r = 200"
    using run by (auto simp: handleSummary_def Let_def sql_ListOpen_def query_def exec_def demo_web_def demo_db_def)
  moreover have "sql_good (web_db demo_web)" using demo_web_ok by (simp add: web_ok_def)
  ultimately show "case http_body (fst (handleSummary demo_server demo_web)) of
        SummaryBody b \<Rightarrow> counted (sum_Counts b) ''high'' = 1 | _ \<Rightarrow> False"
    using summary_counts_open_findings [of demo_web demo_server r s' demo_env] run card
    by (auto split: body.splits)
qed

subsection \<open>Narrations\<close>

text \<open>What the handler says once a finding is found, with the client the configuration builds.\<close>

lemma narrate_outcome:
  assumes conf: "NewAIAssist url_parse read_file conf = Inr (sv_AI sv)" and run: "narrate E sv s f = (r, n)"
  shows "http_code r = 200 \<and> n \<le> 1
    \<and> (n = 0 \<or> (\<exists>a c. sv_AI sv = Some a \<and> assist_Client a = Some c
         \<and> (\<not> assist_Keyed a \<or> act_Tier (web_activation s) \<in> {TierPro, TierTeam})))
    \<and> (case http_body r of
         ExplainBody x \<Rightarrow>
           (if ex_Available x then n = 1 \<and> ex_Explanation x \<noteq> [] \<and> ex_Disclaimer x = CanonicalDisclaimer
            else ex_Reason x \<noteq> [] \<and> ex_Explanation x = [])
       | _ \<Rightarrow> False)"
proof (cases "aiAllowed sv s")
  case (Inl reason)
  then have "reason \<noteq> []"
    by (auto simp: aiAllowed_def Let_def ai_off_text_def ai_tier_text_def split: option.splits if_splits)
  with run Inl show ?thesis by (auto simp: narrate_def not_available_def)
next
  case (Inr ac)
  obtain a c where ac: "ac = (a, c)" by (cases ac)
  with Inr have allowed: "sv_AI sv = Some a" "assist_Client a = Some c"
      "\<not> assist_Keyed a \<or> act_Tier (web_activation s) \<in> {TierPro, TierTeam}"
    by (auto simp: aiAllowed_def Let_def split: option.splits if_splits)
  have retries: "maxRetries c = 0" using NewAIAssist_client [of url_parse read_file conf a] conf allowed by auto
  show ?thesis
  proof (cases "NewFindingPacket (module_ID (sv_Module sv)) (assist_Language a)
                  (told_finding (module_ID (sv_Module sv)) f)")
    case fail: (Inl e)
    with run Inr ac show ?thesis by (auto simp: narrate_def not_available_def)
  next
    case packet: (Inr p)
    obtain er k ps where ex: "Explain (env_ai E) (env_ctx E) c p = (er, k, ps)"
      by (cases "Explain (env_ai E) (env_ctx E) c p")
    note answer = Explain_answer [OF ex, unfolded retries]
    show ?thesis
    proof (cases er)
      case fail: (Inl e)
      with run Inr ac packet ex answer allowed show ?thesis by (auto simp: narrate_def not_available_def)
    next
      case answered: (Inr x)
      with run Inr ac packet ex have "n = k" "r = writeJSON (ExplainBody
                       \<lparr>ex_Available = True, ex_Reason = [], ex_Explanation = ExplanationText x,
                        ex_WhatToVerify = WhatToVerify x, ex_Disclaimer = Disclaimer x\<rparr>)"
        by (auto simp: narrate_def)
      with answer answered allowed show ?thesis by auto
    qed
  qed
qed

text \<open>
  (C25) Asking for an explanation never affects a finding and always gets a usable answer. Whatever
  the sidecar does, the database, the targets and the license stay as they were; with the client
  the configuration builds, at most one request leaves, and only for a stored finding, with AI
  Assist on, and with a paid tier when the endpoint needs a key. The answer is a refusal of the
  request, or \<open>available: false\<close> with a reason, or a text with the canonical disclaimer.
\<close>

theorem explain_never_affects_findings:
  assumes "sql_good (web_db s)" "NewAIAssist url_parse read_file conf = Inr (sv_AI sv)"
    and "handleExplainFinding E sv req s = (r, s', n)"
  shows "sql_lookup (web_db s') = sql_lookup (web_db s) \<and> targets (web_db s') = targets (web_db s)
    \<and> web_sched s' = web_sched s \<and> web_activation s' = web_activation s
    \<and> n \<le> 1
    \<and> (n = 0 \<or> (\<exists>fp f a c. req = Some fp \<and> sql_lookup (web_db s) (module_ID (sv_Module sv), fp) = Some f
         \<and> sv_AI sv = Some a \<and> assist_Client a = Some c
         \<and> (\<not> assist_Keyed a \<or> act_Tier (web_activation s) \<in> {TierPro, TierTeam})))
    \<and> (case http_body r of
         ExplainBody x \<Rightarrow> http_code r = 200
           \<and> (if ex_Available x then n = 1 \<and> ex_Explanation x \<noteq> [] \<and> ex_Disclaimer x = CanonicalDisclaimer
               else ex_Reason x \<noteq> [] \<and> ex_Explanation x = [])
       | ErrorBody e \<Rightarrow> http_code r \<in> {400, 404, 500} \<and> n = 0
       | _ \<Rightarrow> False)"
proof -
  have same: "same_but_db s s'" by (rule reading_handlers(5) [OF assms(3)])
  then have tables: "sql_lookup (web_db s') = sql_lookup (web_db s)" "targets (web_db s') = targets (web_db s)"
    by (auto simp: same_but_db_def only_read_def intro: sql_lookup_tables)
  have frame: "web_sched s' = web_sched s \<and> web_activation s' = web_activation s"
    using same by (simp add: same_but_db_def)
  let ?m = "module_ID (sv_Module sv)"
  consider (bad) "req = None \<or> TrimSpace (the req) = []" | (fp) fp where "req = Some fp" "TrimSpace fp \<noteq> []"
    by (cases req) auto
  then show ?thesis
  proof cases
    case bad
    then have "r = httpError 400 ''fingerprint is required'' \<and> n = 0"
      using assms(3) by (cases req) (auto simp: handleExplainFinding_def)
    then show ?thesis using tables frame by simp
  next
    case (fp fp)
    obtain x d where get: "sql_Get ?m fp (web_db s) = (x, d)" by (cases "sql_Get ?m fp (web_db s)")
    show ?thesis
    proof (cases "\<exists>f. x = Inr (Some f)")
      case False
      then have "(r = httpError 500 ''store error'' \<or> r = httpError 404 ''no such finding'') \<and> n = 0"
        using assms(3) fp get by (auto simp: handleExplainFinding_def split: sum.splits option.splits)
      then show ?thesis using tables frame by auto
    next
      case True
      then obtain f where x: "x = Inr (Some f)" by blast
      have look: "sql_lookup (web_db s) (?m, fp) = Some f"
        using sql.get_ok [OF assms(1) _ get [unfolded x]] by simp
      obtain r' n' where tell: "narrate E sv (s\<lparr>web_db := d\<rparr>) f = (r', n')"
        by (cases "narrate E sv (s\<lparr>web_db := d\<rparr>) f")
      have "r = r'" "n = n'" using assms(3) fp get x tell by (auto simp: handleExplainFinding_def)
      note told = narrate_outcome [OF assms(2) tell, folded this]
      have paid: "n = 0 \<or> (\<exists>a c. sv_AI sv = Some a \<and> assist_Client a = Some c
          \<and> (\<not> assist_Keyed a \<or> act_Tier (web_activation s) \<in> {TierPro, TierTeam}))"
        using told by simp
      show ?thesis
      proof (cases "http_body r")
        case (ExplainBody y)
        then show ?thesis using told paid look fp(1) tables frame by simp
      qed (use told in simp_all)
    qed
  qed
qed


lemma explain_never_affects_findings_witness:
  "\<exists>a. NewAIAssist (\<lambda>_. Some (''http'', ''h'')) (\<lambda>_. Inl [])
         \<lparr>cfg_URL = ''u'', cfg_KeyFile = [], cfg_Language = [], cfg_NoThinking = False\<rparr> = Inr (Some a)
     \<and> snd (snd (handleExplainFinding demo_env (demo_server\<lparr>sv_AI := Some a\<rparr>) (Some ''f1'') demo_web)) \<le> 1"
proof -
  let ?conf = "\<lparr>cfg_URL = ''u'', cfg_KeyFile = [], cfg_Language = [], cfg_NoThinking = False\<rparr>"
  have trim: "TrimSpace ''u'' = ''u''" by code_simp
  then obtain a where a: "NewAIAssist (\<lambda>_. Some (''http'', ''h'')) (\<lambda>_. Inl []) ?conf = Inr (Some a)"
    by (simp add: NewAIAssist_def Let_def)
  let ?sv = "demo_server\<lparr>sv_AI := Some a\<rparr>"
  have ai: "NewAIAssist (\<lambda>_. Some (''http'', ''h'')) (\<lambda>_. Inl []) ?conf = Inr (sv_AI ?sv)" using a by simp
  obtain r s' n where run: "handleExplainFinding demo_env ?sv (Some ''f1'') demo_web = (r, s', n)"
    by (cases "handleExplainFinding demo_env ?sv (Some ''f1'') demo_web") auto
  have "sql_good (web_db demo_web)" using demo_web_ok by (simp add: web_ok_def)
  from explain_never_affects_findings [OF this ai run] have "n \<le> 1" by blast
  with a run show ?thesis by auto
qed

end
