(* ===== verification/CmdAsm.thy ===== *)
theory CmdAsm
  imports WebAnswers
begin

section \<open>The product binary (\<open>cmd/asm/main.go\<close>, \<open>cmd/asm/channels.go\<close>)\<close>

text \<open>
  The tier table of the product, the channels the flags ask for, and the start-up: registration of
  the collector, restoration of the saved targets, the dashboard, the start of the scheduler. Flag
  parsing and process signals are not modelled. The sinks of \<open>hexward-core\<close> are not part of the
  repository: what the code asks of them is the record \<open>sink_lib\<close>.
\<close>

subsection \<open>Tier limits\<close>

definition free_channels :: "gostring list" where
  "free_channels = [''webhook'', ''syslog'', ''file'', ''splunk-hec'']"

definition asmTierLimits :: "(tier \<times> limits) list" where
  "asmTierLimits =
     [(TierFree, \<lparr>MaxTargets = 1, RetentionDays = 14, Channels = free_channels, MultiUser = False,
                  CustomInterval = False, ScanNow_allowed = False\<rparr>),
      (TierPro, \<lparr>MaxTargets = 10, RetentionDays = 365,
                 Channels = free_channels @ [''email'', ''slack'', ''telegram''], MultiUser = False,
                 CustomInterval = True, ScanNow_allowed = True\<rparr>),
      (TierTeam, \<lparr>MaxTargets = 0, RetentionDays = 0,
                  Channels = free_channels @ [''email'', ''slack'', ''telegram'', ''pagerduty'', ''teams''],
                  MultiUser = True, CustomInterval = True, ScanNow_allowed = True\<rparr>)]"

subsection \<open>Channels\<close>

record channel_flags =
  f_webhook :: gostring
  f_webhookFormat :: gostring
  f_webhookSecretFile :: gostring
  f_syslogAddr :: gostring
  f_syslogNetwork :: gostring
  f_syslogFormat :: gostring
  f_syslogRFC :: int
  f_syslogCAFile :: gostring
  f_exportFile :: gostring
  f_hecURL :: gostring
  f_hecTokenFile :: gostring
  f_hecIndex :: gostring
  f_hecCAFile :: gostring
  f_evidence :: gostring

text \<open>The flags' default values.\<close>

definition registerChannelFlags :: channel_flags where
  "registerChannelFlags =
     \<lparr>f_webhook = [], f_webhookFormat = ''v1'', f_webhookSecretFile = [], f_syslogAddr = [],
      f_syslogNetwork = ''udp'', f_syslogFormat = ''kv'', f_syslogRFC = 5424, f_syslogCAFile = [],
      f_exportFile = [], f_hecURL = [], f_hecTokenFile = [], f_hecIndex = [], f_hecCAFile = [],
      f_evidence = ''redacted''\<rparr>"

text \<open>A sink of \<open>hexward-core\<close>, with the fields \<open>build\<close> sets, and the channels it returns.\<close>

datatype 't hfs_sink =
    WebhookSink gostring gostring
  | SyslogSink gostring gostring gostring int "'t option"
  | FileSink gostring
  | HecSink gostring gostring gostring "'t option"

datatype ('o, 't) channel =
    WebhookChannel webhook_channel
  | SyslogChannel gostring gostring
  | HFSChannel "'t hfs_sink" hfs_meta 'o

record ('o, 't) sink_lib =
  ParseEvidenceMode :: "gostring \<Rightarrow> 'o option"
  ReadSecretFile :: "gostring \<Rightarrow> goerror + gostring"
  TLSConfig :: "gostring \<Rightarrow> gostring \<Rightarrow> goerror + 't"
  FormatJSON :: gostring
  FormatCEF :: gostring
  sink_Validate :: "'t hfs_sink \<Rightarrow> goerror option"
  sink_Endpoint :: "'t hfs_sink \<Rightarrow> goerror option"

text \<open>The host \<open>net.SplitHostPort\<close> returns, which is empty when it returns an error.\<close>

definition SplitHostPort_host :: "gostring \<Rightarrow> gostring" where
  "SplitHostPort_host s =
     (case LastIndexByte s (CHR '':'') of
        None \<Rightarrow> []
      | Some i \<Rightarrow>
          if HasPrefix s ''['' then
            (let host = takeWhile (\<lambda>c. c \<noteq> CHR '']'') (tl s); close = Suc (length host) in
             if length s \<le> close \<or> Suc close \<noteq> i \<or> CHR ''['' \<in> set (tl s)
                \<or> CHR '']'' \<in> set (drop (Suc close) s)
             then [] else host)
          else if CHR '':'' \<in> set (take i s) \<or> CHR ''['' \<in> set s \<or> CHR '']'' \<in> set s then []
          else take i s)"

text \<open>The four blocks of \<open>build\<close>, each one setting's channel or the error that stops the start-up.\<close>

definition build_webhook ::
  "('o, 't) sink_lib \<Rightarrow> hfs_meta \<Rightarrow> 'o \<Rightarrow> channel_flags \<Rightarrow> goerror + ('o, 't) channel list" where
  "build_webhook K meta opt c =
     (if f_webhook c = [] then Inr []
      else
        (case (if f_webhookSecretFile c = [] then Inr [] else ReadSecretFile K (f_webhookSecretFile c)) of
           Inl e \<Rightarrow> Inl (''-webhook-secret-file: '' @ e)
         | Inr secret \<Rightarrow>
             if f_webhookFormat c = [] \<or> f_webhookFormat c = ''v1'' then
               Inr [WebhookChannel \<lparr>wh_URL = f_webhook c, wh_Secret = secret\<rparr>]
             else if f_webhookFormat c = ''v2'' then
               Inr [HFSChannel (WebhookSink (f_webhook c) secret) meta opt]
             else Inl (''-webhook-format '' @ go_quote (f_webhookFormat c) @ '': want v1 or v2'')))"

definition build_syslog ::
  "('o, 't) sink_lib \<Rightarrow> hfs_meta \<Rightarrow> 'o \<Rightarrow> channel_flags \<Rightarrow> goerror + ('o, 't) channel list" where
  "build_syslog K meta opt c =
     (if f_syslogAddr c = [] then Inr []
      else if f_syslogFormat c = [] \<or> f_syslogFormat c = ''kv'' then
        (if f_syslogNetwork c \<noteq> ''udp'' \<and> f_syslogNetwork c \<noteq> ''tcp'' then
           Inl (''-syslog-network '' @ go_quote (f_syslogNetwork c)
                  @ '' with -syslog-format kv: want udp or tcp (tls needs json or cef)'')
         else Inr [SyslogChannel (f_syslogAddr c) (f_syslogNetwork c)])
      else if f_syslogFormat c = FormatJSON K \<or> f_syslogFormat c = FormatCEF K then
        (case (if f_syslogNetwork c = ''tls''
               then (case TLSConfig K (f_syslogCAFile c) (SplitHostPort_host (f_syslogAddr c)) of
                       Inl e \<Rightarrow> Inl e | Inr tc \<Rightarrow> Inr (Some tc))
               else Inr None) of
           Inl e \<Rightarrow> Inl (''-syslog-ca-file: '' @ e)
         | Inr tls \<Rightarrow>
             (let snk = SyslogSink (f_syslogAddr c) (f_syslogNetwork c) (f_syslogFormat c) (f_syslogRFC c) tls in
              case sink_Validate K snk of
                Some e \<Rightarrow> Inl e
              | None \<Rightarrow> Inr [HFSChannel snk meta opt]))
      else Inl (''-syslog-format '' @ go_quote (f_syslogFormat c) @ '': want kv, json or cef''))"

definition build_file :: "hfs_meta \<Rightarrow> 'o \<Rightarrow> channel_flags \<Rightarrow> ('o, 't) channel list" where
  "build_file meta opt c =
     (if f_exportFile c = [] then [] else [HFSChannel (FileSink (f_exportFile c)) meta opt])"

definition build_hec ::
  "('o, 't) sink_lib \<Rightarrow> hfs_meta \<Rightarrow> 'o \<Rightarrow> channel_flags \<Rightarrow> goerror + ('o, 't) channel list" where
  "build_hec K meta opt c =
     (if f_hecURL c = [] then Inr []
      else if f_hecTokenFile c = [] then Inl ''-hec-url needs -hec-token-file''
      else
        (case ReadSecretFile K (f_hecTokenFile c) of
           Inl e \<Rightarrow> Inl (''-hec-token-file: '' @ e)
         | Inr tok \<Rightarrow>
             (case sink_Endpoint K (HecSink (f_hecURL c) tok (f_hecIndex c) None) of
                Some e \<Rightarrow> Inl (''-hec-url: '' @ e)
              | None \<Rightarrow>
                  (case (if f_hecCAFile c = [] then Inr None
                         else (case TLSConfig K (f_hecCAFile c) [] of Inl e \<Rightarrow> Inl e | Inr tc \<Rightarrow> Inr (Some tc))) of
                     Inl e \<Rightarrow> Inl (''-hec-ca-file: '' @ e)
                   | Inr tls \<Rightarrow> Inr [HFSChannel (HecSink (f_hecURL c) tok (f_hecIndex c) tls) meta opt]))))"

definition build ::
  "('o, 't) sink_lib \<Rightarrow> hfs_meta \<Rightarrow> channel_flags \<Rightarrow> goerror + ('o, 't) channel list" where
  "build K meta c =
     (case ParseEvidenceMode K (f_evidence c) of
        None \<Rightarrow> Inl (''-export-evidence '' @ go_quote (f_evidence c) @ '': want redacted or none'')
      | Some opt \<Rightarrow>
          (case build_webhook K meta opt c of
             Inl e \<Rightarrow> Inl e
           | Inr ws \<Rightarrow>
               (case build_syslog K meta opt c of
                  Inl e \<Rightarrow> Inl e
                | Inr ss \<Rightarrow>
                    (case build_hec K meta opt c of
                       Inl e \<Rightarrow> Inl e
                     | Inr hs \<Rightarrow> Inr (ws @ ss @ build_file meta opt c @ hs)))))"

text \<open>Where a channel delivers to, and the destinations the flags ask for.\<close>

fun destination :: "('o, 't) channel \<Rightarrow> gostring" where
  "destination (WebhookChannel w) = wh_URL w"
| "destination (SyslogChannel a n) = a"
| "destination (HFSChannel (WebhookSink u s) m opt) = u"
| "destination (HFSChannel (SyslogSink a n fmt r tls) m opt) = a"
| "destination (HFSChannel (FileSink p) m opt) = p"
| "destination (HFSChannel (HecSink u tok idx tls) m opt) = u"

text \<open>
  No setting is dropped silently: when the flags are accepted there is exactly one channel for
  each destination that was set, in the order webhook, syslog, file, HEC, and every channel that
  exports findings honours the evidence mode of the flag.
\<close>

theorem build_covers_settings:
  assumes "build K meta c = Inr out"
  shows "map destination out = filter (\<lambda>d. d \<noteq> []) [f_webhook c, f_syslogAddr c, f_exportFile c, f_hecURL c]
    \<and> (\<forall>snk m opt. HFSChannel snk m opt \<in> set out \<longrightarrow>
          m = meta \<and> ParseEvidenceMode K (f_evidence c) = Some opt)
    \<and> (f_syslogNetwork c = ''tls'' \<longrightarrow> (\<forall>a n. SyslogChannel a n \<notin> set out))"
proof -
  obtain opt ws ss hs where opt: "ParseEvidenceMode K (f_evidence c) = Some opt"
    and ws: "build_webhook K meta opt c = Inr ws" and ss: "build_syslog K meta opt c = Inr ss"
    and hs: "build_hec K meta opt c = Inr hs" and out: "out = ws @ ss @ build_file meta opt c @ hs"
    using assms by (auto simp: build_def split: option.splits sum.splits)
  have w: "map destination ws = filter (\<lambda>d. d \<noteq> []) [f_webhook c]
      \<and> (\<forall>ch \<in> set ws. (\<exists>x. ch = WebhookChannel x) \<or> (\<exists>snk. ch = HFSChannel snk meta opt))"
    using ws by (auto simp: build_webhook_def split: if_splits sum.splits)
  have s: "map destination ss = filter (\<lambda>d. d \<noteq> []) [f_syslogAddr c]
      \<and> (\<forall>ch \<in> set ss. (\<exists>a n. ch = SyslogChannel a n \<and> f_syslogNetwork c \<noteq> ''tls'') \<or> (\<exists>snk. ch = HFSChannel snk meta opt))"
    using ss by (auto simp: build_syslog_def Let_def split: if_splits sum.splits option.splits)
  have f: "map destination (build_file meta opt c :: ('a, 'b) channel list) = filter (\<lambda>d. d \<noteq> []) [f_exportFile c]
      \<and> (\<forall>ch \<in> set (build_file meta opt c :: ('a, 'b) channel list). \<exists>snk. ch = HFSChannel snk meta opt)"
    by (auto simp: build_file_def)
  have h: "map destination hs = filter (\<lambda>d. d \<noteq> []) [f_hecURL c]
      \<and> (\<forall>ch \<in> set hs. \<exists>snk. ch = HFSChannel snk meta opt)"
    using hs by (auto simp: build_hec_def split: if_splits sum.splits option.splits)
  have "map destination out = filter (\<lambda>d. d \<noteq> []) [f_webhook c, f_syslogAddr c, f_exportFile c, f_hecURL c]"
    unfolding out using w s f h by simp
  moreover have "\<forall>ch \<in> set out. (\<exists>x. ch = WebhookChannel x)
      \<or> (\<exists>a n. ch = SyslogChannel a n \<and> f_syslogNetwork c \<noteq> ''tls'') \<or> (\<exists>snk. ch = HFSChannel snk meta opt)"
    unfolding out set_append using w s f h by blast
  ultimately show ?thesis using opt by fastforce
qed

text \<open>A sample: syslog and a file, with sinks that accept everything.\<close>

definition demo_sinks :: "(unit, unit) sink_lib" where
  "demo_sinks = \<lparr>ParseEvidenceMode = \<lambda>_. Some (), ReadSecretFile = Inr, TLSConfig = (\<lambda>_ _. Inr ()),
     FormatJSON = ''json'', FormatCEF = ''cef'', sink_Validate = (\<lambda>_. None), sink_Endpoint = (\<lambda>_. None)\<rparr>"

definition demo_flags :: channel_flags where
  "demo_flags = registerChannelFlags\<lparr>f_syslogAddr := ''h'', f_exportFile := ''x''\<rparr>"

definition demo_meta :: hfs_meta where
  "demo_meta = \<lparr>m_Product = [], m_Version = [], m_Host = []\<rparr>"

lemma demo_build:
  "build demo_sinks demo_meta demo_flags = Inr [SyslogChannel ''h'' ''udp'', HFSChannel (FileSink ''x'') demo_meta ()]"
proof -
  have "build_webhook demo_sinks demo_meta () demo_flags = Inr []" "build_hec demo_sinks demo_meta () demo_flags = Inr []"
    by (simp_all add: build_webhook_def build_hec_def demo_flags_def registerChannelFlags_def)
  moreover have "build_syslog demo_sinks demo_meta () demo_flags = Inr [SyslogChannel ''h'' ''udp'']"
    by (simp add: build_syslog_def demo_flags_def registerChannelFlags_def)
  moreover have "build_file demo_meta () demo_flags = [HFSChannel (FileSink ''x'') demo_meta ()]"
    by (simp add: build_file_def demo_flags_def registerChannelFlags_def)
  moreover have "ParseEvidenceMode demo_sinks (f_evidence demo_flags) = Some ()" by (simp add: demo_sinks_def)
  ultimately show ?thesis by (simp add: build_def)
qed

lemma build_covers_settings_witness:
  "filter (\<lambda>d. d \<noteq> []) [f_webhook demo_flags, f_syslogAddr demo_flags, f_exportFile demo_flags, f_hecURL demo_flags]
     = [''h'', ''x'']"
  using build_covers_settings [OF demo_build] by simp

subsection \<open>Start-up\<close>

text \<open>
  Restoring the saved domains: each is added to the scheduler, which is not started yet; one that
  the collector refuses is reported and skipped.
\<close>

fun restore :: "gostring \<Rightarrow> gostring list \<Rightarrow> 'w sched \<Rightarrow> 'w \<Rightarrow> 'w sched \<times> 'w" where
  "restore m [] sc w = (sc, w)"
| "restore m (raw # rest) sc w = (let (_, sc, w, _) = AddTarget m raw sc w in restore m rest sc w)"

text \<open>
  From the database on: registration, restoration, the dashboard, and the start of the scheduler, which
  \<open>main\<close> reaches a little later, after the dispatcher is bound and signals are caught. The collector
  is \<open>col\<close>; \<open>file\<close> is the content of the license file.
\<close>

definition boot ::
  "license_lib \<Rightarrow> 'w collector \<Rightarrow> ('w, 'o) server \<Rightarrow> sqldb \<Rightarrow> 'w \<Rightarrow> gostring option \<Rightarrow> instant \<Rightarrow>
   goerror + 'w web" where
  "boot L col sv st w file now =
     (case Register col (sched_New zero_config) of
        (Some e, _) \<Rightarrow> Inl e
      | (None, sc) \<Rightarrow>
          (let m = module_ID (Describe col);
               (saved, st) = sql_ListSavedTargets m st;
               (sc, w) = (case saved of Inl _ \<Rightarrow> (sc, w) | Inr raws \<Rightarrow> restore m raws sc w);
               s = NewServer L sv st sc w file now
           in case sched_Start False (web_sched s) of
                (Some e, _) \<Rightarrow> Inl e
              | (None, sc, _) \<Rightarrow> Inr (s\<lparr>web_sched := sc\<rparr>)))"

lemma restore_ok: "sched_ok sc \<Longrightarrow> restore m raws sc w = (sc', w') \<Longrightarrow> sched_ok sc'"
proof (induction m raws sc w rule: restore.induct)
  case (2 m raw rest sc w)
  obtain x sc1 w1 js where add: "AddTarget m raw sc w = (x, sc1, w1, js)"
    by (cases "AddTarget m raw sc w") auto
  have "sched_ok sc1" using sched_ok_AddTarget [OF 2(2), of m raw w] add by simp
  with 2 add show ?case by simp
qed simp

text \<open>Adding a known module's target, when the collector accepts it.\<close>

lemma AddTarget_accepts:
  assumes "map_of (modules sc) m = Some reg" "coll_Validate (reg_collector reg) raw w = (Inr t, w1)"
  shows "\<exists>sc' js reg'. AddTarget m raw sc w = (Inr t, sc', w1, js)
    \<and> registered sc' m = (registered sc m)(Canonical t \<mapsto> t)
    \<and> map_of (modules sc') m = Some reg' \<and> reg_collector reg' = reg_collector reg"
proof -
  obtain x sc' w' js where run: "AddTarget m raw sc w = (x, sc', w', js)"
    by (cases "AddTarget m raw sc w") auto
  then have "x = Inr t" "w' = w1"
    "map_of (modules sc') m = Some (reg\<lparr>reg_targets := AList.update (Canonical t) t (reg_targets reg)\<rparr>)"
    using assms by (auto simp: AddTarget_def map_of_update)
  with registered_AddTarget [OF run] run show ?thesis by auto
qed

text \<open>
  What the collector must do for saved targets to come back: in the worlds that satisfy \<open>ok\<close>, it accepts
  each saved spelling for the same canonical form, and leaves such a world.
\<close>

definition accepts_saved :: "'w collector \<Rightarrow> ('w \<Rightarrow> bool) \<Rightarrow> (gostring \<times> gostring) list \<Rightarrow> bool" where
  "accepts_saved col ok ps \<longleftrightarrow>
     (\<forall>p w. p \<in> set ps \<longrightarrow> ok w \<longrightarrow>
        (\<exists>t w'. coll_Validate col (fst p) w = (Inr t, w') \<and> Canonical t = snd p \<and> ok w'))"

lemma restore_registers:
  assumes "map_of (modules sc) m = Some reg" "ok w" "accepts_saved (reg_collector reg) ok ps"
    and "restore m (map fst ps) sc w = (sc', w')"
  shows "dom (registered sc' m) = dom (registered sc m) \<union> snd ` set ps \<and> ok w'
    \<and> (\<exists>reg'. map_of (modules sc') m = Some reg' \<and> reg_collector reg' = reg_collector reg)"
  using assms
proof (induction ps arbitrary: sc w reg)
  case (Cons p ps)
  obtain t w1 where v: "coll_Validate (reg_collector reg) (fst p) w = (Inr t, w1)" "Canonical t = snd p" "ok w1"
    using Cons.prems(2,3) unfolding accepts_saved_def by (meson list.set_intros(1))
  from AddTarget_accepts [OF Cons.prems(1) v(1)] obtain sc1 js reg1 where
    add: "AddTarget m (fst p) sc w = (Inr t, sc1, w1, js)" "registered sc1 m = (registered sc m)(Canonical t \<mapsto> t)"
    "map_of (modules sc1) m = Some reg1" "reg_collector reg1 = reg_collector reg" by blast
  have rest: "restore m (map fst ps) sc1 w1 = (sc', w')" using Cons.prems(4) add(1) by simp
  have "accepts_saved (reg_collector reg1) ok ps"
    using Cons.prems(3) unfolding add(4) by (simp add: accepts_saved_def)
  from Cons.IH [OF add(3) v(3) this rest] add(2,4) v(2) show ?case by auto
qed simp

lemma boot_restores:
  assumes "module_ID (Describe col) \<noteq> []" "sv_Module sv = Describe col"
    and "sql_targets_good st" "faults st = []"
    and "ok w" "accepts_saved col ok (sql_targets_of st (module_ID (Describe col)))"
  shows "\<exists>s. boot L col sv st w keyfile now = Inr s \<and> sched_ok (web_sched s) \<and> web_db s = st \<and> ok (web_world s)
    \<and> dom (registered (web_sched s) (module_ID (Describe col))) = snd ` set (sql_targets_of st (module_ID (Describe col)))
    \<and> (\<exists>reg. map_of (modules (web_sched s)) (module_ID (Describe col)) = Some reg \<and> reg_collector reg = col)"
proof -
  let ?m = "module_ID (Describe col)"
  let ?reg = "\<lparr>reg_collector = col, reg_info = Describe col, reg_targets = []\<rparr>"
  let ?ps = "sql_targets_of st ?m"
  obtain sc where reg: "Register col (sched_New zero_config) = (None, sc)"
    and sc: "modules sc = [(?m, ?reg)]" "started sc = False"
    using assms(1) by (auto simp: Register_def sched_New_def Let_def)
  have saved: "sql_ListSavedTargets ?m st = (Inr (map fst ?ps), st)"
    by (simp add: sql_ListSavedTargets_def no_faults [OF assms(4)] sql_targets_of_def)
  obtain sc1 w1 where res: "restore ?m (map fst ?ps) sc w = (sc1, w1)"
    by (cases "restore ?m (map fst ?ps) sc w")
  have ok: "sched_ok sc" using sched_ok_Register [OF sched_ok_New, of col zero_config] reg by simp
  have look: "map_of (modules sc) ?m = Some ?reg" using sc by simp
  have "accepts_saved (reg_collector ?reg) ok ?ps" using assms(6) by simp
  note restored = restore_registers [OF look assms(5) this res]
  moreover have "registered sc ?m = Map.empty" using look by (simp add: registered_def)
  moreover have "started sc1 = False"
  proof -
    have "started (fst (restore m raws s v)) = started s" for m raws and s :: "'a sched" and v
    proof (induction m raws s v rule: restore.induct)
      case (2 m raw rest s v)
      obtain x s' v' js where add: "AddTarget m raw s v = (x, s', v', js)" by (cases "AddTarget m raw s v") auto
      then have "started s' = started s"
        by (auto simp: AddTarget_def split: option.splits prod.splits sum.splits)
      with 2 add show ?case by simp
    qed simp
    from this [of ?m "map fst ?ps" sc w] sc(2) res show ?thesis by simp
  qed
  moreover have "sched_ok (sc1\<lparr>started := True, ctx_done := Some False\<rparr>)"
    using restore_ok [OF ok res] by (simp add: sched_ok_def)
  moreover have "registered (sc1\<lparr>started := True, ctx_done := Some False\<rparr>) ?m = registered sc1 ?m"
    by (simp add: registered_def)
  ultimately show ?thesis
    using reg saved res by (simp add: boot_def Let_def NewServer_def sched_Start_def)
qed

end
