(* ===== verification/Restart.thy ===== *)
theory Restart
  imports CmdAsm
begin

section \<open>Stopping and starting again\<close>

text \<open>
  What a restart brings back. The dashboard saves the raw spelling of an accepted target with its
  canonical form; at the next start the collector validates the raw spelling again. The locale
  states what a collector must promise for that to work: that what it accepted once it accepts
  again, for the same canonical form, in every later world that answers.
\<close>

locale steady_collector =
  fixes col :: "'w collector"
    and list_challenges :: "gostring \<Rightarrow> 'w \<Rightarrow> (goerror + challenge list) \<times> 'w"
    and later :: "'w \<Rightarrow> 'w \<Rightarrow> bool"
    and answers :: "'w \<Rightarrow> bool"
  assumes later_trans: "later u v \<Longrightarrow> later v w \<Longrightarrow> later u w"
    and later_refl: "later w w"
    and validate_later: "answers w \<Longrightarrow> coll_Validate col raw w = (r, w') \<Longrightarrow> later w w' \<and> answers w'"
    and list_later: "answers w \<Longrightarrow> list_challenges m w = (x, w') \<Longrightarrow> later w w' \<and> answers w'"
    and validate_raw: "coll_Validate col raw w = (Inr t, w') \<Longrightarrow> Raw t = raw"
    and validate_again: "answers w \<Longrightarrow> coll_Validate col raw w = (Inr t, w') \<Longrightarrow> later w' u \<Longrightarrow> answers u \<Longrightarrow>
        \<exists>t' u'. coll_Validate col raw u = (Inr t', u') \<and> Canonical t' = Canonical t"

text \<open>
  The life of the program: requests in any order, in between whatever scans do to the findings and to
  the collector's world, and restarts on the database it left.
\<close>

inductive lives :: "'w collector \<Rightarrow> ('w \<Rightarrow> 'w \<Rightarrow> bool) \<Rightarrow> ('w \<Rightarrow> bool) \<Rightarrow> ('w, 'o) server \<Rightarrow> 'w web \<Rightarrow> 'w web \<Rightarrow> bool"
  for col later answers sv s where
  up: "lives col later answers sv s s"
| asked: "lives col later answers sv s u \<Longrightarrow> Handler (E :: ('o, gostring) env) sv q u = (r, u', js) \<Longrightarrow>
     lives col later answers sv s u'"
| scanned: "lives col later answers sv s u \<Longrightarrow> later (web_world u) w \<Longrightarrow> answers w \<Longrightarrow> sql_good d \<Longrightarrow>
     targets d = targets (web_db u) \<Longrightarrow> faults d = faults (web_db u) \<Longrightarrow>
     lives col later answers sv s (u\<lparr>web_db := d, web_world := w\<rparr>)"
| restarted: "lives col later answers sv s u \<Longrightarrow> later (web_world u) w \<Longrightarrow> answers w \<Longrightarrow>
     boot L col sv (web_db u) w keyfile now = Inr u' \<Longrightarrow> lives col later answers sv s u'"

text \<open>
  The collector is the registered one, and every saved target was accepted by it in an earlier world.
\<close>

definition registered_with :: "'w collector \<Rightarrow> gostring \<Rightarrow> 'w sched \<Rightarrow> bool" where
  "registered_with col m sc \<longleftrightarrow> (\<exists>reg. map_of (modules sc) m = Some reg \<and> reg_collector reg = col)"

definition once_accepted :: "'w collector \<Rightarrow> ('w \<Rightarrow> 'w \<Rightarrow> bool) \<Rightarrow> ('w \<Rightarrow> bool) \<Rightarrow> 'w \<Rightarrow> gostring \<times> gostring \<Rightarrow> bool" where
  "once_accepted col later answers now p \<longleftrightarrow>
     (\<exists>w t w'. answers w \<and> coll_Validate col (fst p) w = (Inr t, w') \<and> Canonical t = snd p \<and> later w' now)"

definition accepting :: "'w collector \<Rightarrow> ('w \<Rightarrow> 'w \<Rightarrow> bool) \<Rightarrow> ('w \<Rightarrow> bool) \<Rightarrow> gostring \<Rightarrow> 'w web \<Rightarrow> bool" where
  "accepting col later answers m s \<longleftrightarrow>
     answers (web_world s) \<and> registered_with col m (web_sched s)
     \<and> (\<forall>p. p \<in> set (sql_targets_of (web_db s) m) \<longrightarrow> once_accepted col later answers (web_world s) p)"

definition steady :: "'w collector \<Rightarrow> ('w \<Rightarrow> 'w \<Rightarrow> bool) \<Rightarrow> ('w \<Rightarrow> bool) \<Rightarrow> ('w, 'o) server \<Rightarrow> 'w web \<Rightarrow> bool" where
  "steady col later answers sv s \<longleftrightarrow>
     web_ok s \<and> saved_follows sv s \<and> accepting col later answers (module_ID (sv_Module sv)) s"

subsection \<open>What one request does to registry, saved targets and world\<close>

lemma RemoveTarget_registered_with:
  "registered_with col m sc \<Longrightarrow> registered_with col m (RemoveTarget m c sc)"
  by (auto simp: registered_with_def RemoveTarget_def map_of_update)

lemma AddTarget_registered_with:
  assumes "AddTarget m raw sc w = (x, sc', w', js)" "registered_with col m sc"
  shows "registered_with col m sc' \<and> (x, w') = coll_Validate col raw w"
  using assms by (auto simp: registered_with_def AddTarget_def map_of_update split: prod.splits sum.splits)

lemma same_targets: "targets d' = targets d \<Longrightarrow> sql_targets_of d' = sql_targets_of d"
  by (simp add: sql_targets_of_def fun_eq_iff)

text \<open>Everything but adding and removing a target: registry and saved targets stay, the world may be listed.\<close>

lemma other_requests_world:
  assumes "Handler E sv q s = (r, s', js)" "\<nexists>b. q = PostTarget b" "\<nexists>c. q = DeleteTarget c"
  shows "web_sched s' = web_sched s \<and> targets (web_db s') = targets (web_db s)"
    and "web_world s' = web_world s
      \<or> (\<exists>f. sv_Verify sv = Some f \<and> web_world s' = snd (f (module_ID (sv_Module sv)) (web_world s)))"
proof -
  show "web_sched s' = web_sched s \<and> targets (web_db s') = targets (web_db s)"
    using assms(1)
  proof (cases rule: Handler_cases)
    case (status b)
    then show ?thesis
      by (auto simp: handleFindingStatus_def only_read_def dest!: only_read_Get Upsert_targets
          split: option.splits prod.splits sum.splits if_splits)
  next
    case (license b)
    then show ?thesis by (auto simp: handleSetLicense_def Let_def split: option.splits if_splits prod.splits)
  qed (use assms(2,3) in \<open>auto simp: same_but_db_def only_read_def\<close>)
  show "web_world s' = web_world s
      \<or> (\<exists>f. sv_Verify sv = Some f \<and> web_world s' = snd (f (module_ID (sv_Module sv)) (web_world s)))"
  proof (cases q)
    case GetVerification
    then show ?thesis using assms(1)
      by (auto simp: Handler_def handleVerification_def split: option.splits prod.splits sum.splits)
  qed (use assms in \<open>auto simp: Handler_def handleSummary_def handleFindings_def handleFindingsExport_def
        handleFindingStatus_def handleListTargets_def handleSetLicense_def handleExplainFinding_def Let_def
        split: prod.splits sum.splits option.splits if_splits\<close>)
qed

text \<open>Adding a target: the collector's answer, and what becomes of it.\<close>

lemma add_request:
  assumes "handleAddTarget sv b s = (r, s', js)"
    and "registered_with col (module_ID (sv_Module sv)) (web_sched s)"
  obtains (kept) "web_sched s' = web_sched s" "web_db s' = web_db s" "web_world s' = web_world s"
  | (asked) raw x where "coll_Validate col raw (web_world s) = (x, web_world s')"
      "registered_with col (module_ID (sv_Module sv)) (web_sched s')"
      "web_db s' = (case x of Inl e \<Rightarrow> web_db s | Inr t \<Rightarrow>
         if sv_Targets sv then snd (sql_SaveTarget (module_ID (sv_Module sv)) (Raw t) (Canonical t) (web_db s)) else web_db s)"
proof -
  let ?m = "module_ID (sv_Module sv)"
  show thesis
  proof (cases "\<exists>raw. b = Some raw \<and> canAdd (effLimits sv s) (int (length (ListTargets ?m (web_sched s))))")
    case False
    then show thesis using kept assms(1) by (auto simp: handleAddTarget_def Let_def split: option.splits)
  next
    case True
    then obtain raw where raw: "b = Some raw" "canAdd (effLimits sv s) (int (length (ListTargets ?m (web_sched s))))"
      by blast
    obtain x sc w js' where run: "AddTarget ?m raw (web_sched s) (web_world s) = (x, sc, w, js')"
      by (cases "AddTarget ?m raw (web_sched s) (web_world s)") auto
    have "web_sched s' = sc \<and> web_world s' = w \<and> web_db s' = (case x of Inl e \<Rightarrow> web_db s | Inr t \<Rightarrow>
         if sv_Targets sv then snd (sql_SaveTarget ?m (Raw t) (Canonical t) (web_db s)) else web_db s)"
    proof (cases x)
      case (Inl e)
      then show ?thesis using assms(1) raw run by (auto simp: handleAddTarget_def)
    next
      case (Inr t)
      obtain y d where save: "sql_SaveTarget ?m (Raw t) (Canonical t) (web_db s) = (y, d)"
        by (cases "sql_SaveTarget ?m (Raw t) (Canonical t) (web_db s)")
      have "fst (snd (handleAddTarget sv b s)) = s\<lparr>web_sched := sc, web_world := w,
          web_db := if sv_Targets sv then d else web_db s\<rparr>"
        unfolding handleAddTarget_def raw(1) using raw(2)
        by (simp add: Let_def run Inr save split: option.split)
      then show ?thesis using assms(1) Inr save by auto
    qed
    with AddTarget_registered_with [OF run assms(2)] show thesis by (intro asked [of raw x]) simp_all
  qed
qed

subsection \<open>A steady collector\<close>

context steady_collector
begin

lemma once_accepted_later:
  "once_accepted col later answers w p \<Longrightarrow> later w u \<Longrightarrow> once_accepted col later answers u p"
  unfolding once_accepted_def using later_trans by blast

lemma saved_once_accepted:
  assumes "sql_targets_good d" "faults d = []" "answers w" "coll_Validate col raw w = (Inr t, w')"
    and "p \<in> set (sql_targets_of (snd (sql_SaveTarget m (Raw t) (Canonical t) d)) m)"
    and "\<And>p. p \<in> set (sql_targets_of d m) \<Longrightarrow> once_accepted col later answers w p"
  shows "once_accepted col later answers w' p"
proof -
  have "sql_SaveTarget m (Raw t) (Canonical t) d = (None, snd (sql_SaveTarget m (Raw t) (Canonical t) d))"
    using targets_statement_succeeds(1) [OF assms(2)] by (simp add: prod_eq_iff)
  with sql_t.save_content [OF assms(1)] assms(5) have "p \<in> set (sql_targets_of d m) \<or> p = (Raw t, Canonical t)"
    by (auto split: if_splits)
  then show ?thesis
  proof
    assume "p \<in> set (sql_targets_of d m)"
    then show ?thesis using assms(6) once_accepted_later validate_later [OF assms(3,4)] by blast
  next
    assume "p = (Raw t, Canonical t)"
    then show ?thesis using assms(3,4) validate_raw [OF assms(4)] later_refl
      unfolding once_accepted_def by fastforce
  qed
qed

lemma other_request_accepting:
  assumes acc: "accepting col later answers m s"
    and ver: "\<And>f. sv_Verify sv = Some f \<Longrightarrow> f = list_challenges"
    and run: "Handler E sv q s = (r, s', js)" and q: "\<nexists>b. q = PostTarget b" "\<nexists>c. q = DeleteTarget c"
  shows "accepting col later answers m s'"
proof -
  have ans: "answers (web_world s)" using acc by (simp add: accepting_def)
  have "later (web_world s) (web_world s') \<and> answers (web_world s')"
    using other_requests_world(2) [OF run q] ver list_later [OF ans] later_refl ans by (metis prod.collapse)
  with acc once_accepted_later other_requests_world(1) [OF run q] show ?thesis
    unfolding accepting_def by (metis same_targets)
qed

lemma add_accepting:
  assumes acc: "accepting col later answers (module_ID (sv_Module sv)) s" and saves: "sv_Targets sv"
    and good: "sql_targets_good (web_db s)" "faults (web_db s) = []"
    and run: "handleAddTarget sv b s = (r, s', js)"
  shows "accepting col later answers (module_ID (sv_Module sv)) s'"
proof -
  let ?m = "module_ID (sv_Module sv)"
  have ans: "answers (web_world s)" and reg: "registered_with col ?m (web_sched s)"
    and old: "\<And>p. p \<in> set (sql_targets_of (web_db s) ?m) \<Longrightarrow> once_accepted col later answers (web_world s) p"
    using acc unfolding accepting_def by blast+
  from run reg show ?thesis
  proof (cases rule: add_request)
    case kept
    then show ?thesis using acc by (simp add: accepting_def)
  next
    case (asked raw x)
    have next_world: "later (web_world s) (web_world s')" "answers (web_world s')"
      using validate_later [OF ans asked(1)] by auto
    have "once_accepted col later answers (web_world s') p" if "p \<in> set (sql_targets_of (web_db s') ?m)" for p
    proof (cases x)
      case (Inl e)
      then show ?thesis using that old asked(3) once_accepted_later [OF _ next_world(1)] by simp
    next
      case (Inr t)
      show ?thesis
        by (rule saved_once_accepted [OF good ans asked(1) [unfolded Inr]])
          (use that old asked(3) Inr saves in simp_all)
    qed
    then show ?thesis using next_world(2) asked(2) by (simp add: accepting_def)
  qed
qed

lemma remove_accepting:
  assumes acc: "accepting col later answers (module_ID (sv_Module sv)) s" and saves: "sv_Targets sv"
    and good: "sql_targets_good (web_db s)" "faults (web_db s) = []"
    and run: "handleRemoveTarget sv c s = (r, s')"
  shows "accepting col later answers (module_ID (sv_Module sv)) s'"
proof -
  let ?m = "module_ID (sv_Module sv)"
  have "sql_DeleteTarget ?m c (web_db s) = (None, snd (sql_DeleteTarget ?m c (web_db s)))"
    using targets_statement_succeeds(2) [OF good(2)] by (simp add: prod_eq_iff)
  from sql_t.delete_content [OF good(1) this]
  have "set (sql_targets_of (web_db s') ?m) \<subseteq> set (sql_targets_of (web_db s) ?m)"
    using run saves by (auto simp: handleRemoveTarget_def Let_def split: if_splits)
  moreover have "registered_with col ?m (web_sched s)" using acc by (simp add: accepting_def)
  then have "web_world s' = web_world s" "registered_with col ?m (web_sched s')"
    using run RemoveTarget_registered_with by (auto simp: handleRemoveTarget_def Let_def split: if_splits)
  ultimately show ?thesis using acc by (auto simp: accepting_def)
qed

lemma steady_request:
  assumes inv: "steady col later answers sv s" and saves: "sv_Targets sv"
    and ver: "\<And>f. sv_Verify sv = Some f \<Longrightarrow> f = list_challenges"
    and run: "Handler E sv q s = (r, s', js)"
  shows "steady col later answers sv s'"
proof -
  from inv have ok: "web_ok s" and fol: "saved_follows sv s"
    and acc: "accepting col later answers (module_ID (sv_Module sv)) s" by (simp_all add: steady_def)
  have good: "sql_targets_good (web_db s)" "faults (web_db s) = []"
    using ok fol by (simp_all add: web_ok_def saved_follows_def)
  have "accepting col later answers (module_ID (sv_Module sv)) s'"
  proof (cases "(\<exists>b. q = PostTarget b) \<or> (\<exists>c. q = DeleteTarget c)")
    case False
    then show ?thesis using other_request_accepting [OF acc ver run] by blast
  next
    case True
    then show ?thesis
      using run add_accepting [OF acc saves good] remove_accepting [OF acc saves good]
      by (auto simp: Handler_def split: prod.splits)
  qed
  then show ?thesis
    using Handler_keeps_web_ok [OF ok run] saved_follows_step [OF ok saves fol run] by (simp add: steady_def)
qed

text \<open>
  What comes back after a restart in any later world: exactly the targets registered before, and the
  invariant, so that the same holds for every restart after it.
\<close>

lemma restart_resumes:
  assumes "steady col later answers sv u" "later (web_world u) w" "answers w"
    and "sv_Module sv = Describe col" "module_ID (Describe col) \<noteq> []"
  shows "\<exists>s'. boot L col sv (web_db u) w keyfile now = Inr s'
    \<and> dom (registered (web_sched s') (module_ID (sv_Module sv))) = dom (registered (web_sched u) (module_ID (sv_Module sv)))
    \<and> steady col later answers sv s'"
proof -
  let ?m = "module_ID (Describe col)"
  let ?ok = "\<lambda>v. answers v \<and> later (web_world u) v"
  from assms(1) have inv: "web_ok u" "saved_follows sv u"
    and acc: "\<And>p. p \<in> set (sql_targets_of (web_db u) ?m) \<Longrightarrow> once_accepted col later answers (web_world u) p"
    using assms(4) by (auto simp: steady_def accepting_def)
  have "accepts_saved col ?ok (sql_targets_of (web_db u) ?m)"
    unfolding accepts_saved_def
  proof (intro allI impI)
    fix p v
    assume p: "p \<in> set (sql_targets_of (web_db u) ?m)" and v: "?ok v"
    obtain w0 t w1 where "answers w0" "coll_Validate col (fst p) w0 = (Inr t, w1)" "Canonical t = snd p" "later w1 (web_world u)"
      using acc [OF p] by (auto simp: once_accepted_def)
    with validate_again [of w0 "fst p" t w1 v] later_trans [of w1 "web_world u" v] v obtain t' v' where
      again: "coll_Validate col (fst p) v = (Inr t', v')" "Canonical t' = snd p" by auto
    with validate_later [OF _ again(1)] v later_trans
    show "\<exists>t w'. coll_Validate col (fst p) v = (Inr t, w') \<and> Canonical t = snd p \<and> ?ok w'" by blast
  qed
  moreover have "sql_targets_good (web_db u)" "faults (web_db u) = []"
    using inv by (simp_all add: web_ok_def saved_follows_def)
  ultimately obtain s' where s': "boot L col sv (web_db u) w keyfile now = Inr s'" "sched_ok (web_sched s')"
    "web_db s' = web_db u" "?ok (web_world s')"
    "dom (registered (web_sched s') ?m) = snd ` set (sql_targets_of (web_db u) ?m)"
    "registered_with col ?m (web_sched s')"
    using boot_restores [OF assms(5,4), of "web_db u" ?ok w L keyfile now] assms(2,3)
    unfolding registered_with_def by blast
  have same: "dom (registered (web_sched s') ?m) = dom (registered (web_sched u) ?m)"
    using inv(2) s'(5) assms(4) by (simp add: saved_follows_def saved_canonicals_def)
  have "\<forall>p. p \<in> set (sql_targets_of (web_db s') ?m) \<longrightarrow> once_accepted col later answers (web_world s') p"
    using acc once_accepted_later s'(3,4) by metis
  with s' inv same assms(4) have "steady col later answers sv s'"
    by (simp add: steady_def accepting_def web_ok_def saved_follows_def saved_canonicals_def)
  with s'(1) same assms(4) show ?thesis by auto
qed

lemma steady_lives:
  assumes "lives col later answers sv s u" "steady col later answers sv s" "sv_Targets sv"
    and "\<And>f. sv_Verify sv = Some f \<Longrightarrow> f = list_challenges"
    and "sv_Module sv = Describe col" "module_ID (Describe col) \<noteq> []"
  shows "steady col later answers sv u"
  using assms(1)
proof (induction rule: lives.induct)
  case up
  then show ?case by (rule assms(2))
next
  case (asked u E q r u' js)
  show ?case by (rule steady_request [OF asked.IH assms(3,4) asked.hyps(2)])
next
  case (scanned u w d)
  have "sql_targets_of d = sql_targets_of (web_db u)" by (rule same_targets [OF scanned.hyps(5)])
  with scanned once_accepted_later [of "web_world u"] show ?case
    by (simp add: steady_def accepting_def web_ok_def saved_follows_def saved_canonicals_def sql_targets_good_def)
next
  case (restarted u w L keyfile now u')
  from restart_resumes [OF restarted.IH restarted.hyps(2,3) assms(5,6), of L keyfile now] restarted.hyps(4)
  show ?case by auto
qed

text \<open>The first start, on a database without saved targets.\<close>

lemma first_start:
  assumes "boot L col sv d w keyfile now = Inr s" "targets d = []" "faults d = []" "sql_good d" "answers w"
    and "sv_Module sv = Describe col" "module_ID (Describe col) \<noteq> []"
  shows "steady col later answers sv s"
proof -
  let ?m = "module_ID (Describe col)"
  have none: "sql_targets_of d ?m = []" "sql_targets_good d"
    using assms(2) by (simp_all add: sql_targets_of_def sql_targets_good_def)
  have "accepts_saved col answers (sql_targets_of d ?m)" by (simp add: accepts_saved_def none(1))
  from boot_restores [OF assms(7,6) none(2) assms(3,5) this, of L keyfile now] assms(1)
  have s: "sched_ok (web_sched s)" "web_db s = d" "answers (web_world s)"
    "dom (registered (web_sched s) ?m) = snd ` set (sql_targets_of d ?m)" "registered_with col ?m (web_sched s)"
    by (auto simp: registered_with_def)
  with assms(3,4,6) none show ?thesis
    by (simp add: steady_def accepting_def web_ok_def saved_follows_def saved_canonicals_def)
qed

end

end
