(* ===== verification/AsmSystem.thy ===== *)
theory AsmSystem
  imports Restart ReconcileSqlite
begin

section \<open>The collector, the engine and the scheduler together\<close>

text \<open>
  The binary's wiring: the collector over the challenge database, registered with the scheduler,
  whose scans go to the reconcile engine over the findings database. The world a scan acts on is
  both databases, the position of the id generator, and a count of the collector's calls, by which
  each call reads its own clock and its own random bytes.
\<close>

record world =
  sys_challenges :: vdb
  sys_findings :: sqldb
  sys_ids :: nat
  sys_calls :: nat

text \<open>The interface value \<open>main\<close> registers: the three operations of \<open>ASM\<close> over the world.\<close>

definition asm_module :: "(nat \<Rightarrow> goerror + gostring) \<Rightarrow> (nat \<Rightarrow> instant) \<Rightarrow> asm \<Rightarrow> world collector" where
  "asm_module entropy clk a =
     \<lparr>Describe = asm_Describe,
      coll_Validate = (\<lambda>raw w.
        let k = sys_calls w;
            (r, v) = ValidateTarget vsql_Get vsql_Put (entropy k) (clk k) raw (sys_challenges w)
        in (r, w\<lparr>sys_challenges := v, sys_calls := Suc k\<rparr>)),
      coll_Collect = (\<lambda>t w.
        let k = sys_calls w in
        case Collect vsql_Get vsql_Put a (clk k) t (sys_challenges w) of
          (Inl e, v, _) \<Rightarrow> (Inl (ScanFailed e), w\<lparr>sys_challenges := v, sys_calls := Suc k\<rparr>)
        | (Inr fs, v, _) \<Rightarrow> (Inr fs, w\<lparr>sys_challenges := v, sys_calls := Suc k\<rparr>))\<rparr>"

text \<open>The store the dashboard lists the challenges from.\<close>

definition asm_challenges :: "gostring \<Rightarrow> world \<Rightarrow> (goerror + challenge list) \<times> world" where
  "asm_challenges m w = (let (x, v) = vsql_List m (sys_challenges w) in (x, w\<lparr>sys_challenges := v\<rparr>))"

text \<open>The engine \<open>main\<close> builds on the findings database.\<close>

definition asm_engine ::
  "(instant \<Rightarrow> nat \<Rightarrow> goerror + gostring) \<Rightarrow> instant \<Rightarrow> module_info \<Rightarrow> gostring \<Rightarrow> finding list \<Rightarrow>
   world \<Rightarrow> (goerror + reconcile_result) \<times> world" where
  "asm_engine newID now mi tgt fresh w =
     (case sql_reconcile newID mi tgt now fresh (sys_findings w) (sys_ids w) of
        (Some e, st) \<Rightarrow> (Inl e, w\<lparr>sys_findings := db st, sys_ids := drawn st\<rparr>)
      | (None, st) \<Rightarrow> (Inr (res st), w\<lparr>sys_findings := db st, sys_ids := drawn st\<rparr>))"

definition asm_registration :: "(nat \<Rightarrow> goerror + gostring) \<Rightarrow> (nat \<Rightarrow> instant) \<Rightarrow> asm \<Rightarrow> world registration" where
  "asm_registration entropy clk a =
     \<lparr>reg_collector = asm_module entropy clk a, reg_info = asm_Describe, reg_targets = []\<rparr>"

abbreviation asm_scan where
  "asm_scan newID entropy clk now a \<equiv> scanOne (asm_engine newID now) (asm_registration entropy clk a) None"

lemma asm_scan_collect_error:
  assumes "Collect vsql_Get vsql_Put a (clk (sys_calls w)) t (sys_challenges w) = (Inl e, v, tr)"
  shows "asm_scan newID entropy clk now a t w =
    (Some (ScanFailed e), None, w\<lparr>sys_challenges := v, sys_calls := Suc (sys_calls w)\<rparr>)"
  using assms by (simp add: scanOne_def asm_registration_def asm_module_def)

lemma asm_scan_collected:
  assumes "Collect vsql_Get vsql_Put a (clk (sys_calls w)) t (sys_challenges w) = (Inr fs, v, tr)"
    and "asm_scan newID entropy clk now a t w = (err, Some x, w')"
  shows "\<exists>st. sql_reconcile newID asm_Describe (Canonical t) now fs (sys_findings w) (sys_ids w) = (None, st)
    \<and> result_Reconcile x = res st \<and> sys_findings w' = db st \<and> err = None"
  using assms
  by (auto simp: scanOne_def asm_registration_def asm_module_def asm_engine_def split: prod.splits option.splits)

lemma Reconcile_rejected:
  assumes "Reconcile lst ups newID mi tgt now fresh s n = (None, st)"
  shows "reconcile_result.Rejected (res st) = rejections fresh"
proof -
  obtain existing s1 st1 where
    fresh: "reconcile_fresh ups newID mi now (by_fingerprint existing) fresh
        \<lparr>res = empty_result, seen = [], db = s1, drawn = n\<rparr> = (None, st1)"
    and absent: "reconcile_absent ups mi now existing st1 = (None, st)"
    using assms by (auto simp: Reconcile_def reconcile_with_def split: prod.splits sum.splits option.splits)
  from reconcile_fresh_report(1) [OF fresh] reconcile_absent_report [OF absent]
  show ?thesis by (simp add: empty_result_def)
qed

lemma Collect_well_formed:
  assumes "asm_sound a" "Canonical t \<noteq> []" "Collect get put a now t s = (Inr fs, s', tr)" "f \<in> set fs"
  shows "well_formed f \<and> target f = Canonical t"
proof -
  have "fs = [] \<or> (\<exists>as. fs = fst (scan_assets a (Canonical t) as))"
    using assms(3)
    by (auto simp: Collect_def Let_def split: sum.splits option.splits prod.splits if_splits) (metis fst_conv)+
  then show ?thesis using scan_assets_ok [OF assms(1,2)] assms(4) by auto
qed

text \<open>
  (C6) One scan, from the collector to the database. When the collection fails the findings are not
  touched and nothing is reported, so a failed scan never resolves a finding. When it succeeds the
  engine rejects none of the collector's findings. And when the domain may not be probed, because
  its ownership is not proved, the scan still counts as one that found nothing: it opens nothing,
  and every live finding of the domain comes one scan closer to resolution, or is resolved and
  reported so, without having been looked for.
\<close>

theorem asm_scan_end_to_end:
  assumes "asm_sound a" "Canonical t \<noteq> []" "vsql_good (sys_challenges w)" "sql_good (sys_findings w)"
    and "asm_scan newID entropy clk now a t w = (err, rep, w')"
  shows "(\<forall>e. fst (Collect vsql_Get vsql_Put a (clk (sys_calls w)) t (sys_challenges w)) = Inl e \<longrightarrow>
            err \<noteq> None \<and> rep = None \<and> sys_findings w' = sys_findings w)
    \<and> (\<forall>x. rep = Some x \<longrightarrow> err = None \<and> reconcile_result.Rejected (result_Reconcile x) = [])
    \<and> (\<forall>x. rep = Some x \<longrightarrow> \<not> may_probe (Verifier a) (vsql_held (sys_challenges w) moduleID (Canonical t)) \<longrightarrow>
          NewlyOpen (result_Reconcile x) = []
          \<and> set (Resolved (result_Reconcile x)) =
              {finding_of (absent_record asm_Describe now r) | r fp.
                 sql_lookup (sys_findings w) (moduleID, fp) = Some r \<and> target r = Canonical t
                 \<and> \<not> leave_absent r \<and> absentStreak r + 1 \<ge> ResolveAfterOrDefault asm_Describe}
          \<and> (\<forall>fp. sql_lookup (sys_findings w') (moduleID, fp) =
                absent_outcome asm_Describe now (Canonical t) (sql_lookup (sys_findings w) (moduleID, fp))))"
proof -
  let ?now = "clk (sys_calls w)"
  obtain c v tr where col: "Collect vsql_Get vsql_Put a ?now t (sys_challenges w) = (c, v, tr)"
    by (cases "Collect vsql_Get vsql_Put a ?now t (sys_challenges w)") auto
  show ?thesis
  proof (cases c)
    case (Inl e)
    from asm_scan_collect_error [where newID = newID and entropy = entropy and now = now and clk = clk and a = a and w = w, OF col [unfolded Inl]] assms(5) col Inl
    show ?thesis by simp
  next
    case (Inr fs)
    show ?thesis
    proof (cases rep)
      case None
      then show ?thesis using col Inr by simp
    next
      case (Some x)
      obtain st where st: "sql_reconcile newID asm_Describe (Canonical t) now fs (sys_findings w) (sys_ids w) = (None, st)"
        and out: "result_Reconcile x = res st" "sys_findings w' = db st" "err = None"
        using asm_scan_collected [where clk = clk and a = a and w = w, OF col [unfolded Inr] assms(5) [unfolded Some]] by blast
      have "rejections fs = []"
        using Collect_well_formed [OF assms(1,2) col [unfolded Inr]] by (simp add: rejections_def filter_empty_conv)
      then have rej: "reconcile_result.Rejected (res st) = []" using Reconcile_rejected [OF st] by simp
      have id: "module_ID asm_Describe = moduleID" by (simp add: asm_Describe_def)
      have none: "NewlyOpen (res st) = [] \<and> set (Resolved (res st)) =
              {finding_of (absent_record asm_Describe now r) | r fp.
                 sql_lookup (sys_findings w) (moduleID, fp) = Some r \<and> target r = Canonical t
                 \<and> \<not> leave_absent r \<and> absentStreak r + 1 \<ge> ResolveAfterOrDefault asm_Describe}
          \<and> (\<forall>fp. sql_lookup (db st) (moduleID, fp) =
                absent_outcome asm_Describe now (Canonical t) (sql_lookup (sys_findings w) (moduleID, fp)))"
        if "\<not> may_probe (Verifier a) (vsql_held (sys_challenges w) moduleID (Canonical t))"
      proof -
        have fs: "fs = []" using vsql.collect_gate(1) [OF col assms(3) TrueI that] Inr by auto
        note R = sql.reconcile_reports [OF st [unfolded fs] assms(4) TrueI]
        note C = sql.reconcile_content [OF st [unfolded fs] assms(4) TrueI]
        show ?thesis using R(2,4) C(4) by (simp add: fresh_of_def id)
      qed
      show ?thesis using none rej out Some col Inr by simp
    qed
  qed
qed


text \<open>A pending domain with one open finding, absent once before: the scan resolves it.\<close>

definition demo_world :: world where
  "demo_world = \<lparr>sys_challenges = demo_vdb StatePending, sys_findings = demo_db StatusOpen 1, sys_ids = 0, sys_calls = 0\<rparr>"

definition demo_run :: "scan_error option \<times> sched_result option \<times> world" where
  "demo_run = asm_scan demo_ids (\<lambda>_. Inr []) (\<lambda>_. 7) 7 demo_asm demo_target demo_world"

lemma demo_unproved:
  "\<not> dns_proof (Verifier demo_asm) (demo_challenge st)" "\<not> http_proof (Verifier demo_asm) (demo_challenge st)"
  by (simp_all add: demo_asm_def dns_proof_def http_proof_def)

lemma demo_run_reports: "\<exists>err x w'. demo_run = (err, Some x, w')"
proof -
  obtain sat m tr where S: "Satisfied (Verifier demo_asm) (demo_challenge StatePending) = (sat, m, tr)"
    by (cases "Satisfied (Verifier demo_asm) (demo_challenge StatePending)") auto
  have sat: "\<not> sat" using Satisfied_fst [of "Verifier demo_asm" "demo_challenge StatePending"] S demo_unproved by simp
  have g: "vsql_Get moduleID ''example.com'' (demo_vdb StatePending) =
      (Inr (Some (demo_challenge StatePending)), demo_vdb StatePending)"
    by (simp add: vsql_Get_def vexec_def demo_vdb_def challenge_row_def demo_challenge_def scanChallenge_def)
  have "State (demo_challenge StatePending) \<noteq> StateVerified"
    by (simp add: demo_challenge_def StatePending_def StateVerified_def)
  then have col: "Collect vsql_Get vsql_Put demo_asm 7 demo_target (demo_vdb StatePending) = (Inr [], demo_vdb StatePending, tr)"
    by (simp add: Collect_def demo_target_def g Let_def S sat)
  have "fst (sql_reconcile demo_ids asm_Describe ''example.com'' 7 [] (demo_db StatusOpen 1) 0) = None"
    by code_simp
  then obtain st where "sql_reconcile demo_ids asm_Describe ''example.com'' 7 [] (demo_db StatusOpen 1) 0 = (None, st)"
    by (metis prod.collapse)
  with col show ?thesis
    by (simp add: demo_run_def scanOne_def asm_registration_def asm_module_def asm_engine_def demo_world_def
        demo_target_def)
qed

lemma asm_scan_end_to_end_witness:
  "map_option status (sql_lookup (sys_findings (snd (snd demo_run))) (moduleID, ''f1'')) = Some StatusResolved"
proof -
  obtain err x w' where run: "demo_run = (err, Some x, w')" using demo_run_reports by blast
  have sound: "asm_sound demo_asm" by (simp add: asm_sound_def demo_asm_def)
  have w: "vsql_good (sys_challenges demo_world)" "sql_good (sys_findings demo_world)"
    by (simp_all add: demo_world_def demo_vdb_good demo_db_good)
  have "Canonical demo_target \<noteq> []" by (simp add: demo_target_def)
  moreover have "\<not> may_probe (Verifier demo_asm) (vsql_held (sys_challenges demo_world) moduleID (Canonical demo_target))"
    using demo_unproved by (simp add: demo_world_def demo_target_def demo_vdb_held may_probe_def)
      (simp add: demo_challenge_def StatePending_def StateVerified_def)
  ultimately have "sql_lookup (sys_findings w') (moduleID, ''f1'') =
      absent_outcome asm_Describe 7 (Canonical demo_target) (sql_lookup (sys_findings demo_world) (moduleID, ''f1''))"
    using asm_scan_end_to_end [OF sound _ w run [unfolded demo_run_def]] by blast
  also have "\<dots> = absent_outcome asm_Describe 7 ''example.com'' (Some (demo_record StatusOpen 1))"
    by (simp add: demo_world_def demo_lookup demo_target_def moduleID_def)
  also have "\<dots> = Some (absent_record asm_Describe 7 (demo_record StatusOpen 1))"
    by (simp add: absent_outcome_def leave_absent_def demo_record_def new_record_def demo_finding_def)
  finally show ?thesis
    by (simp add: run asm_Describe_def ResolveAfterOrDefault_def) (simp add: demo_record_def)
qed

subsection \<open>Restarts of the wired program\<close>

text \<open>
  The collector's world grows: challenges are added and marked, never dropped. It answers when the
  challenge database works and every call to come finds its random bytes.
\<close>

definition asm_later :: "world \<Rightarrow> world \<Rightarrow> bool" where
  "asm_later u w \<longleftrightarrow>
     (\<forall>d. vsql_held (sys_challenges u) moduleID d \<noteq> None \<longrightarrow> vsql_held (sys_challenges w) moduleID d \<noteq> None)"

definition asm_answers :: "(nat \<Rightarrow> goerror + gostring) \<Rightarrow> world \<Rightarrow> bool" where
  "asm_answers entropy w \<longleftrightarrow> vsql_good (sys_challenges w) \<and> v_faults (sys_challenges w) = []
     \<and> (\<forall>k. k \<ge> sys_calls w \<longrightarrow> (\<exists>b. entropy k = Inr b))"

lemma vsql_Get_works: "v_faults d = [] \<Longrightarrow> vsql_Get m dm d = (Inr (vsql_held d m dm), d)"
  by (simp add: vsql_Get_def vexec_def vsql_held_def vkey_def)

lemma vsql_Put_works:
  assumes "v_faults d = []" "vsql_good d"
  shows "\<exists>d'. vsql_Put m c d = (None, d') \<and> v_faults d' = [] \<and> vsql_good d'
    \<and> (\<forall>m' dm. vsql_held d m' dm \<noteq> None \<longrightarrow> vsql_held d' m' dm \<noteq> None)"
proof -
  obtain d' where p: "vsql_Put m c d = (None, d')" "v_faults d' = []"
    using assms(1) by (cases "vsql_Put m c d") (auto simp: vsql_Put_def vexec_def Let_def split: if_splits)
  with vsql_Put_rows [OF assms(2) p(1)] show ?thesis by auto
qed

lemma vsql_List_works:
  assumes "v_faults d = []"
  shows "snd (vsql_List m d) = d"
  using assms by (simp add: vsql_List_def vexec_def)

text \<open>Adding a target and scanning one, on a challenge database that works.\<close>

lemma ValidateTarget_works:
  assumes "v_faults d = []" "vsql_good d" "ValidateTarget vsql_Get vsql_Put entropy now raw d = (r, d')"
  shows "v_faults d' = [] \<and> vsql_good d' \<and> (\<forall>m dm. vsql_held d m dm \<noteq> None \<longrightarrow> vsql_held d' m dm \<noteq> None)"
proof -
  have "d' = d \<or> (\<exists>c. d' = snd (vsql_Put moduleID c d))"
    using assms(3) vsql_Get_works [OF assms(1)]
    by (auto simp: ValidateTarget_def Let_def split: if_splits option.splits sum.splits prod.splits) (metis snd_conv)+
  with assms(1,2) vsql_Put_works [OF assms(1,2), of moduleID] show ?thesis by (metis snd_conv)
qed

lemma Collect_works:
  assumes "v_faults d = []" "vsql_good d" "Collect vsql_Get vsql_Put a now t d = (r, d', tr)"
  shows "v_faults d' = [] \<and> vsql_good d' \<and> (\<forall>m dm. vsql_held d m dm \<noteq> None \<longrightarrow> vsql_held d' m dm \<noteq> None)"
proof -
  have "d' = d \<or> (\<exists>c. d' = snd (vsql_Put moduleID c d))"
    using assms(3) vsql_Get_works [OF assms(1)]
    by (auto simp: Collect_def Let_def split: if_splits option.splits sum.splits prod.splits)
  with assms(1,2) vsql_Put_works [OF assms(1,2), of moduleID] show ?thesis by (metis snd_conv)
qed

text \<open>An input the collector accepted once, it accepts wherever the challenge of its domain is kept.\<close>

lemma ValidateTarget_again:
  assumes "v_faults d = []" "vsql_good d" "ValidateTarget vsql_Get vsql_Put entropy now raw d = (Inr t, d')"
    and "vsql_held d' moduleID (Canonical t) \<noteq> None \<Longrightarrow> vsql_held u moduleID (Canonical t) \<noteq> None"
    and "v_faults u = []" "vsql_good u"
  shows "\<exists>u'. ValidateTarget vsql_Get vsql_Put (Inr b) later_now raw u = (Inr t, u')"
proof -
  let ?d = "asm_normalizeDomain raw"
  let ?t = "\<lparr>Raw = raw, Canonical = ?d, Meta = [(''domain'', ?d)]\<rparr>"
  have guards: "?d \<noteq> []" "\<not> ParseIP_ok ?d" "Contains ?d ''.''"
    using assms(3) by (auto simp: ValidateTarget_def Let_def split: if_splits)
  have t: "t = ?t"
    using assms(3) guards vsql_Get_works [OF assms(1)]
    by (auto simp: ValidateTarget_def Let_def split: option.splits sum.splits prod.splits)
  show ?thesis
  proof (cases "vsql_held u moduleID ?d")
    case (Some c)
    then show ?thesis using guards t vsql_Get_works [OF assms(5)] by (simp add: ValidateTarget_def Let_def)
  next
    case None
    have "vsql_held d' moduleID ?d = None" by (rule ccontr) (use assms(4) None t in auto)
    then have "vsql_held d moduleID ?d = None" using ValidateTarget_works [OF assms(1-3)] by blast
    then have "normalizeDomain ?d \<noteq> []"
      using assms(3) guards vsql_Get_works [OF assms(1)]
      by (auto simp: ValidateTarget_def NewChallenge_def Let_def split: if_splits sum.splits)
    then obtain ch where "NewChallenge (Inr b) ?d later_now = Inr ch" by (simp add: NewChallenge_def Let_def)
    moreover obtain u' where "vsql_Put moduleID ch u = (None, u')" using vsql_Put_works [OF assms(5,6)] by blast
    ultimately show ?thesis using guards t None vsql_Get_works [OF assms(5)] by (simp add: ValidateTarget_def Let_def)
  qed
qed

interpretation asm_col: steady_collector "asm_module entropy clk a" asm_challenges asm_later "asm_answers entropy"
  for entropy clk a
proof (unfold_locales, goal_cases)
  case (1 u v w)
  then show ?case by (simp add: asm_later_def)
next
  case (2 w)
  then show ?case by (simp add: asm_later_def)
next
  case (3 w raw r w')
  obtain v where run: "ValidateTarget vsql_Get vsql_Put (entropy (sys_calls w)) (clk (sys_calls w)) raw (sys_challenges w) = (r, v)"
    and w': "w' = w\<lparr>sys_challenges := v, sys_calls := Suc (sys_calls w)\<rparr>"
    using 3(2) by (auto simp: asm_module_def Let_def split: prod.splits)
  with 3(1) ValidateTarget_works [OF _ _ run] show ?case by (auto simp: asm_answers_def asm_later_def)
next
  case (4 w m x w')
  then have "w' = w"
    using vsql_List_works [of "sys_challenges w" m]
    by (auto simp: asm_answers_def asm_challenges_def Let_def split: prod.splits)
  with 4 show ?case by (simp add: asm_later_def)
next
  case (5 raw w t w')
  then show ?case
    by (auto simp: asm_module_def ValidateTarget_def Let_def split: if_splits option.splits sum.splits prod.splits)
next
  case (6 w raw t w' u)
  let ?k = "sys_calls w" and ?j = "sys_calls u"
  obtain v where run: "ValidateTarget vsql_Get vsql_Put (entropy ?k) (clk ?k) raw (sys_challenges w) = (Inr t, v)"
    and w': "w' = w\<lparr>sys_challenges := v, sys_calls := Suc ?k\<rparr>"
    using 6(2) by (auto simp: asm_module_def Let_def split: prod.splits)
  obtain b where b: "entropy ?j = Inr b" using 6(4) by (auto simp: asm_answers_def)
  have held: "vsql_held v moduleID (Canonical t) \<noteq> None \<Longrightarrow> vsql_held (sys_challenges u) moduleID (Canonical t) \<noteq> None"
    using 6(3) by (simp add: asm_later_def w')
  obtain u' where "ValidateTarget vsql_Get vsql_Put (Inr b) (clk ?j) raw (sys_challenges u) = (Inr t, u')"
    using ValidateTarget_again [OF _ _ run held] 6(1,4) unfolding asm_answers_def by blast
  with b show ?case by (auto simp: asm_module_def Let_def)
qed

text \<open>A scan only moves the world on, so it is one of the steps of the program's life.\<close>

lemma reconcile_fresh_keeps:
  assumes ups: "\<And>r d x d'. ups r d = (x, d') \<Longrightarrow> P d \<Longrightarrow> P d'"
  shows "P (db st) \<Longrightarrow> P (db (snd (reconcile_fresh ups newID mi now byFP fresh st)))"
proof (induction fresh arbitrary: st)
  case (Cons f0 fs)
  then show ?case
    by (auto simp: Let_def dest: ups split: option.splits sum.splits prod.splits if_splits)
qed simp

lemma reconcile_absent_keeps:
  assumes ups: "\<And>r d x d'. ups r d = (x, d') \<Longrightarrow> P d \<Longrightarrow> P d'"
  shows "P (db st) \<Longrightarrow> P (db (snd (reconcile_absent ups mi now existing st)))"
proof (induction existing arbitrary: st)
  case (Cons r0 rs)
  then show ?case
    by (auto simp: Let_def dest: ups split: option.splits prod.splits)
qed simp

lemma sql_reconcile_keeps:
  assumes "sql_reconcile newID mi tgt now fresh d n = (e, st)" "sql_good d" "faults d = []"
  shows "sql_good (db st) \<and> targets (db st) = targets d \<and> faults (db st) = []"
proof -
  let ?P = "\<lambda>d'. sql_good d' \<and> targets d' = targets d \<and> faults d' = []"
  have ups: "\<And>r c x c'. sql_Upsert r c = (x, c') \<Longrightarrow> ?P c \<Longrightarrow> ?P c'"
    using sql_good_Upsert Upsert_targets by metis
  note keeps = reconcile_fresh_keeps [where ups = sql_Upsert and P = ?P, OF ups] reconcile_absent_keeps [where ups = sql_Upsert and P = ?P, OF ups]
  obtain x d1 where lst: "sql_ListByTarget (module_ID mi) tgt d = (x, d1)" by fastforce
  then have "only_read d d1" by (simp add: sql_ListByTarget_def only_read_query)
  then have d1: "?P d1" using assms(2,3) sql_good_tables by (auto simp: only_read_def)
  show ?thesis
  proof (cases x)
    case (Inl e)
    then show ?thesis using assms(1) lst d1 by (auto simp: Reconcile_def)
  next
    case (Inr rows)
    let ?st = "\<lparr>res = empty_result, seen = [], db = d1, drawn = n\<rparr>"
    obtain y st1 where fresh: "reconcile_fresh sql_Upsert newID mi now (by_fingerprint rows) fresh ?st = (y, st1)"
      by fastforce
    have "?P (db st1)" using keeps(1) [where st = ?st and newID = newID and mi = mi and now = now
        and byFP = "by_fingerprint rows" and fresh = fresh] d1 fresh by simp
    with keeps(2) [where st = st1 and mi = mi and now = now and existing = rows] assms(1) lst Inr fresh show ?thesis
      by (cases y) (auto simp: Reconcile_def reconcile_with_def)
  qed
qed

lemma asm_scan_moves_on:
  assumes "asm_answers entropy w" "sql_good (sys_findings w)" "faults (sys_findings w) = []"
    and "asm_scan newID entropy clk now a t w = (err, rep, w')"
  shows "asm_later w w' \<and> asm_answers entropy w' \<and> sql_good (sys_findings w')
    \<and> targets (sys_findings w') = targets (sys_findings w) \<and> faults (sys_findings w') = faults (sys_findings w)"
proof -
  obtain c v tr where col: "Collect vsql_Get vsql_Put a (clk (sys_calls w)) t (sys_challenges w) = (c, v, tr)"
    by (cases "Collect vsql_Get vsql_Put a (clk (sys_calls w)) t (sys_challenges w)") auto
  have v: "v_faults v = [] \<and> vsql_good v \<and>
      (\<forall>m dm. vsql_held (sys_challenges w) m dm \<noteq> None \<longrightarrow> vsql_held v m dm \<noteq> None)"
    using Collect_works [OF _ _ col] assms(1) by (simp add: asm_answers_def)
  have "sys_challenges w' = v \<and> sys_calls w' = Suc (sys_calls w) \<and> (sys_findings w' = sys_findings w
      \<or> (\<exists>fs e st. sql_reconcile newID asm_Describe (Canonical t) now fs (sys_findings w) (sys_ids w) = (e, st)
           \<and> sys_findings w' = db st))"
    using assms(4) col
    by (cases c) (auto simp: Let_def scanOne_def asm_registration_def asm_module_def asm_engine_def
        split: prod.splits option.splits sum.splits, blast+)
  with v assms(1-3) sql_reconcile_keeps show ?thesis
    by (auto simp: asm_later_def asm_answers_def)
qed

lemma asm_scan_lives:
  assumes "lives (asm_module entropy clk a) asm_later (asm_answers entropy) sv s u"
    and "asm_answers entropy (web_world u)" "sql_good (web_db u)" "faults (web_db u) = []"
    and "asm_scan newID entropy clk now a t ((web_world u)\<lparr>sys_findings := web_db u\<rparr>) = (err, rep, w')"
  shows "lives (asm_module entropy clk a) asm_later (asm_answers entropy) sv s (u\<lparr>web_db := sys_findings w', web_world := w'\<rparr>)"
proof -
  have "asm_answers entropy ((web_world u)\<lparr>sys_findings := web_db u\<rparr>)" using assms(2) by (simp add: asm_answers_def)
  from asm_scan_moves_on [OF this _ _ assms(5)] assms(3,4) show ?thesis
    by (intro lives.scanned [OF assms(1)]) (simp_all add: asm_later_def)
qed

text \<open>
  (C8) Restarts lose no target and invent none. Start the program on an empty database and let it
  live: the dashboard serves any requests, scans run, and the program is stopped and started any
  number of times. Started once more on the database it left, with any license file and at any time,
  it comes up and monitors exactly the domains it monitored before, which are the saved ones: the
  collector accepts again every spelling it once accepted. The challenge database and the source of
  random bytes are assumed to work throughout.
\<close>

theorem asm_restart_resumes_targets:
  assumes "boot L0 (asm_module entropy clk a) sv d0 w0 keyfile0 now0 = Inr s"
    and "targets d0 = []" "faults d0 = []" "sql_good d0" "asm_answers entropy w0"
    and "sv_Module sv = asm_Describe" "sv_Targets sv" "sv_Verify sv = Some asm_challenges"
    and "lives (asm_module entropy clk a) asm_later (asm_answers entropy) sv s u"
    and "asm_later (web_world u) w" "asm_answers entropy w"
  shows "\<exists>s'. boot L (asm_module entropy clk a) sv (web_db u) w keyfile now = Inr s'
    \<and> dom (registered (web_sched s') moduleID) = dom (registered (web_sched u) moduleID)
    \<and> dom (registered (web_sched s') moduleID) = snd ` set (sql_targets_of (web_db u) moduleID)"
proof -
  let ?col = "asm_module entropy clk a"
  have mi: "sv_Module sv = Describe ?col" "module_ID (Describe ?col) = moduleID" "module_ID (Describe ?col) \<noteq> []"
    using assms(6) by (simp_all add: asm_module_def asm_Describe_def moduleID_def)
  have "steady ?col asm_later (asm_answers entropy) sv s"
    by (rule asm_col.first_start [OF assms(1-5) mi(1,3)])
  from asm_col.steady_lives [OF assms(9) this assms(7) _ mi(1,3)] assms(8)
  have u: "steady ?col asm_later (asm_answers entropy) sv u" by simp
  obtain s' where s': "boot L ?col sv (web_db u) w keyfile now = Inr s'"
    "dom (registered (web_sched s') moduleID) = dom (registered (web_sched u) moduleID)"
    using asm_col.restart_resumes [OF u assms(10,11) mi(1,3)] mi(1,2) by metis
  moreover have "dom (registered (web_sched u) moduleID) = snd ` set (sql_targets_of (web_db u) moduleID)"
    using u mi(1,2) by (simp add: steady_def saved_follows_def saved_canonicals_def)
  ultimately show ?thesis by auto
qed

text \<open>A first start, one domain added, and a restart.\<close>

definition demo_bytes :: "nat \<Rightarrow> goerror + gostring" where
  "demo_bytes k = Inr (replicate 16 (CHR ''a''))"

definition demo_first :: world where
  "demo_first = \<lparr>sys_challenges = NewSQLiteVerifyStore [], sys_findings = sql_migrate [], sys_ids = 0, sys_calls = 0\<rparr>"

definition demo_product :: "(world, unit) server" where
  "demo_product = \<lparr>sv_Module = asm_Describe, sv_ExportMeta = \<lparr>m_Product = [], m_Version = [], m_Host = []\<rparr>,
     sv_ExportEvidence = (), sv_Targets = True, sv_TierLimits = Some asmTierLimits,
     sv_Verify = Some asm_challenges, sv_IssuerPub = [], sv_LicenseFile = ''key'', sv_AI = None\<rparr>"

definition demo_product_env :: "(unit, gostring) env" where
  "demo_product_env = \<lparr>env_clock = (\<lambda>_. 0), env_ctx = (\<lambda>_. None), env_write = (\<lambda>b. (None, Some b)),
     env_license = demo_lib, env_ai = demo_ai_lib, env_hfs_new = (\<lambda>_ _ _ _ _. []),
     env_hfs_marshal = (\<lambda>_. None)\<rparr>"

definition demo_boot :: "sqldb \<Rightarrow> world \<Rightarrow> goerror + world web" where
  "demo_boot d w = boot demo_lib (asm_module demo_bytes (\<lambda>k. 7) demo_asm) demo_product d w None 0"

definition demo_added :: "world web" where
  "demo_added = fst (snd (Handler demo_product_env demo_product (PostTarget (Some ''example.com''))
     (projr (demo_boot (sql_migrate []) demo_first))))"

lemma demo_free: "act_Tier (Activate demo_lib [] p [] now) = TierFree"
  by (simp add: Activate_def free_activation_def PublicKeySize_def)

lemma demo_boot_starts:
  "\<exists>s. demo_boot (sql_migrate []) demo_first = Inr s \<and> web_db s = sql_migrate [] \<and> web_world s = demo_first
    \<and> canAdd (effLimits demo_product s) (int (length (ListTargets moduleID (web_sched s))))
    \<and> registered_with (asm_module demo_bytes (\<lambda>k. 7) demo_asm) moduleID (web_sched s)"
  by (simp add: demo_boot_def boot_def Register_def sched_New_def Let_def sql_ListSavedTargets_def
      no_faults sql_migrate_def sched_Start_def NewServer_def asm_module_def asm_Describe_def moduleID_def
      demo_product_def effLimits_def initial_activation_def demo_free asmTierLimits_def canAdd_def
      ListTargets_def snapshotTargets_def registered_with_def)

lemma demo_first_answers: "asm_answers demo_bytes demo_first"
  by (simp add: asm_answers_def demo_first_def demo_bytes_def NewSQLiteVerifyStore_def vsql_good_def)

lemma demo_accepts:
  "\<exists>t w'. coll_Validate (asm_module demo_bytes (\<lambda>k. 7) demo_asm) ''example.com'' demo_first = (Inr t, w')
    \<and> Canonical t = ''example.com''"
proof -
  have n: "asm_normalizeDomain ''example.com'' = ''example.com''" "normalizeDomain ''example.com'' = ''example.com''"
    "\<not> ParseIP_ok ''example.com''" "Contains ''example.com'' ''.''" by code_simp+
  have none: "vsql_held (NewSQLiteVerifyStore []) moduleID ''example.com'' = None"
    by (simp add: vsql_held_def NewSQLiteVerifyStore_def)
  have works: "v_faults (NewSQLiteVerifyStore []) = []" "vsql_good (NewSQLiteVerifyStore [])"
    by (simp_all add: NewSQLiteVerifyStore_def vsql_good_def)
  obtain ch where ch: "NewChallenge (demo_bytes 0) ''example.com'' 7 = Inr ch"
    by (simp add: NewChallenge_def demo_bytes_def Let_def n(2))
  obtain v where "vsql_Put moduleID ch (NewSQLiteVerifyStore []) = (None, v)" using vsql_Put_works [OF works] by blast
  with n ch none vsql_Get_works [OF works(1)] show ?thesis
    by (simp add: asm_module_def ValidateTarget_def demo_first_def Let_def)
qed

lemma asm_restart_resumes_targets_witness:
  "\<exists>s'. demo_boot (web_db demo_added) (web_world demo_added) = Inr s'
    \<and> ''example.com'' \<in> dom (registered (web_sched s') moduleID)"
proof -
  let ?col = "asm_module demo_bytes (\<lambda>k. 7) demo_asm" and ?ans = "asm_answers demo_bytes"
  obtain s where s: "demo_boot (sql_migrate []) demo_first = Inr s" "web_db s = sql_migrate []" "web_world s = demo_first"
    "canAdd (effLimits demo_product s) (int (length (ListTargets moduleID (web_sched s))))"
    "registered_with ?col moduleID (web_sched s)" using demo_boot_starts by blast
  obtain t w' where t: "coll_Validate ?col ''example.com'' demo_first = (Inr t, w')" "Canonical t = ''example.com''"
    using demo_accepts by blast
  obtain sc js where add: "AddTarget moduleID ''example.com'' (web_sched s) demo_first = (Inr t, sc, w', js)"
    "registered sc moduleID ''example.com'' = Some t"
    using s(5) AddTarget_accepts [of "web_sched s" moduleID] t unfolding registered_with_def by fastforce
  have p: "module_ID (sv_Module demo_product) = moduleID" "sv_Targets demo_product" "sv_Module demo_product = asm_Describe"
    "sv_Verify demo_product = Some asm_challenges"
    by (simp_all add: demo_product_def asm_Describe_def moduleID_def)
  obtain r e js' where run: "Handler demo_product_env demo_product (PostTarget (Some ''example.com'')) s = (r, e, js')"
    and e: "demo_added = e" unfolding demo_added_def s(1) by (metis prod.collapse sum.sel(2))
  have added: "web_sched demo_added = sc" "web_world demo_added = w'"
    unfolding e using run s(2-4) add(1) p(1,2)
    by (auto simp: Handler_def handleAddTarget_def Let_def split: prod.splits option.splits)
  have lives: "lives ?col asm_later ?ans demo_product s demo_added"
    unfolding e by (rule lives.asked [OF lives.up run])
  have later: "asm_later (web_world demo_added) w'" "?ans w'"
    using asm_col.validate_later [OF demo_first_answers t(1)] added(2) by (simp_all add: asm_later_def)
  have empty: "targets (sql_migrate []) = []" "faults (sql_migrate []) = []" "sql_good (sql_migrate [])"
    by (simp_all add: sql_migrate_def sql_good_migrate [unfolded sql_migrate_def])
  from asm_restart_resumes_targets [OF s(1) [unfolded demo_boot_def] empty demo_first_answers p(3,2,4) lives later,
      where L = demo_lib and keyfile = None and now = 0] add(2) added
  show ?thesis unfolding demo_boot_def by auto
qed

end
