(* ===== verification/ScanSpec.thy ===== *)
theory ScanSpec
  imports ReconcileSqlite
begin

section \<open>What a scan does to the database, field by field\<close>

text \<open>
  A specification of \<open>Reconcile\<close> that does not mention its code: for one fingerprint, the record
  the database holds after the scan, given the record it held before and the reports of the scan with
  that fingerprint. Every field is said by itself. The reports may repeat a fingerprint (the collector
  of this program reports a certificate once per port), and the record held before may belong to
  another target, in which case the engine does not find it among the rows it listed.
\<close>

subsection \<open>The specification\<close>

text \<open>The evidence a report leaves in its row: the JSON value it denotes, or a marker.\<close>

definition stored_evidence :: "evidence \<Rightarrow> evidence" where
  "stored_evidence ev =
     (case ev of
        None \<Rightarrow> None
      | Some kvs \<Rightarrow>
          (case json_marshal (AMap kvs) of
             None \<Rightarrow> Some [(''_error'', AStr ''evidence not serialisable; dropped'')]
           | Some b \<Rightarrow>
               if length b \<le> 65536 then
                 (case json_value (AMap kvs) of Some (AMap w) \<Rightarrow> Some w | _ \<Rightarrow> None)
               else Some
                 [(''_truncated'', ABool True),
                  (''_original_bytes'', ANum (int (length b))),
                  (''_note'', AStr ''evidence exceeded MaxEvidenceBytes and was dropped'')]))"

text \<open>The record the engine knows of a fingerprint: the stored one, if it belongs to the target.\<close>

definition known_to :: "gostring \<Rightarrow> frec option \<Rightarrow> frec option" where
  "known_to tgt before =
     (case before of None \<Rightarrow> None | Some p \<Rightarrow> if target p = tgt then Some p else None)"

text \<open>
  After a scan whose first report of a fingerprint is \<open>f\<close> and whose last one is \<open>l\<close>: the record \<open>r\<close>,
  where \<open>ids\<close> are the ids the generator gives, \<open>before\<close> is the record that was stored and \<open>known\<close> the
  one that the engine knows.
\<close>

definition after_report ::
  "gostring set \<Rightarrow> gostring \<Rightarrow> instant \<Rightarrow> frec option \<Rightarrow> frec option \<Rightarrow> finding \<Rightarrow> finding \<Rightarrow> frec \<Rightarrow> bool" where
  "after_report ids m now known before f l r \<longleftrightarrow>
     finding_module r = m \<and> fingerprint r = fingerprint l
     \<and> title r = title l \<and> severity r = severity l \<and> remediation r = remediation l
     \<and> evidence r = stored_evidence (evidence l)
     \<and> lastSeen r = now \<and> absentStreak r = 0
     \<and> (case before of
          None \<Rightarrow> finding_id r \<in> ids \<and> target r = target f \<and> check r = check f \<and> firstSeen r = now
        | Some p \<Rightarrow> finding_id r = finding_id p \<and> target r = target p \<and> check r = check p
            \<and> firstSeen r = firstSeen p)
     \<and> (case known of
          None \<Rightarrow> status r = StatusOpen \<and> groupID r = groupID l \<and> resolvedAt r = resolvedAt l
        | Some p \<Rightarrow> groupID r = groupID p
            \<and> (if status p = StatusResolved then status r = StatusOpen \<and> resolvedAt r = None
               else status r = status p \<and> resolvedAt r = resolvedAt p))"

text \<open>After a scan without a report of the fingerprint.\<close>

definition after_absence :: "module_info \<Rightarrow> gostring \<Rightarrow> instant \<Rightarrow> frec option \<Rightarrow> frec option" where
  "after_absence mi tgt now before =
     (case before of
        None \<Rightarrow> None
      | Some r \<Rightarrow>
          if target r \<noteq> tgt \<or> status r = StatusResolved \<or> status r = StatusSuppressed then Some r
          else if absentStreak r + 1 \<ge> (if ResolveAfter mi < 1 then 1 else ResolveAfter mi)
          then Some (r\<lparr>absentStreak := absentStreak r + 1, status := StatusResolved, resolvedAt := Some now\<rparr>)
          else Some (r\<lparr>absentStreak := absentStreak r + 1\<rparr>))"

definition reports_of :: "finding list \<Rightarrow> gostring \<Rightarrow> finding list" where
  "reports_of fresh fp = filter (\<lambda>f. well_formed f \<and> fingerprint f = fp) fresh"

lemma reports_of_simps [simp]:
  "reports_of [] fp = []"
  "reports_of (f # fs) fp =
     (if well_formed f \<and> fingerprint f = fp then f # reports_of fs fp else reports_of fs fp)"
  by (simp_all add: reports_of_def)

lemma reports_of_Nil_iff: "reports_of fresh fp = [] \<longleftrightarrow> fp \<notin> fingerprint ` {f \<in> set fresh. well_formed f}"
  by (auto simp: reports_of_def filter_empty_conv)

lemma reports_of_set: "set (reports_of fresh fp) = {f \<in> set fresh. well_formed f \<and> fingerprint f = fp}"
  by (auto simp: reports_of_def)

subsection \<open>One statement\<close>

lemma sql_keep_stored: "sql_keep (evidence (capEvidence f)) = Some (stored_evidence (evidence f))"
proof (cases "evidence f")
  case None
  then show ?thesis by (simp add: capEvidence_def stored_evidence_def sql_keep_def marshalEvidence_def)
next
  case (Some kvs)
  show ?thesis
  proof (cases "json_marshal (AMap kvs)")
    case None
    have "utf8_clean ''_error'' = ''_error''"
      "utf8_clean ''evidence not serialisable; dropped'' = ''evidence not serialisable; dropped''"
      by code_simp+
    with Some None show ?thesis
      by (simp add: capEvidence_def stored_evidence_def sql_keep_def marshalEvidence_def)
  next
    case (Some b)
    have "utf8_clean ''_truncated'' = ''_truncated''" "utf8_clean ''_original_bytes'' = ''_original_bytes''"
      "utf8_clean ''_note'' = ''_note''"
      "utf8_clean ''evidence exceeded MaxEvidenceBytes and was dropped'' =
        ''evidence exceeded MaxEvidenceBytes and was dropped''"
      by code_simp+
    moreover obtain w where "json_value (AMap kvs) = Some w" using Some json_marshal_iff_value by blast
    ultimately show ?thesis using \<open>evidence f = Some kvs\<close> Some
      by (auto simp: capEvidence_def stored_evidence_def sql_keep_def marshalEvidence_def MaxEvidenceBytes_def)
  qed
qed

text \<open>An upsert over a row keeps the row's id, target, check and time of first sight.\<close>

definition written_over :: "frec option \<Rightarrow> frec \<Rightarrow> frec" where
  "written_over cur r =
     (case cur of
        None \<Rightarrow> r
      | Some q \<Rightarrow> r\<lparr>finding_id := finding_id q, target := target q, check := check q, firstSeen := firstSeen q\<rparr>)"

lemma scanRecord_written:
  assumes "row_key w = rkey r"
  shows "scanRecord (do_update w (excluded_row r ev)) = written_over (Some (scanRecord w)) (r\<lparr>evidence := ev\<rparr>)"
  using assms
  by (simp add: scanRecord_def do_update_def excluded_row_def written_over_def rkey_def row_key_def)

lemma sql_Upsert_written:
  assumes "sql_good d" "sql_Upsert r d = (None, d')"
  obtains ev where "sql_keep (evidence r) = Some ev"
    and "sql_lookup d' = (sql_lookup d)(rkey r \<mapsto> written_over (sql_lookup d (rkey r)) (r\<lparr>evidence := ev\<rparr>))"
proof -
  note that' = that
  have good: "sql_good d'" by (rule sql_good_Upsert [OF assms])
  have keep: "sql_lookup d' k = sql_lookup d k" if "k \<noteq> rkey r" for k
    by (rule sql_Upsert_elsewhere [OF assms that])
  have fin: thesis if "sql_keep (evidence r) = Some ev"
    and "sql_lookup d' (rkey r) = Some (written_over (sql_lookup d (rkey r)) (r\<lparr>evidence := ev\<rparr>))" for ev
    using that keep by (intro that') (auto simp: fun_eq_iff)
  from assms(2) show thesis
  proof (cases rule: sql_Upsert_cases)
    case (update ev)
    then obtain w where w: "w \<in> set (findings d)" "row_key w = rkey r" by blast
    then have old: "sql_lookup d (rkey r) = Some (scanRecord w)"
      using assms(1) by (auto simp: sql_lookup_iff)
    have "do_update w (excluded_row r ev) \<in> set (findings d')" using w by (force simp: update(3))
    then have "sql_lookup d' (rkey r) = Some (scanRecord (do_update w (excluded_row r ev)))"
      using w(2) good by (auto simp: sql_lookup_iff intro!: bexI [of _ "do_update w (excluded_row r ev)"])
    with fin [OF update(1)] old scanRecord_written [OF w(2)] show ?thesis by simp
  next
    case (insert ev)
    then have "sql_lookup d (rkey r) = None" by (simp add: sql_lookup_None_iff)
    moreover have "sql_lookup d' (rkey r) = Some (r\<lparr>evidence := ev\<rparr>)"
      using insert(3) good
      by (auto simp: sql_lookup_iff scanRecord_excluded intro!: bexI [of _ "excluded_row r ev"])
    ultimately show ?thesis using fin [OF insert(1)] by (simp add: written_over_def)
  qed
qed

lemma capEvidence_frame_more [simp]:
  "groupID (capEvidence f) = groupID f" "resolvedAt (capEvidence f) = resolvedAt f"
  by (auto simp: capEvidence_def split: option.splits)

text \<open>What one report leaves, as the code writes it.\<close>

definition report_record :: "gostring \<Rightarrow> instant \<Rightarrow> gostring \<Rightarrow> frec option \<Rightarrow> finding \<Rightarrow> frec" where
  "report_record m now i known g =
     (case known of None \<Rightarrow> new_record m now i g | Some p \<Rightarrow> merge_record now p g)"

lemma report_written:
  assumes "fingerprint f = fp" "known = None \<longrightarrow> i \<in> ids"
    and "\<forall>p. known = Some p \<longrightarrow> rkey p = (m, fp) \<and> cur \<noteq> None"
    and "r = written_over cur (report_record m now i known (capEvidence f)\<lparr>evidence := stored_evidence (evidence f)\<rparr>)"
  shows "after_report ids m now known cur f f r"
proof (cases known)
  case None
  with assms show ?thesis
    by (cases cur) (simp_all add: after_report_def written_over_def report_record_def new_record_def)
next
  case (Some p)
  with assms show ?thesis
    by (cases cur) (auto simp: after_report_def written_over_def report_record_def merge_record_def rkey_def Let_def)
qed

text \<open>A later report of the same fingerprint overwrites what is not the record's identity.\<close>

lemma after_report_again:
  assumes "after_report ids m now known before f l r" "after_report ids m now known (Some r) f' l' r'"
  shows "after_report ids m now known before f l' r'"
  using assms by (auto simp: after_report_def split: option.splits)

subsection \<open>The two loops\<close>

definition drawn_ids :: "(instant \<Rightarrow> nat \<Rightarrow> goerror + gostring) \<Rightarrow> instant \<Rightarrow> gostring set" where
  "drawn_ids newID now = {i. \<exists>k. newID now k = Inr i}"

lemma reconcile_fresh_step:
  assumes "reconcile_fresh ups newID mi now byFP (f # fs) st = (None, st')" "well_formed f"
  obtains st1 i where "byFP (fingerprint f) = None \<longrightarrow> i \<in> drawn_ids newID now"
    and "ups (report_record (module_ID mi) now i (byFP (fingerprint f)) (capEvidence f)) (db st) = (None, db st1)"
    and "reconcile_fresh ups newID mi now byFP fs st1 = (None, st')"
proof (cases "byFP (fingerprint f)")
  case None
  with assms(1) assms(2) [unfolded well_formed_code] obtain i s' where i: "newID now (drawn st) = Inr i"
    "ups (new_record (module_ID mi) now i (capEvidence f)) (db st) = (None, s')"
    "reconcile_fresh ups newID mi now byFP fs
      (st\<lparr>seen := fingerprint f # seen st, drawn := Suc (drawn st), db := s',
         res := (res st)\<lparr>NewlyOpen := NewlyOpen (res st) @
           [finding_of (new_record (module_ID mi) now i (capEvidence f))]\<rparr>\<rparr>) = (None, st')"
    by (auto simp: Let_def split: sum.splits prod.splits option.splits)
  show thesis
    by (rule that [OF _ _ i(3)]) (use None i in \<open>auto simp: report_record_def drawn_ids_def\<close>)
next
  case (Some p)
  let ?r = "merge_record now p (capEvidence f)"
  from Some assms(1) assms(2) [unfolded well_formed_code] obtain s' where s': "ups ?r (db st) = (None, s')"
    "reconcile_fresh ups newID mi now byFP fs
      (if status p = StatusResolved
       then st\<lparr>seen := fingerprint f # seen st, db := s',
               res := (res st)\<lparr>NewlyOpen := NewlyOpen (res st) @ [finding_of ?r]\<rparr>\<rparr>
       else st\<lparr>seen := fingerprint f # seen st, db := s'\<rparr>) = (None, st')"
    by (auto simp: Let_def split: prod.splits option.splits if_splits)
  show thesis
    by (rule that [OF _ _ s'(2)]) (use Some s'(1) in \<open>auto simp: report_record_def\<close>)
qed

lemma reconcile_fresh_skip:
  assumes "reconcile_fresh ups newID mi now byFP (f # fs) st = (None, st')" "\<not> well_formed f"
  obtains st1 where "db st1 = db st" "reconcile_fresh ups newID mi now byFP fs st1 = (None, st')"
proof -
  from assms obtain e where
    "reconcile_fresh ups newID mi now byFP fs
      (st\<lparr>res := (res st)\<lparr>Rejected := Rejected (res st) @ [(f, e)]\<rparr>\<rparr>) = (None, st')"
    by (auto simp: well_formed_code split: option.splits)
  then show thesis by (rule that [rotated]) simp
qed

text \<open>One report, on the content of the database.\<close>

lemma report_lookup:
  assumes "sql_good d"
    and "\<forall>p. known = Some p \<longrightarrow> rkey p = (m, fingerprint f) \<and> sql_lookup d (m, fingerprint f) \<noteq> None"
    and "known = None \<longrightarrow> i \<in> ids"
    and ups: "sql_Upsert (report_record m now i known (capEvidence f)) d = (None, d')"
  obtains r where "sql_lookup d' = (sql_lookup d)((m, fingerprint f) \<mapsto> r)"
    and "after_report ids m now known (sql_lookup d (m, fingerprint f)) f f r"
proof -
  let ?x = "report_record m now i known (capEvidence f)"
  have key: "rkey ?x = (m, fingerprint f)" and ev: "evidence ?x = evidence (capEvidence f)"
    using assms(2) by (auto simp: report_record_def rkey_def split: option.splits)
  obtain e where "sql_keep (evidence ?x) = Some e"
    "sql_lookup d' = (sql_lookup d)(rkey ?x \<mapsto> written_over (sql_lookup d (rkey ?x)) (?x\<lparr>evidence := e\<rparr>))"
    using sql_Upsert_written [OF assms(1) ups] .
  then have "sql_lookup d' = (sql_lookup d)((m, fingerprint f) \<mapsto>
      written_over (sql_lookup d (m, fingerprint f)) (?x\<lparr>evidence := stored_evidence (evidence f)\<rparr>))"
    by (simp add: key ev sql_keep_stored)
  moreover have "after_report ids m now known (sql_lookup d (m, fingerprint f)) f f
      (written_over (sql_lookup d (m, fingerprint f)) (?x\<lparr>evidence := stored_evidence (evidence f)\<rparr>))"
    by (rule report_written [OF refl assms(3) assms(2) refl])
  ultimately show thesis by (rule that)
qed

lemma fresh_loop_spec:
  assumes "reconcile_fresh sql_Upsert newID mi now byFP fresh st = (None, st')"
    and "sql_good (db st)"
    and "\<forall>fp p. byFP fp = Some p \<longrightarrow>
           rkey p = (module_ID mi, fp) \<and> sql_lookup (db st) (module_ID mi, fp) \<noteq> None"
  shows "sql_good (db st')
    \<and> (\<forall>m fp. m \<noteq> module_ID mi \<or> reports_of fresh fp = [] \<longrightarrow>
         sql_lookup (db st') (m, fp) = sql_lookup (db st) (m, fp))
    \<and> (\<forall>fp. reports_of fresh fp \<noteq> [] \<longrightarrow>
         (\<exists>r. sql_lookup (db st') (module_ID mi, fp) = Some r
            \<and> after_report (drawn_ids newID now) (module_ID mi) now (byFP fp)
                (sql_lookup (db st) (module_ID mi, fp)) (hd (reports_of fresh fp)) (last (reports_of fresh fp)) r))"
  using assms
proof (induction fresh arbitrary: st)
  case Nil
  then show ?case by simp
next
  case (Cons f fs)
  let ?m = "module_ID mi" and ?ids = "drawn_ids newID now" and ?fp = "fingerprint f"
  show ?case
  proof (cases "well_formed f")
    case False
    obtain st1 where st1: "db st1 = db st" "reconcile_fresh sql_Upsert newID mi now byFP fs st1 = (None, st')"
      using reconcile_fresh_skip [OF Cons.prems(1) False] .
    from Cons.IH [OF st1(2), unfolded st1(1), OF Cons.prems(2,3)] show ?thesis by (simp add: False)
  next
    case True
    obtain st1 i where st1: "byFP ?fp = None \<longrightarrow> i \<in> ?ids"
      "sql_Upsert (report_record ?m now i (byFP ?fp) (capEvidence f)) (db st) = (None, db st1)"
      "reconcile_fresh sql_Upsert newID mi now byFP fs st1 = (None, st')"
      using reconcile_fresh_step [OF Cons.prems(1) True] .
    have known: "\<forall>p. byFP ?fp = Some p \<longrightarrow> rkey p = (?m, ?fp) \<and> sql_lookup (db st) (?m, ?fp) \<noteq> None"
      using Cons.prems(3) by blast
    obtain r where r: "sql_lookup (db st1) = (sql_lookup (db st))((?m, ?fp) \<mapsto> r)"
      "after_report ?ids ?m now (byFP ?fp) (sql_lookup (db st) (?m, ?fp)) f f r"
      using report_lookup [OF Cons.prems(2) known st1(1,2)] .
    have good: "sql_good (db st1)" by (rule sql_good_Upsert [OF Cons.prems(2) st1(2)])
    have inv: "\<forall>fp p. byFP fp = Some p \<longrightarrow> rkey p = (?m, fp) \<and> sql_lookup (db st1) (?m, fp) \<noteq> None"
      using Cons.prems(3) r(1) by auto
    note IH = Cons.IH [OF st1(3) good inv]
    note rep = IH [THEN conjunct2, THEN conjunct2, rule_format]
    have here: "\<exists>r'. sql_lookup (db st') (?m, ?fp) = Some r'
        \<and> after_report ?ids ?m now (byFP ?fp) (sql_lookup (db st) (?m, ?fp)) f (last (f # reports_of fs ?fp)) r'"
    proof (cases "reports_of fs ?fp = []")
      case True
      with IH r show ?thesis by simp
    next
      case False
      from rep [OF False] r(1) obtain r' where r': "sql_lookup (db st') (?m, ?fp) = Some r'"
        "after_report ?ids ?m now (byFP ?fp) (Some r) (hd (reports_of fs ?fp)) (last (reports_of fs ?fp)) r'"
        by auto
      with after_report_again [OF r(2) r'(2)] False show ?thesis by simp
    qed
    have other: "sql_lookup (db st1) (m, fp) = sql_lookup (db st) (m, fp)" if "(m, fp) \<noteq> (?m, ?fp)" for m fp
      using r(1) that by auto
    show ?thesis
    proof (intro conjI allI impI)
      show "sql_good (db st')" using IH by blast
    next
      fix m fp assume a: "m \<noteq> ?m \<or> reports_of (f # fs) fp = []"
      with True have "(m, fp) \<noteq> (?m, ?fp)" by auto
      with a IH other show "sql_lookup (db st') (m, fp) = sql_lookup (db st) (m, fp)"
        by (auto split: if_splits)
    next
      fix fp assume a: "reports_of (f # fs) fp \<noteq> []"
      show "\<exists>r. sql_lookup (db st') (?m, fp) = Some r
            \<and> after_report ?ids ?m now (byFP fp) (sql_lookup (db st) (?m, fp))
                (hd (reports_of (f # fs) fp)) (last (reports_of (f # fs) fp)) r"
      proof (cases "fp = ?fp")
        case True
        with here \<open>well_formed f\<close> show ?thesis by simp
      next
        case False
        with a rep [of fp] other [of ?m fp] show ?thesis by simp
      qed
    qed
  qed
qed

lemma after_absence_outcome: "absent_outcome mi now tgt before = after_absence mi tgt now before"
  by (auto simp: absent_outcome_def after_absence_def leave_absent_def absent_record_def
      ResolveAfterOrDefault_def Let_def split: option.splits)

lemma known_to_lookup:
  assumes "lists_table rows look (\<lambda>r. target r = tgt)"
  shows "by_fingerprint rows fp = known_to tgt (look fp)"
  by (simp add: by_fingerprint_lookup [OF assms] known_to_def split: option.splits)

text \<open>The parts of a scan that completes.\<close>

lemma reconcile_parts:
  assumes "sql_reconcile newID mi tgt now fresh d n = (None, st')" "sql_good d"
  obtains rows s1 st1 where "sql_good s1" "sql_lookup s1 = sql_lookup d"
    and "lists_table rows (\<lambda>fp. sql_lookup d (module_ID mi, fp)) (\<lambda>r. target r = tgt)"
    and "reconcile_fresh sql_Upsert newID mi now (by_fingerprint rows) fresh
        \<lparr>res = empty_result, seen = [], db = s1, drawn = n\<rparr> = (None, st1)"
    and "reconcile_absent sql_Upsert mi now rows st1 = (None, st')"
proof -
  from assms(1) obtain rows s1 st1 where
    lst: "sql_ListByTarget (module_ID mi) tgt d = (Inr rows, s1)"
    and "reconcile_fresh sql_Upsert newID mi now (by_fingerprint rows) fresh
        \<lparr>res = empty_result, seen = [], db = s1, drawn = n\<rparr> = (None, st1)"
    and "reconcile_absent sql_Upsert mi now rows st1 = (None, st')"
    by (auto simp: Reconcile_def reconcile_with_def split: prod.splits sum.splits option.splits)
  with sql.list_table [OF assms(2) TrueI lst] show thesis by (intro that) auto
qed

lemma scan_spec:
  assumes "sql_reconcile newID mi tgt now fresh d n = (None, st')" "sql_good d"
  shows "sql_good (db st')"
    and "m \<noteq> module_ID mi \<Longrightarrow> sql_lookup (db st') (m, fp) = sql_lookup d (m, fp)"
    and "reports_of fresh fp = [] \<Longrightarrow>
      sql_lookup (db st') (module_ID mi, fp) = after_absence mi tgt now (sql_lookup d (module_ID mi, fp))"
    and "reports_of fresh fp \<noteq> [] \<Longrightarrow> \<exists>r. sql_lookup (db st') (module_ID mi, fp) = Some r
      \<and> after_report (drawn_ids newID now) (module_ID mi) now (known_to tgt (sql_lookup d (module_ID mi, fp)))
          (sql_lookup d (module_ID mi, fp)) (hd (reports_of fresh fp)) (last (reports_of fresh fp)) r"
proof -
  let ?m = "module_ID mi"
  obtain rows s1 st1 where s1: "sql_good s1" "sql_lookup s1 = sql_lookup d"
    and tab: "lists_table rows (\<lambda>fp. sql_lookup d (?m, fp)) (\<lambda>r. target r = tgt)"
    and one: "reconcile_fresh sql_Upsert newID mi now (by_fingerprint rows) fresh
        \<lparr>res = empty_result, seen = [], db = s1, drawn = n\<rparr> = (None, st1)"
    and two: "reconcile_absent sql_Upsert mi now rows st1 = (None, st')"
    using reconcile_parts [OF assms] .
  have known: "by_fingerprint rows fp = known_to tgt (sql_lookup d (?m, fp))" for fp
    by (rule known_to_lookup [OF tab])
  have inv: "\<forall>fp p. by_fingerprint rows fp = Some p \<longrightarrow> rkey p = (?m, fp) \<and> sql_lookup s1 (?m, fp) \<noteq> None"
    using sql.lookup_key [OF assms(2) TrueI] by (auto simp: known known_to_def s1(2) split: option.splits if_splits)
  note F = fresh_loop_spec [OF one, unfolded rstate.select_convs, OF s1(1) inv, unfolded s1(2) known]
  have seen: "fp \<in> set (seen st1) \<longleftrightarrow> reports_of fresh fp \<noteq> []" for fp
    using reconcile_fresh_report(3) [OF one] by (simp add: reports_of_Nil_iff)
  have dist: "distinct (map fingerprint rows)" using tab by (simp add: lists_table_def)
  have mid: "\<forall>r. r \<in> set rows \<longrightarrow> fingerprint r \<notin> set (seen st1) \<longrightarrow>
      sql_lookup (db st1) (?m, fingerprint r) = Some r"
    using F lists_table_set [OF tab] seen by auto
  note A = sql.reconcile_absent_content [OF two conjunct1 [OF F] TrueI dist mid, simplified]
  show "sql_good (db st')" using A by blast
  show "sql_lookup (db st') (m, fp) = sql_lookup d (m, fp)" if "m \<noteq> ?m"
    using A F that by simp
  show "sql_lookup (db st') (?m, fp) = after_absence mi tgt now (sql_lookup d (?m, fp))"
    if none: "reports_of fresh fp = []"
  proof -
    have "sql_lookup (db st1) (?m, fp) = sql_lookup d (?m, fp)" using F none by simp
    moreover have "fp \<notin> set (seen st1)" using seen none by simp
    ultimately show ?thesis using A
      by (auto simp: lists_table_bex [OF tab] after_absence_outcome [symmetric] absent_outcome_def split: option.splits)
  qed
  show "\<exists>r. sql_lookup (db st') (?m, fp) = Some r
      \<and> after_report (drawn_ids newID now) ?m now (known_to tgt (sql_lookup d (?m, fp)))
          (sql_lookup d (?m, fp)) (hd (reports_of fresh fp)) (last (reports_of fresh fp)) r"
    if some: "reports_of fresh fp \<noteq> []"
  proof -
    have "fp \<in> set (seen st1)" using seen some by simp
    then have "sql_lookup (db st') (?m, fp) = sql_lookup (db st1) (?m, fp)" using A by auto
    with F some show ?thesis by simp
  qed
qed

text \<open>
  (C2) Refinement of the specification of a scan. When a scan completes, the database holds for every
  fingerprint exactly what the specification says, field by field: for a reported one, the first and
  the last well-formed report of it decide (repeated fingerprints and records of another target
  included); any other record of the scanned target is one absence older, or resolved at the threshold,
  unless it was resolved or suppressed; records of other targets and modules are as they were.
\<close>

theorem reconcile_refines_spec:
  assumes "sql_reconcile newID mi tgt now fresh d n = (None, st')" "sql_good d"
  shows "sql_good (db st')
    \<and> (\<forall>m fp. m \<noteq> module_ID mi \<longrightarrow> sql_lookup (db st') (m, fp) = sql_lookup d (m, fp))
    \<and> (\<forall>fp. case reports_of fresh fp of
         [] \<Rightarrow> sql_lookup (db st') (module_ID mi, fp)
             = after_absence mi tgt now (sql_lookup d (module_ID mi, fp))
       | f # fs \<Rightarrow> \<exists>r. sql_lookup (db st') (module_ID mi, fp) = Some r
           \<and> after_report (drawn_ids newID now) (module_ID mi) now
               (known_to tgt (sql_lookup d (module_ID mi, fp))) (sql_lookup d (module_ID mi, fp))
               f (last (f # fs)) r)"
proof -
  have "case reports_of fresh fp of
         [] \<Rightarrow> sql_lookup (db st') (module_ID mi, fp)
             = after_absence mi tgt now (sql_lookup d (module_ID mi, fp))
       | f # fs \<Rightarrow> \<exists>r. sql_lookup (db st') (module_ID mi, fp) = Some r
           \<and> after_report (drawn_ids newID now) (module_ID mi) now
               (known_to tgt (sql_lookup d (module_ID mi, fp))) (sql_lookup d (module_ID mi, fp))
               f (last (f # fs)) r" for fp
    using scan_spec(3,4) [OF assms, of fp] by (cases "reports_of fresh fp") auto
  then show ?thesis using scan_spec(1,2) [OF assms] by blast
qed

text \<open>A scan that reports one new finding twice, with different titles, and not the stored one.\<close>

definition demo_twice :: "finding list" where
  "demo_twice = [demo_finding ''f2'', (demo_finding ''f2'')\<lparr>title := ''again''\<rparr>, demo_finding []]"

lemma demo_twice_run: "fst (demo_scan StatusOpen 1 demo_twice) = None"
  by code_simp

lemma demo_twice_reports:
  "map title (reports_of demo_twice ''f2'') = [''open port'', ''again'']" "reports_of demo_twice ''f1'' = []"
  by code_simp+

lemma reconcile_refines_spec_witness:
  "(\<exists>r. sql_lookup (db (snd (demo_scan StatusOpen 1 demo_twice))) (''asm'', ''f2'') = Some r
      \<and> title r = ''again'' \<and> status r = StatusOpen)
   \<and> map_option status (sql_lookup (db (snd (demo_scan StatusOpen 1 demo_twice))) (''asm'', ''f1'')) =
       Some StatusResolved"
proof -
  note R = reconcile_refines_spec [OF demo_scan_run [OF demo_twice_run] demo_db_good,
      THEN conjunct2, THEN conjunct2, rule_format, unfolded demo_module_ID]
  obtain f g where f: "reports_of demo_twice ''f2'' = [f, g]" "title g = ''again''"
    using demo_twice_reports(1) by auto
  have none: "sql_lookup (demo_db StatusOpen 1) (''asm'', ''f2'') = None" by (simp add: demo_lookup)
  have "\<exists>r. sql_lookup (db (snd (demo_scan StatusOpen 1 demo_twice))) (''asm'', ''f2'') = Some r
      \<and> title r = ''again'' \<and> status r = StatusOpen"
    using R [of "''f2''"] f(2) by (auto simp: f(1) none known_to_def after_report_def)
  moreover have "map_option status
      (after_absence demo_module ''example.com'' 7 (sql_lookup (demo_db StatusOpen 1) (''asm'', ''f1''))) =
      Some StatusResolved" by code_simp
  ultimately show ?thesis using R [of "''f1''"] demo_twice_reports(2) by simp
qed

subsection \<open>A finding that is no longer reported\<close>

lemma scans_without_report:
  assumes "sql_scans newID mi tgt history d n = Some (d', n')" "sql_good d"
    and "\<forall>(now, fresh) \<in> set history. reports_of fresh fp = []"
  shows "sql_good d' \<and> sql_lookup d' (module_ID mi, fp) =
    absent_run mi tgt (map fst history) (sql_lookup d (module_ID mi, fp))"
  using assms
proof (induction history arbitrary: d n)
  case Nil
  then show ?case by (simp add: absent_run_def)
next
  case (Cons h history)
  obtain now fresh where h: "h = (now, fresh)" by (cases h)
  from Cons.prems(1) h obtain st where run: "sql_reconcile newID mi tgt now fresh d n = (None, st)"
    and rest: "sql_scans newID mi tgt history (db st) (drawn st) = Some (d', n')"
    by (auto split: prod.splits option.splits)
  have none: "reports_of fresh fp = []" and none': "\<forall>(now, fresh) \<in> set history. reports_of fresh fp = []"
    using Cons.prems(3) h by auto
  from Cons.IH [OF rest scan_spec(1) [OF run Cons.prems(2)] none'] scan_spec(3) [OF run Cons.prems(2) none]
  show ?case by (simp add: h absent_run_def after_absence_outcome)
qed

text \<open>
  (C21) A finding that the collector stops reporting, while it reports whatever else, is resolved by
  exactly the scan that completes the module's \<open>ResolveAfter\<close> consecutive absences: before it the
  record keeps its status and its streak counts the absences, from then on it is resolved with the
  instant of that scan. The record is one of the scanned target, neither resolved nor suppressed, its
  streak still below the threshold; a scan without a well-formed report of the finding counts as an
  absence, and every scan of the history completes.
\<close>

theorem silent_scans_resolve:
  assumes "sql_scans newID mi tgt history d n = Some (d', n')" "sql_good d"
    and "\<forall>(now, fresh) \<in> set history. \<forall>f \<in> set fresh. well_formed f \<longrightarrow> fingerprint f \<noteq> fp"
    and "sql_lookup d (module_ID mi, fp) = Some r" "target r = tgt"
    and "status r \<noteq> StatusResolved" "status r \<noteq> StatusSuppressed"
    and "absentStreak r < ResolveAfterOrDefault mi"
  shows "\<exists>r'. sql_lookup d' (module_ID mi, fp) = Some r' \<and>
    (if absentStreak r + int (length history) < ResolveAfterOrDefault mi
     then status r' = status r \<and> absentStreak r' = absentStreak r + int (length history)
     else status r' = StatusResolved \<and> absentStreak r' = ResolveAfterOrDefault mi
        \<and> resolvedAt r' = Some (fst (history ! nat (ResolveAfterOrDefault mi - absentStreak r - 1))))"
proof -
  have "\<forall>(now, fresh) \<in> set history. reports_of fresh fp = []"
    using assms(3) by (auto simp: reports_of_def filter_empty_conv)
  note S = scans_without_report [OF assms(1,2) this]
  have live: "\<not> leave_absent r" using assms(6,7) by (simp add: leave_absent_def)
  have "nat (ResolveAfterOrDefault mi - absentStreak r - 1) < length history"
    if "\<not> absentStreak r + int (length history) < ResolveAfterOrDefault mi"
    using that assms(8) by linarith
  with absent_run_live [OF assms(5) live assms(8), of "map fst history"] S assms(4) show ?thesis
    by (auto split: if_splits)
qed

text \<open>Three scans that report a second finding, which the stored one misses.\<close>

definition demo_missing :: "(instant \<times> finding list) list" where
  "demo_missing = [(7, [demo_finding ''f2'']), (8, [demo_finding ''f2'']), (9, [])]"

lemma silent_scans_resolve_witness:
  "\<exists>r'. sql_lookup (fst (the (demo_scans StatusOpen demo_missing))) (''asm'', ''f1'') = Some r'
     \<and> status r' = StatusResolved \<and> resolvedAt r' = Some 8"
proof -
  have run: "demo_scans StatusOpen demo_missing \<noteq> None" by code_simp
  have other: "\<forall>(now, fresh) \<in> set demo_missing. \<forall>f \<in> set fresh. well_formed f \<longrightarrow> fingerprint f \<noteq> ''f1''"
    by (simp add: demo_missing_def demo_finding_def)
  have look: "sql_lookup (demo_db StatusOpen 0) (module_ID demo_module, ''f1'') =
      Some (demo_record StatusOpen 0)" by code_simp
  have r: "target (demo_record StatusOpen 0) = ''example.com''"
    "status (demo_record StatusOpen 0) \<noteq> StatusResolved" "status (demo_record StatusOpen 0) \<noteq> StatusSuppressed"
    "absentStreak (demo_record StatusOpen 0) < ResolveAfterOrDefault demo_module" by code_simp+
  from silent_scans_resolve [OF demo_scans_run [OF run] demo_db_good other look r]
  show ?thesis
    by (auto simp: demo_record_def demo_module_def ResolveAfterOrDefault_def demo_missing_def)
qed

subsection \<open>What is announced\<close>

text \<open>
  The announcements of a scan, for any findings: the newly open ones are the reports whose
  fingerprint was unknown to the target or resolved, in order and with their severities; the resolved
  ones are the records the scan resolved.
\<close>

lemma scan_announces:
  assumes "sql_reconcile newID mi tgt now fresh d n = (None, st')" "sql_good d"
  shows "map (\<lambda>x. (fingerprint x, severity x)) (NewlyOpen (res st')) =
      map (\<lambda>f. (fingerprint f, severity f)) (filter (\<lambda>f. well_formed f
        \<and> opens (known_to tgt (sql_lookup d (module_ID mi, fingerprint f)))) fresh)"
    and "sql_lookup d (module_ID mi, fp) = Some p \<Longrightarrow> target p = tgt \<Longrightarrow> \<not> leave_absent p \<Longrightarrow>
      absentStreak p + 1 \<ge> ResolveAfterOrDefault mi \<Longrightarrow> reports_of fresh fp = [] \<Longrightarrow>
      finding_of (absent_record mi now p) \<in> set (Resolved (res st'))"
proof -
  let ?m = "module_ID mi"
  obtain rows s1 st1 where
    tab: "lists_table rows (\<lambda>fp. sql_lookup d (?m, fp)) (\<lambda>r. target r = tgt)"
    and one: "reconcile_fresh sql_Upsert newID mi now (by_fingerprint rows) fresh
        \<lparr>res = empty_result, seen = [], db = s1, drawn = n\<rparr> = (None, st1)"
    and two: "reconcile_absent sql_Upsert mi now rows st1 = (None, st')"
    using reconcile_parts [OF assms] .
  have key: "\<And>fp p. by_fingerprint rows fp = Some p \<Longrightarrow> fingerprint p = fp"
    by (simp add: by_fingerprint_key)
  show "map (\<lambda>x. (fingerprint x, severity x)) (NewlyOpen (res st')) =
      map (\<lambda>f. (fingerprint f, severity f)) (filter (\<lambda>f. well_formed f
        \<and> opens (known_to tgt (sql_lookup d (?m, fingerprint f)))) fresh)"
    using reconcile_fresh_newly_open_severity [OF one key] reconcile_absent_report(2) [OF two]
    by (simp add: empty_result_def known_to_lookup [OF tab])
  assume p: "sql_lookup d (?m, fp) = Some p" "target p = tgt" "\<not> leave_absent p"
    "absentStreak p + 1 \<ge> ResolveAfterOrDefault mi" "reports_of fresh fp = []"
  have fp: "fingerprint p = fp" using sql.lookup_key [OF assms(2) TrueI p(1)] by (simp add: rkey_def)
  have "fp \<notin> set (seen st1)"
    using reconcile_fresh_report(3) [OF one] p(5) by (simp add: reports_of_Nil_iff)
  moreover have "p \<in> set rows" using lists_table_set [OF tab] p(1,2) fp by simp
  ultimately show "finding_of (absent_record mi now p) \<in> set (Resolved (res st'))"
    unfolding reconcile_absent_report(1) [OF two] using p(3,4) fp by auto
qed

end
