(* ===== verification/AsmOverlap.thy ===== *)
theory AsmOverlap
  imports AsmSystem ScanSpec
begin

section \<open>What overlaps: a scan and the dashboard, a scan and the dispatcher\<close>

text \<open>
  \<open>Reconcile\<close> reads the stored records of its target with one statement and writes them with
  others, outside any transaction, so other goroutines come in between: the dashboard's handlers
  and the scans that the scheduler runs next to it. Here a scan is its two halves, the listing and
  \<open>reconcile_with\<close> on the rows it gave, and something else happens between them. The last part
  follows a scan's result on to the channels.
\<close>

subsection \<open>A decision taken during a scan\<close>

lemma lists_table_read_before:
  assumes "sql_good d" "sql_ListByTarget m tgt d = (Inr rows, d1)"
    and "\<And>r. sql_lookup d (m, fp) = Some r \<Longrightarrow> target r = tgt"
  shows "by_fingerprint rows fp = sql_lookup d (m, fp)"
proof -
  have "lists_table rows (\<lambda>fp. sql_lookup d (m, fp)) (\<lambda>r. target r = tgt)"
    using sql.list_table [OF assms(1) TrueI assms(2)] by blast
  from by_fingerprint_lookup [OF this] assms(3) show ?thesis by (auto split: option.splits)
qed

lemma merge_outcome_status:
  assumes "fresh_outcome keep m now (Some p) f r"
  shows "status r = (if status p = StatusResolved then StatusOpen else status p)"
  using assms by (auto simp: fresh_outcome_def merge_record_def)

text \<open>
  (C16) A decision can be lost. The user changes the status of a finding while a scan that reports it
  is running, after the scan has read the stored records and before it writes; the dashboard
  accepts the change and stores it. When the scan completes, the finding has the status it had
  when the scan read it (or is open again, if it was resolved), as if the user had done nothing.
\<close>

theorem decision_lost_during_scan:
  assumes "sql_good (web_db s)" "module_ID mi = module_ID (sv_Module sv)"
    and "sql_ListByTarget (module_ID mi) tgt (web_db s) = (Inr rows, d1)"
    and "handleFindingStatus sv (Some (fp, st)) (s\<lparr>web_db := d1\<rparr>) = (r, s')" "http_code r = 200"
    and "reconcile_with sql_Upsert newID mi now rows fresh
           \<lparr>res = empty_result, seen = [], db = web_db s', drawn = n\<rparr> = (None, out)"
    and "scan_input (web_db s) mi tgt fresh" "fresh_of fresh fp = Some f"
  shows "\<exists>p q q'. sql_lookup (web_db s) (module_ID mi, fp) = Some p
    \<and> sql_lookup (web_db s') (module_ID mi, fp) = Some q \<and> status q = st
    \<and> sql_lookup (db out) (module_ID mi, fp) = Some q'
    \<and> status q' = (if status p = StatusResolved then StatusOpen else status p)"
proof -
  let ?m = "module_ID mi"
  have d1: "sql_good d1" "sql_lookup d1 = sql_lookup (web_db s)"
    using sql.list_ok [OF assms(1) TrueI assms(3)] by auto
  from status_update [OF _ assms(4,5)] d1 obtain p where
    p: "sql_lookup (web_db s) (?m, fp) = Some p"
    and after: "sql_lookup (web_db s') = (sql_lookup (web_db s))((?m, fp) \<mapsto> p\<lparr>status := st\<rparr>)"
    using assms(2) by auto
  have good': "sql_good (web_db s')" by (rule status_good [OF _ assms(4)]) (simp add: d1)
  have read: "by_fingerprint rows (fingerprint g) = sql_lookup (web_db s) (?m, fingerprint g)"
    if "g \<in> set fresh" "well_formed g" for g
    using lists_table_read_before [OF assms(1,3)] scan_inputD(2) [OF assms(7)] that by auto
  have "read_before ?m k (sql_lookup (web_db s) (?m, k)) (sql_lookup (web_db s') (?m, k))" for k
    using sql.lookup_key [OF assms(1) TrueI, of ?m k]
    by (auto simp: read_before_def after p same_identity_def)
  with read have stale: "\<forall>g. g \<in> set fresh \<longrightarrow> well_formed g \<longrightarrow>
      read_before ?m (fingerprint g) (by_fingerprint rows (fingerprint g)) (sql_lookup (web_db s') (?m, fingerprint g))"
    by simp
  have "finding_module x = ?m" if "x \<in> set rows" for x
    using sql.list_ok [OF assms(1) TrueI assms(3)] sql.lookup_key [OF assms(1) TrueI] that
    by (fastforce simp: rkey_def)
  then obtain q' where q': "sql_lookup (db out) (?m, fp) = Some q'"
    "fresh_outcome sql_keep ?m now (by_fingerprint rows fp) f q'"
    using sql.stale_scan_writes [OF assms(6) _ TrueI scan_inputD(1) [OF assms(7)] _ _ assms(8)] good' stale by auto
  have "f \<in> set fresh \<and> well_formed f \<and> fingerprint f = fp"
    using assms(8) by (auto simp: fresh_of_def find_Some_iff)
  with read p have "by_fingerprint rows fp = Some p" by auto
  with q' merge_outcome_status [of sql_keep ?m now p f q'] p after show ?thesis by auto
qed

text \<open>The three steps on the sample dashboard: listing, suppression, the writes of the scan.\<close>

definition demo_rows :: "frec list" where
  "demo_rows = projr (fst (sql_ListByTarget ''asm'' ''example.com'' (web_db demo_web)))"

definition demo_suppressing :: "response \<times> unit web" where
  "demo_suppressing = handleFindingStatus demo_server (Some (''f1'', StatusSuppressed))
     (demo_web\<lparr>web_db := snd (sql_ListByTarget ''asm'' ''example.com'' (web_db demo_web))\<rparr>)"

definition demo_writing :: "goerror option \<times> sqldb rstate" where
  "demo_writing = reconcile_with sql_Upsert demo_ids demo_module 7 demo_rows [demo_finding ''f1'']
     \<lparr>res = empty_result, seen = [], db = web_db (snd demo_suppressing), drawn = 0\<rparr>"

lemma demo_overlap_runs:
  "isl (fst (sql_ListByTarget ''asm'' ''example.com'' (web_db demo_web))) = False"
  "http_code (fst demo_suppressing) = 200" "fst demo_writing = None"
  "scan_input (web_db demo_web) demo_module ''example.com'' [demo_finding ''f1'']"
  "map_option fingerprint (fresh_of [demo_finding ''f1''] ''f1'') = Some ''f1''"
  "map_option status (sql_lookup (web_db demo_web) (''asm'', ''f1'')) = Some StatusOpen"
  by code_simp+

lemma decision_lost_during_scan_witness:
  "map_option status (sql_lookup (web_db (snd demo_suppressing)) (''asm'', ''f1'')) = Some StatusSuppressed
   \<and> map_option status (sql_lookup (db (snd demo_writing)) (''asm'', ''f1'')) = Some StatusOpen"
proof -
  have ids: "module_ID demo_module = ''asm''" "module_ID (sv_Module demo_server) = ''asm''"
    by (simp_all add: demo_module_def demo_server_module_ID)
  have good: "sql_good (web_db demo_web)" using demo_web_ok by (simp add: web_ok_def)
  obtain d1 where lst: "sql_ListByTarget (module_ID demo_module) ''example.com'' (web_db demo_web) = (Inr demo_rows, d1)"
    and d1: "d1 = snd (sql_ListByTarget ''asm'' ''example.com'' (web_db demo_web))"
    using demo_overlap_runs(1) unfolding ids demo_rows_def by (metis prod.collapse sum.collapse(2))
  have sup: "handleFindingStatus demo_server (Some (''f1'', StatusSuppressed)) (demo_web\<lparr>web_db := d1\<rparr>) =
      (fst demo_suppressing, snd demo_suppressing)" by (simp add: demo_suppressing_def d1)
  have wri: "reconcile_with sql_Upsert demo_ids demo_module 7 demo_rows [demo_finding ''f1'']
      \<lparr>res = empty_result, seen = [], db = web_db (snd demo_suppressing), drawn = 0\<rparr> = (None, snd demo_writing)"
    using demo_overlap_runs(3) by (simp add: demo_writing_def prod_eq_iff)
  obtain f where f: "fresh_of [demo_finding ''f1''] ''f1'' = Some f" using demo_overlap_runs(5) by auto
  have same: "module_ID demo_module = module_ID (sv_Module demo_server)" by (simp only: ids)
  from decision_lost_during_scan [OF good same lst sup demo_overlap_runs(2) wri demo_overlap_runs(4) f]
  show ?thesis using demo_overlap_runs(6) unfolding ids by auto
qed

text \<open>
  Two scans that overlap: when both have read the same rows before either writes, each announces
  every finding that both report and that was unknown or resolved.
\<close>

lemma overlapping_scans_announce_twice:
  assumes "reconcile_with ups newID1 mi now1 rows fresh1 st1 = (None, out1)"
    and "reconcile_with ups newID2 mi now2 rows fresh2 st2 = (None, out2)"
    and "f1 \<in> set fresh1" "well_formed f1" "f2 \<in> set fresh2" "well_formed f2"
    and "fingerprint f1 = fp" "fingerprint f2 = fp" "opens (by_fingerprint rows fp)"
  shows "fp \<in> fingerprint ` set (NewlyOpen (res out1))" "fp \<in> fingerprint ` set (NewlyOpen (res out2))"
proof -
  have "fp \<in> fingerprint ` set (NewlyOpen (res out))"
    if run: "reconcile_with ups newID mi now rows fresh st = (None, out)"
      and f: "f \<in> set fresh" "well_formed f" "fingerprint f = fp"
    for newID now fresh st out f
  proof -
    from run obtain st1 where
      one: "reconcile_fresh ups newID mi now (by_fingerprint rows) fresh st = (None, st1)"
      and two: "reconcile_absent ups mi now rows st1 = (None, out)"
      by (auto simp: reconcile_with_def split: prod.splits option.splits)
    have "fp \<in> set (map fingerprint (filter (\<lambda>f. well_formed f \<and> opens (by_fingerprint rows (fingerprint f))) fresh))"
      using f assms(9) by auto
    then have "fp \<in> set (map fingerprint (NewlyOpen (res st1)))"
      using reconcile_fresh_newly_open [OF one] by_fingerprint_key by fastforce
    then show ?thesis using reconcile_absent_report(2) [OF two] by simp
  qed
  from this [OF assms(1,3,4,7)] this [OF assms(2,5,6,8)]
  show "fp \<in> fingerprint ` set (NewlyOpen (res out1))" "fp \<in> fingerprint ` set (NewlyOpen (res out2))" .
qed

subsection \<open>From the database to the channels\<close>

text \<open>What a scan announces of a fingerprint, read off the content of the store.\<close>

lemma opened_is_announced:
  assumes "sql_reconcile newID mi tgt now fresh d0 n = (None, st)" "sql_good d0"
    and "sql_lookup (db st) (module_ID mi, fp) = Some r" "status r = StatusOpen"
    and "opens (sql_lookup d0 (module_ID mi, fp))"
  shows "\<exists>x \<in> set (NewlyOpen (res st)). fingerprint x = fp \<and> severity x = severity r"
proof -
  let ?m = "module_ID mi" and ?l = "last (reports_of fresh fp)"
  have "reports_of fresh fp \<noteq> []"
    using scan_spec(3) [OF assms(1,2), of fp] assms(3-5)
    by (auto simp: after_absence_def opens_def split: option.splits if_splits)
  with scan_spec(4) [OF assms(1,2)] assms(3) have sev: "severity r = severity ?l"
    by (fastforce simp: after_report_def)
  have l: "?l \<in> set fresh" "well_formed ?l" "fingerprint ?l = fp"
    using last_in_set [OF \<open>reports_of fresh fp \<noteq> []\<close>] by (simp_all add: reports_of_set)
  moreover have "opens (known_to tgt (sql_lookup d0 (?m, fp)))"
    using assms(5) by (auto simp: opens_def known_to_def split: option.splits)
  ultimately have "(fp, severity r) \<in> set (map (\<lambda>x. (fingerprint x, severity x)) (NewlyOpen (res st)))"
    unfolding scan_announces(1) [OF assms(1,2)] sev by force
  then show ?thesis by auto
qed

lemma resolved_is_announced:
  assumes "sql_reconcile newID mi tgt now fresh d0 n = (None, st)" "sql_good d0"
    and "sql_lookup (db st) (module_ID mi, fp) = Some r" "status r = StatusResolved"
    and "\<not> opens (sql_lookup d0 (module_ID mi, fp))"
  shows "\<exists>x \<in> set (Resolved (res st)). fingerprint x = fp"
proof -
  let ?m = "module_ID mi"
  obtain p where p: "sql_lookup d0 (?m, fp) = Some p" "status p \<noteq> StatusResolved"
    using assms(5) by (auto simp: opens_def split: option.splits)
  have none: "reports_of fresh fp = []"
  proof (rule ccontr)
    assume "reports_of fresh fp \<noteq> []"
    from scan_spec(4) [OF assms(1,2) this] assms(3,4) p show False
      by (auto simp: after_report_def known_to_def split: if_splits)
  qed
  with scan_spec(3) [OF assms(1,2)] p assms(3,4) have "target p = tgt" "\<not> leave_absent p"
    "absentStreak p + 1 \<ge> ResolveAfterOrDefault mi"
    by (auto simp: after_absence_def leave_absent_def ResolveAfterOrDefault_def split: if_splits)
  then have "finding_of (absent_record mi now p) \<in> set (Resolved (res st))"
    using scan_announces(2) [OF assms(1,2) p(1)] none by blast
  moreover have "fingerprint p = fp" using sql.lookup_key [OF assms(2) TrueI p(1)] by (simp add: rkey_def)
  ultimately show ?thesis by (auto simp: finding.truncate_def intro!: bexI)
qed

text \<open>
  (C7) No change of the stored status goes untold while the dispatcher is open. Take any history of the
  dispatcher without a \<open>Close\<close>, and a scan that completes and whose result is handed to it next. Every
  finding of the module that the scan stored as open and that was not live before is told: an event of
  that kind, module and fingerprint is in a digest that goes out while this result is handed over, or
  is in the pending batch after it, unless its severity is below the configured minimum. And so is
  told, as resolved, every live finding that the scan stored as resolved. Digests sent before the scan
  do not count. (The scan may report anything, repeated fingerprints included.)
\<close>

theorem status_changes_reach_channels:
  assumes "sql_reconcile newID mi tgt now fresh d0 n = (None, st)" "sql_good d0"
    and "dispatcher_run ops (NewDispatcher c) = (disp, out)" "DoClose \<notin> snd ` set ops"
    and "\<forall>e. e \<in> set (offered ops) \<longrightarrow> known_kind e"
    and "on_result prev t \<lparr>result_Module = module_ID mi, result_Target = tg, result_Reconcile = res st\<rparr> disp
           = (y, disp', out')"
    and "sql_lookup (db st) (module_ID mi, fp) = Some r"
  shows "(opens (sql_lookup d0 (module_ID mi, fp)) \<and> status r = StatusOpen
      \<and> (MinSeverity c = [] \<or> severityRank (severity r) \<ge> severityRank (MinSeverity c)) \<longrightarrow>
        KindOpened @ ''|'' @ module_ID mi @ ''|'' @ fp \<in> dedup_key ` set_mset (told_of out' disp'))
    \<and> (\<not> opens (sql_lookup d0 (module_ID mi, fp)) \<and> status r = StatusResolved \<longrightarrow>
        KindResolved @ ''|'' @ module_ID mi @ ''|'' @ fp \<in> dedup_key ` set_mset (told_of out' disp'))"
proof -
  define x where "x = \<lparr>result_Module = module_ID mi, result_Target = tg, result_Reconcile = res st\<rparr>"
  let ?ops = "map (\<lambda>e. (t, DoEnqueue e)) (result_events x)"
  have new: "offered (map (\<lambda>e. (t, DoEnqueue e)) es) = es" for es
    by (induction es) (simp_all add: offered_def)
  have run: "dispatcher_run ?ops disp = (disp', out')"
    using assms(6) by (simp add: on_result_def x_def)
  have "DoClose \<notin> snd ` set ?ops" "\<forall>e \<in> set (offered ?ops). known_kind e"
    unfolding new by (auto simp: result_events_def known_kind_def)
  then have told: "dedup_key e \<in> dedup_key ` set_mset (told_of out' disp')"
    if "e \<in> set (result_events x)" "accepts (notify_withDefaults c) e" for e
    using dispatcher_tells [OF assms(3,4) _ run] assms(5) that by (simp add: new)
  show ?thesis
  proof (intro conjI impI; (elim conjE)?)
    assume open_now: "opens (sql_lookup d0 (module_ID mi, fp))" "status r = StatusOpen"
      and min: "MinSeverity c = [] \<or> severityRank (severity r) \<ge> severityRank (MinSeverity c)"
    from opened_is_announced [OF assms(1,2,7) open_now(2,1)] obtain g where
      g: "g \<in> set (NewlyOpen (res st))" "fingerprint g = fp" "severity g = severity r" by blast
    let ?e = "\<lparr>n_Kind = KindOpened, n_Module = module_ID mi, n_Finding = g\<rparr>"
    have "?e \<in> set (result_events x)" using g(1) by (simp add: result_events_def x_def)
    moreover have "accepts (notify_withDefaults c) ?e"
      using min g(3) by (simp add: accepts_def notify_withDefaults_def)
    ultimately show "KindOpened @ ''|'' @ module_ID mi @ ''|'' @ fp \<in> dedup_key ` set_mset (told_of out' disp')"
      using told [of ?e] g(2) by (simp add: dedup_key_def)
  next
    assume gone: "\<not> opens (sql_lookup d0 (module_ID mi, fp))" "status r = StatusResolved"
    from resolved_is_announced [OF assms(1,2,7) gone(2,1)] obtain g where
      g: "g \<in> set (Resolved (res st))" "fingerprint g = fp" by blast
    let ?e = "\<lparr>n_Kind = KindResolved, n_Module = module_ID mi, n_Finding = g\<rparr>"
    have "?e \<in> set (result_events x)" using g(1) by (simp add: result_events_def x_def)
    moreover have "accepts (notify_withDefaults c) ?e" by (simp add: accepts_def)
    ultimately show "KindResolved @ ''|'' @ module_ID mi @ ''|'' @ fp \<in> dedup_key ` set_mset (told_of out' disp')"
      using told [of ?e] g(2) by (simp add: dedup_key_def)
  qed
qed

text \<open>
  The scan of the sample database that reports a second finding, and a dispatcher that has announced
  that finding before: the batch of the two earlier events was full and went out.
\<close>

definition demo_past :: "(instant \<times> dispatcher_op) list" where
  "demo_past = [(0, DoEnqueue (demo_event ''f2'')), (1, DoEnqueue (demo_event ''f3''))]"

lemma status_changes_reach_channels_witness:
  "KindOpened @ ''|'' @ ''asm'' @ ''|'' @ ''f2'' \<in> dedup_key ` set_mset
     (case on_result (None :: (sched_result \<Rightarrow> unit) option) 2
        \<lparr>result_Module = ''asm'', result_Target = \<lparr>Raw = [], Canonical = [], Meta = []\<rparr>,
         result_Reconcile = res (snd (demo_scan StatusOpen 1 [demo_finding ''f2'', demo_finding []]))\<rparr>
        (fst (dispatcher_run demo_past (NewDispatcher zero_notify))) of (_, d, out) \<Rightarrow> told_of out d)"
proof -
  let ?run = "demo_scan StatusOpen 1 [demo_finding ''f2'', demo_finding []]"
  let ?x = "\<lparr>result_Module = module_ID demo_module, result_Target = \<lparr>Raw = [], Canonical = [], Meta = []\<rparr>,
    result_Reconcile = res (snd ?run)\<rparr>"
  obtain disp sent where past: "dispatcher_run demo_past (NewDispatcher zero_notify) = (disp, sent)"
    by (cases "dispatcher_run demo_past (NewDispatcher zero_notify)")
  obtain y d out where o: "on_result (None :: (sched_result \<Rightarrow> unit) option) 2 ?x disp = (y, d, out)"
    by (metis prod.exhaust)
  have new: "opens (sql_lookup (demo_db StatusOpen 1) (module_ID demo_module, ''f2''))
    \<and> map_option status (sql_lookup (db (snd ?run)) (module_ID demo_module, ''f2'')) = Some StatusOpen"
    by code_simp
  then obtain r where r: "sql_lookup (db (snd ?run)) (module_ID demo_module, ''f2'') = Some r" "status r = StatusOpen"
    by auto
  have ops: "DoClose \<notin> snd ` set demo_past" "\<forall>e. e \<in> set (offered demo_past) \<longrightarrow> known_kind e"
    by (auto simp: demo_past_def offered_def known_kind_def demo_event_def)
  have "MinSeverity zero_notify = []" by (simp add: zero_notify_def)
  with status_changes_reach_channels [OF demo_scan_run [OF demo_scan_changed] demo_db_good past ops o r(1)]
    new r(2)
  have "KindOpened @ ''|'' @ module_ID demo_module @ ''|'' @ ''f2'' \<in> dedup_key ` set_mset (told_of out d)"
    by simp
  with o past show ?thesis by (simp add: demo_module_def)
qed

end
