(* ===== verification/Announcements.thy ===== *)
theory Announcements
  imports AsmOverlap
begin

section \<open>A scan that fails halfway\<close>

text \<open>
  \<open>Reconcile\<close> stores each record as it goes and returns the report only at the end, so a statement
  that fails in between leaves changes in the database that no report names.
\<close>

text \<open>The database stays well formed even when the engine returns an error.\<close>

lemma sql_reconcile_good:
  assumes "sql_reconcile newID mi tgt now fresh d n = (x, st)" "sql_good d"
  shows "sql_good (db st)"
proof -
  obtain r d1 where lst: "sql_ListByTarget (module_ID mi) tgt d = (r, d1)" by fastforce
  then have "only_read d d1" by (simp add: sql_ListByTarget_def only_read_query)
  then have d1: "sql_good d1" using sql_good_tables [OF _ assms(2)] by (simp add: only_read_def)
  have keeps: "sql_good (db st) \<Longrightarrow> sql_good (db (snd (reconcile_fresh sql_Upsert newID mi now byFP fresh st)))"
    "sql_good (db st) \<Longrightarrow> sql_good (db (snd (reconcile_absent sql_Upsert mi now rows st)))" for byFP rows st
    using reconcile_fresh_keeps [where P = sql_good] reconcile_absent_keeps [where P = sql_good] sql_good_Upsert by metis+
  show ?thesis
  proof (cases r)
    case (Inl e)
    then show ?thesis using assms(1) lst d1 by (auto simp: Reconcile_def)
  next
    case (Inr rows)
    let ?one = "reconcile_fresh sql_Upsert newID mi now (by_fingerprint rows) fresh
      \<lparr>res = empty_result, seen = [], db = d1, drawn = n\<rparr>"
    obtain y st1 where one: "?one = (y, st1)" by fastforce
    have "sql_good (db st1)" using keeps(1) [of "\<lparr>res = empty_result, seen = [], db = d1, drawn = n\<rparr>"] d1
      unfolding one [symmetric] by (metis one rstate.select_convs(3) snd_conv)
    then show ?thesis using assms(1) lst Inr one keeps(2) [of st1 rows]
      by (cases y) (auto simp: Reconcile_def reconcile_with_def)
  qed
qed

text \<open>
  (C18) A new finding nobody is told of. A scan fails after it has stored a finding that was unknown or
  resolved as open. The scan reports nothing, to the log or to the channels; and since the finding now
  counts as open, the next scan that completes does not announce it either, whether it still sees it or not. (That scan
  reports no fingerprint stored for another target.)
\<close>

theorem announcement_lost_on_failed_scan:
  assumes "scanOne (asm_engine newID now) reg None t w = (Some err, rep, w')"
    and "sys_findings (snd (coll_Collect (reg_collector reg) t w)) = sys_findings w" "sql_good (sys_findings w)"
    and "opens (sql_lookup (sys_findings w) (module_ID (reg_info reg), fp))"
    and "sql_lookup (sys_findings w') (module_ID (reg_info reg), fp) = Some r" "status r = StatusOpen"
    and "sql_reconcile newID' (reg_info reg) tgt now' fresh (sys_findings w') n = (None, st)"
    and "own_reports (sys_findings w') (reg_info reg) tgt fresh"
  shows "rep = None \<and> fp \<notin> fingerprint ` set (NewlyOpen (res st))"
proof -
  let ?m = "module_ID (reg_info reg)"
  obtain c w1 where col: "coll_Collect (reg_collector reg) t w = (c, w1)" by fastforce
  have w1: "sys_findings w1 = sys_findings w" using assms(2) col by simp
  have rep: "rep = None" using assms(1) by (auto simp: scanOne_def split: prod.splits sum.splits)
  have "sql_good (sys_findings w')"
  proof (cases c)
    case (Inl e)
    then show ?thesis using assms(1,3) col w1 by (simp add: scanOne_def)
  next
    case (Inr found)
    obtain x st1 where eng: "sql_reconcile newID (reg_info reg) (Canonical t) now found (sys_findings w1) (sys_ids w1) = (x, st1)"
      by fastforce
    have "sys_findings w' = db st1"
      using assms(1) col Inr eng by (cases x) (auto simp: scanOne_def asm_engine_def)
    then show ?thesis using sql_reconcile_good [OF eng] assms(3) w1 by simp
  qed
  note opened = sql.reconcile_reports(2) [OF assms(7) this TrueI own_reportsD [OF assms(8)]]
  have "\<not> opens (sql_lookup (sys_findings w') (?m, fp))"
    using assms(5,6) by (simp add: opens_def StatusOpen_def StatusResolved_def)
  then have "fp \<notin> set (map fingerprint (NewlyOpen (res st)))" unfolding opened by auto
  then show ?thesis using rep by simp
qed

text \<open>The disk is full when the second of two new findings is stored; the next scan sees both.\<close>

definition demo_reporting :: "world registration" where
  "demo_reporting =
     \<lparr>reg_collector = \<lparr>Describe = demo_module, coll_Validate = (\<lambda>raw w. (Inl [], w)),
        coll_Collect = (\<lambda>t w. (Inr [demo_finding ''f1'', demo_finding ''f2''], w))\<rparr>,
      reg_info = demo_module, reg_targets = []\<rparr>"

definition demo_full_disk :: world where
  "demo_full_disk = \<lparr>sys_challenges = NewSQLiteVerifyStore [],
     sys_findings = sql_migrate [None, None, Some ''disk full''], sys_ids = 0, sys_calls = 0\<rparr>"

definition demo_failing :: "scan_error option \<times> sched_result option \<times> world" where
  "demo_failing = scanOne (asm_engine demo_ids 7) demo_reporting None demo_target demo_full_disk"

definition demo_next :: "goerror option \<times> sqldb rstate" where
  "demo_next = sql_reconcile demo_ids demo_module ''example.com'' 9 [demo_finding ''f1'', demo_finding ''f2'']
     (sys_findings (snd (snd demo_failing))) 5"

lemma demo_failing_runs:
  "fst demo_failing \<noteq> None"
  "map_option status (sql_lookup (sys_findings (snd (snd demo_failing))) (''asm'', ''f1'')) = Some StatusOpen"
  "fst demo_next = None"
  "own_reports (sys_findings (snd (snd demo_failing))) demo_module ''example.com'' [demo_finding ''f1'', demo_finding ''f2'']"
  "opens (sql_lookup (sys_findings demo_full_disk) (''asm'', ''f1''))"
  by code_simp+

lemma announcement_lost_on_failed_scan_witness:
  "''f1'' \<notin> fingerprint ` set (NewlyOpen (res (snd demo_next)))"
proof -
  obtain err rep w' where run: "demo_failing = (Some err, rep, w')" and w': "snd (snd demo_failing) = w'"
    using demo_failing_runs(1) by (metis option.exhaust prod.collapse snd_conv)
  obtain r where r: "sql_lookup (sys_findings w') (''asm'', ''f1'') = Some r" "status r = StatusOpen"
    using demo_failing_runs(2) w' by auto
  obtain st where next_scan: "demo_next = (None, st)" and st: "snd demo_next = st"
    using demo_failing_runs(3) by (metis prod.collapse)
  have m: "module_ID (reg_info demo_reporting) = ''asm''" "reg_info demo_reporting = demo_module"
    "sys_findings (snd (coll_Collect (reg_collector demo_reporting) demo_target demo_full_disk)) = sys_findings demo_full_disk"
    by (simp_all add: demo_reporting_def demo_module_def)
  have good: "sql_good (sys_findings demo_full_disk)" by (simp add: demo_full_disk_def sql_good_migrate)
  have "rep = None \<and> ''f1'' \<notin> fingerprint ` set (NewlyOpen (res st))"
    by (rule announcement_lost_on_failed_scan [OF run [unfolded demo_failing_def] m(3) good _ _ r(2)])
      (use demo_failing_runs(4,5) r(1) next_scan m w' in \<open>simp_all add: demo_next_def\<close>)
  then show ?thesis using st by simp
qed

end
