(* ===== verification/ScanSteps.thy ===== *)
theory ScanSteps
  imports WebProperties
begin

section \<open>Scans and status changes, one statement at a time\<close>

text \<open>
  \<open>Reconcile\<close> and \<open>handleFindingStatus\<close> each issue several statements on the database, outside any
  transaction, and run in goroutines of their own: the scheduler does not serialise the scans of a
  target, and the HTTP server has a goroutine per request. Here both are tasks that advance by one
  statement at a time, any number of them interleaved in any order, with the other requests of the
  dashboard in between. Run without interruption a task is the function of the code.
\<close>

subsection \<open>A scan in progress\<close>

text \<open>
  Where \<open>Reconcile\<close> is: before \<open>ListByTarget\<close>; in the loop over the fresh findings, with the rows
  it read; in the loop over the rows that were not reported; or returned.
\<close>

datatype scan_phase =
    Listing "finding list"
  | Merging "frec list" "finding list"
  | Ageing "frec list"
  | Ended "goerror option"

record scan =
  sc_module :: module_info
  sc_target :: gostring
  sc_now :: instant
  sc_phase :: scan_phase
  sc_res :: reconcile_result
  sc_seen :: "gostring list"

definition new_scan :: "module_info \<Rightarrow> gostring \<Rightarrow> instant \<Rightarrow> finding list \<Rightarrow> scan" where
  "new_scan mi tgt now fresh =
     \<lparr>sc_module = mi, sc_target = tgt, sc_now = now, sc_phase = Listing fresh, sc_res = empty_result, sc_seen = []\<rparr>"

abbreviation loop_state :: "scan \<Rightarrow> 's \<Rightarrow> nat \<Rightarrow> 's rstate" where
  "loop_state s d n \<equiv> \<lparr>res = sc_res s, seen = sc_seen s, db = d, drawn = n\<rparr>"

text \<open>
  One turn of the loop over the fresh findings, and one of the loop over the rows: the bodies of the
  two loops, on the state of the scan. An error returned from a turn ends the scan.
\<close>

definition merge_turn ::
  "(frec \<Rightarrow> 's \<Rightarrow> goerror option \<times> 's) \<Rightarrow> (instant \<Rightarrow> nat \<Rightarrow> goerror + gostring) \<Rightarrow> frec list \<Rightarrow> finding \<Rightarrow>
   finding list \<Rightarrow> scan \<Rightarrow> 's \<Rightarrow> nat \<Rightarrow> scan \<times> 's \<times> nat" where
  "merge_turn ups newID rows f0 fs s d n =
     (case ValidateForIngest f0 of
        Some e \<Rightarrow>
          (s\<lparr>sc_phase := Merging rows fs,
             sc_res := (sc_res s)\<lparr>reconcile_result.Rejected := reconcile_result.Rejected (sc_res s) @ [(f0, e)]\<rparr>\<rparr>, d, n)
      | None \<Rightarrow>
          (let f = capEvidence f0; s = s\<lparr>sc_seen := fingerprint f # sc_seen s\<rparr> in
           case by_fingerprint rows (fingerprint f) of
             None \<Rightarrow>
               (case newID (sc_now s) n of
                  Inl e \<Rightarrow> (s\<lparr>sc_phase := Ended (Some e)\<rparr>, d, Suc n)
                | Inr i \<Rightarrow>
                    (let rec = finding.extend
                           (f\<lparr>finding_id := i, finding_module := module_ID (sc_module s), status := StatusOpen,
                              firstSeen := sc_now s, lastSeen := sc_now s\<rparr>)
                           \<lparr>absentStreak = 0\<rparr>
                     in case ups rec d of
                          (Some e, d) \<Rightarrow> (s\<lparr>sc_phase := Ended (Some e)\<rparr>, d, Suc n)
                        | (None, d) \<Rightarrow>
                            (s\<lparr>sc_phase := Merging rows fs,
                               sc_res := (sc_res s)\<lparr>NewlyOpen := NewlyOpen (sc_res s) @ [finding_of rec]\<rparr>\<rparr>,
                             d, Suc n)))
           | Some prev \<Rightarrow>
               (let reopened = (status prev = StatusResolved);
                    merged = prev\<lparr>title := title f\<rparr>;
                    merged = merged\<lparr>severity := severity f\<rparr>;
                    merged = merged\<lparr>remediation := remediation f\<rparr>;
                    merged = merged\<lparr>evidence := evidence f\<rparr>;
                    merged = merged\<lparr>lastSeen := sc_now s\<rparr>;
                    merged = merged\<lparr>absentStreak := 0\<rparr>;
                    merged = (if reopened then merged\<lparr>status := StatusOpen, resolvedAt := None\<rparr> else merged)
                in case ups merged d of
                     (Some e, d) \<Rightarrow> (s\<lparr>sc_phase := Ended (Some e)\<rparr>, d, n)
                   | (None, d) \<Rightarrow>
                       ((if reopened
                         then s\<lparr>sc_phase := Merging rows fs,
                                sc_res := (sc_res s)\<lparr>NewlyOpen := NewlyOpen (sc_res s) @ [finding_of merged]\<rparr>\<rparr>
                         else s\<lparr>sc_phase := Merging rows fs\<rparr>), d, n))))"

definition age_turn ::
  "(frec \<Rightarrow> 's \<Rightarrow> goerror option \<times> 's) \<Rightarrow> frec \<Rightarrow> frec list \<Rightarrow> scan \<Rightarrow> 's \<Rightarrow> nat \<Rightarrow> scan \<times> 's \<times> nat" where
  "age_turn ups r rs s d n =
     (if fingerprint r \<in> set (sc_seen s) then (s\<lparr>sc_phase := Ageing rs\<rparr>, d, n)
      else if status r = StatusResolved \<or> status r = StatusSuppressed then (s\<lparr>sc_phase := Ageing rs\<rparr>, d, n)
      else
        (let r = r\<lparr>absentStreak := absentStreak r + 1\<rparr>;
             (r, s) = (if absentStreak r \<ge> ResolveAfterOrDefault (sc_module s)
                  then let r = r\<lparr>status := StatusResolved\<rparr>; r = r\<lparr>resolvedAt := Some (sc_now s)\<rparr>
                       in (r, s\<lparr>sc_res := (sc_res s)\<lparr>Resolved := Resolved (sc_res s) @ [finding_of r]\<rparr>\<rparr>)
                  else (r, s))
         in case ups r d of
              (Some e, d) \<Rightarrow> (s\<lparr>sc_phase := Ended (Some e)\<rparr>, d, n)
            | (None, d) \<Rightarrow> (s\<lparr>sc_phase := Ageing rs\<rparr>, d, n)))"

definition scan_step ::
  "(gostring \<Rightarrow> gostring \<Rightarrow> 's \<Rightarrow> (goerror + frec list) \<times> 's) \<Rightarrow> (frec \<Rightarrow> 's \<Rightarrow> goerror option \<times> 's) \<Rightarrow>
   (instant \<Rightarrow> nat \<Rightarrow> goerror + gostring) \<Rightarrow> scan \<Rightarrow> 's \<Rightarrow> nat \<Rightarrow> scan \<times> 's \<times> nat" where
  "scan_step lst ups newID s d n =
     (case sc_phase s of
        Listing fresh \<Rightarrow>
          (case lst (module_ID (sc_module s)) (sc_target s) d of
             (Inl e, d') \<Rightarrow> (s\<lparr>sc_phase := Ended (Some e)\<rparr>, d', n)
           | (Inr rows, d') \<Rightarrow> (s\<lparr>sc_phase := Merging rows fresh\<rparr>, d', n))
      | Merging rows [] \<Rightarrow> (s\<lparr>sc_phase := Ageing rows\<rparr>, d, n)
      | Merging rows (f # fs) \<Rightarrow> merge_turn ups newID rows f fs s d n
      | Ageing [] \<Rightarrow> (s\<lparr>sc_phase := Ended None\<rparr>, d, n)
      | Ageing (r # rs) \<Rightarrow> age_turn ups r rs s d n
      | Ended x \<Rightarrow> (s, d, n))"

fun scan_steps where
  "scan_steps lst ups newID 0 s d n = (s, d, n)"
| "scan_steps lst ups newID (Suc k) s d n =
     (case scan_step lst ups newID s d n of (s', d', n') \<Rightarrow> scan_steps lst ups newID k s' d' n')"

subsection \<open>Uninterrupted, it is the engine\<close>

lemma reconcile_fresh_turn:
  "reconcile_fresh ups newID mi now byFP (f # fs) st =
     (case reconcile_fresh ups newID mi now byFP [f] st of
        (Some e, st') \<Rightarrow> (Some e, st')
      | (None, st') \<Rightarrow> reconcile_fresh ups newID mi now byFP fs st')"
  by (auto simp: Let_def split: option.splits sum.splits prod.splits)

lemma reconcile_absent_turn:
  "reconcile_absent ups mi now (r # rs) st =
     (case reconcile_absent ups mi now [r] st of
        (Some e, st') \<Rightarrow> (Some e, st')
      | (None, st') \<Rightarrow> reconcile_absent ups mi now rs st')"
  by (auto simp: Let_def split: option.splits prod.splits)

text \<open>A turn on its own is the loop on one element.\<close>

definition after_turn :: "scan \<Rightarrow> scan_phase \<Rightarrow> goerror option \<times> 's rstate \<Rightarrow> scan \<times> 's \<times> nat" where
  "after_turn s next_phase r =
     (case r of (x, st) \<Rightarrow>
        (s\<lparr>sc_phase := (case x of Some e \<Rightarrow> Ended (Some e) | None \<Rightarrow> next_phase),
           sc_res := res st, sc_seen := seen st\<rparr>, db st, drawn st))"

lemma new_record_extend:
  "finding.extend (f\<lparr>finding_id := i, finding_module := m, status := StatusOpen, firstSeen := now, lastSeen := now\<rparr>)
     \<lparr>absentStreak = 0\<rparr> = new_record m now i f"
  by (simp add: new_record_def finding.defs)

lemma merge_turn_loop:
  "merge_turn ups newID rows f fs s d n =
     after_turn s (Merging rows fs)
       (reconcile_fresh ups newID (sc_module s) (sc_now s) (by_fingerprint rows) [f] (loop_state s d n))"
  by (simp add: merge_turn_def after_turn_def new_record_extend merge_record_def Let_def
      split: option.split sum.split prod.split)

lemma age_turn_loop:
  "age_turn ups r rs s d n =
     after_turn s (Ageing rs) (reconcile_absent ups (sc_module s) (sc_now s) [r] (loop_state s d n))"
  by (simp add: age_turn_def after_turn_def leave_absent_def absent_record_def Let_def
      split: option.split prod.split)

lemma scan_step_Merging:
  "sc_phase s = Merging rows (f # fs) \<Longrightarrow> scan_step lst ups newID s d n =
     after_turn s (Merging rows fs)
       (reconcile_fresh ups newID (sc_module s) (sc_now s) (by_fingerprint rows) [f] (loop_state s d n))"
  by (simp add: scan_step_def merge_turn_loop del: reconcile_fresh.simps)

lemma scan_step_Ageing:
  "sc_phase s = Ageing (r # rs) \<Longrightarrow> scan_step lst ups newID s d n =
     after_turn s (Ageing rs) (reconcile_absent ups (sc_module s) (sc_now s) [r] (loop_state s d n))"
  by (simp add: scan_step_def age_turn_loop del: reconcile_absent.simps)

lemma rstate_eta: "\<lparr>res = res st, seen = seen st, db = db st, drawn = drawn st\<rparr> = st"
  by (cases st) simp

text \<open>The task after \<open>k\<close> steps has returned \<open>x\<close>, with the result and the database of \<open>st\<close>.\<close>

definition returned :: "scan \<times> 's \<times> nat \<Rightarrow> goerror option \<Rightarrow> 's rstate \<Rightarrow> bool" where
  "returned r x st \<longleftrightarrow>
     (case r of (s, d, n) \<Rightarrow> sc_phase s = Ended x \<and> sc_res s = res st \<and> sc_seen s = seen st \<and> d = db st \<and> n = drawn st)"

lemma ageing_returns:
  assumes "sc_phase s = Ageing rows" "reconcile_absent ups (sc_module s) (sc_now s) rows (loop_state s d n) = (x, st)"
  shows "\<exists>k \<le> length rows + 1. returned (scan_steps lst ups newID k s d n) x st"
  using assms
proof (induction rows arbitrary: s d n)
  case Nil
  then show ?case by (intro exI [of _ 1]) (auto simp: scan_step_def returned_def)
next
  case (Cons r rows)
  let ?loop = "reconcile_absent ups (sc_module s) (sc_now s)"
  obtain y st1 where turn: "?loop [r] (loop_state s d n) = (y, st1)" by fastforce
  have rest: "(x, st) = (case y of Some e \<Rightarrow> (Some e, st1) | None \<Rightarrow> ?loop rows st1)"
    using Cons.prems(2) unfolding reconcile_absent_turn [of _ _ _ r rows] turn by simp
  let ?s = "s\<lparr>sc_phase := (case y of Some e \<Rightarrow> Ended (Some e) | None \<Rightarrow> Ageing rows), sc_res := res st1, sc_seen := seen st1\<rparr>"
  have step: "scan_step lst ups newID s d n = (?s, db st1, drawn st1)"
    unfolding scan_step_Ageing [OF Cons.prems(1)] turn by (simp add: after_turn_def)
  show ?case
  proof (cases y)
    case (Some e)
    then show ?thesis using rest step by (intro exI [of _ 1]) (simp add: returned_def)
  next
    case None
    then have "?loop rows (loop_state ?s (db st1) (drawn st1)) = (x, st)" using rest by (simp add: rstate_eta)
    then obtain k where "k \<le> length rows + 1" "returned (scan_steps lst ups newID k ?s (db st1) (drawn st1)) x st"
      using Cons.IH [of ?s "db st1" "drawn st1"] None by auto
    then show ?thesis using step by (intro exI [of _ "Suc k"]) simp
  qed
qed

lemma merging_returns:
  assumes "sc_phase s = Merging rows fresh"
    and "reconcile_with ups newID (sc_module s) (sc_now s) rows fresh (loop_state s d n) = (x, st)"
  shows "\<exists>k \<le> length fresh + length rows + 2. returned (scan_steps lst ups newID k s d n) x st"
  using assms
proof (induction fresh arbitrary: s d n)
  case Nil
  let ?s = "s\<lparr>sc_phase := Ageing rows\<rparr>"
  have "scan_step lst ups newID s d n = (?s, d, n)" using Nil(1) by (simp add: scan_step_def)
  moreover obtain k where "k \<le> length rows + 1" "returned (scan_steps lst ups newID k ?s d n) x st"
    using ageing_returns [of ?s rows ups d n x st lst newID] Nil(2) by (auto simp: reconcile_with_def)
  ultimately show ?case by (intro exI [of _ "Suc k"]) simp
next
  case (Cons f fresh)
  let ?loop = "reconcile_fresh ups newID (sc_module s) (sc_now s) (by_fingerprint rows)"
  obtain y st1 where turn: "?loop [f] (loop_state s d n) = (y, st1)" by fastforce
  have rest: "(x, st) = (case y of Some e \<Rightarrow> (Some e, st1)
      | None \<Rightarrow> reconcile_with ups newID (sc_module s) (sc_now s) rows fresh st1)"
    using Cons.prems(2) unfolding reconcile_with_def reconcile_fresh_turn [of _ _ _ _ _ f fresh] turn
    by (cases y) auto
  let ?s = "s\<lparr>sc_phase := (case y of Some e \<Rightarrow> Ended (Some e) | None \<Rightarrow> Merging rows fresh), sc_res := res st1, sc_seen := seen st1\<rparr>"
  have step: "scan_step lst ups newID s d n = (?s, db st1, drawn st1)"
    unfolding scan_step_Merging [OF Cons.prems(1)] turn by (simp add: after_turn_def)
  show ?case
  proof (cases y)
    case (Some e)
    then show ?thesis using rest step by (intro exI [of _ 1]) (simp add: returned_def)
  next
    case None
    then have "reconcile_with ups newID (sc_module ?s) (sc_now ?s) rows fresh (loop_state ?s (db st1) (drawn st1)) = (x, st)"
      using rest by (simp add: rstate_eta)
    then obtain k where "k \<le> length fresh + length rows + 2"
      "returned (scan_steps lst ups newID k ?s (db st1) (drawn st1)) x st"
      using Cons.IH [of ?s "db st1" "drawn st1"] None by auto
    then show ?thesis using step by (intro exI [of _ "Suc k"]) simp
  qed
qed

text \<open>
  The statement-by-statement scan is the engine's \<open>Reconcile\<close>: left alone, it returns after at
  most one step per fresh finding and per row read, and three more, with the error, the report, the
  database and the position of the id generator that \<open>Reconcile\<close> computes; over any store.
\<close>

theorem scan_steps_are_Reconcile:
  "\<exists>k. returned (scan_steps lst ups newID k (new_scan mi tgt now fresh) d n)
         (fst (Reconcile lst ups newID mi tgt now fresh d n)) (snd (Reconcile lst ups newID mi tgt now fresh d n))
     \<and> k \<le> length fresh + (case fst (lst (module_ID mi) tgt d) of Inl e \<Rightarrow> 0 | Inr rows \<Rightarrow> length rows) + 3"
proof -
  let ?s = "new_scan mi tgt now fresh"
  obtain r d' where read: "lst (module_ID mi) tgt d = (r, d')" by fastforce
  show ?thesis
  proof (cases r)
    case (Inl e)
    then show ?thesis
      by (intro exI [of _ 1]) (simp add: read Reconcile_def scan_step_def new_scan_def returned_def)
  next
    case (Inr rows)
    let ?s1 = "?s\<lparr>sc_phase := Merging rows fresh\<rparr>"
    have step: "scan_step lst ups newID ?s d n = (?s1, d', n)"
      using read Inr by (simp add: scan_step_def new_scan_def)
    obtain x st where run: "reconcile_with ups newID mi now rows fresh \<lparr>res = empty_result, seen = [], db = d', drawn = n\<rparr> = (x, st)"
      by fastforce
    then obtain k where "k \<le> length fresh + length rows + 2" "returned (scan_steps lst ups newID k ?s1 d' n) x st"
      using merging_returns [of ?s1 rows fresh ups newID d' n x st lst] by (auto simp: new_scan_def)
    then show ?thesis using step read Inr run by (intro exI [of _ "Suc k"]) (simp add: Reconcile_def)
  qed
qed

subsection \<open>A status change in progress\<close>

datatype status_phase =
    Requested gostring gostring
  | Fetched frec
  | Replied response

fun status_step :: "('w, 'o) server \<Rightarrow> status_phase \<Rightarrow> sqldb \<Rightarrow> status_phase \<times> sqldb" where
  "status_step sv (Requested fp next_status) d =
     (if next_status \<notin> {StatusAcknowledged, StatusSuppressed, StatusOpen} then
        (Replied (httpError 400 ''status must be acknowledged, suppressed, or open''), d)
      else
        (case sql_Get (module_ID (sv_Module sv)) fp d of
           (Inr (Some r), d) \<Rightarrow> (Fetched (r\<lparr>status := next_status\<rparr>), d)
         | (_, d) \<Rightarrow> (Replied (httpError 404 ''finding not found''), d)))"
| "status_step sv (Fetched r) d =
     (case sql_Upsert r d of
        (Some e, d) \<Rightarrow> (Replied (httpError 500 ''store error''), d)
      | (None, d) \<Rightarrow> (Replied (writeJSON OkBody), d))"
| "status_step sv (Replied r) d = (Replied r, d)"

lemma status_steps_are_handler:
  "(case status_step sv (Requested fp st) (web_db s) of (p, d) \<Rightarrow> status_step sv p d) =
     (case handleFindingStatus sv (Some (fp, st)) s of (r, s') \<Rightarrow> (Replied r, web_db s'))"
  by (auto simp: handleFindingStatus_def split: prod.splits sum.splits option.splits)

end
