(* ===== verification/Interleaving.thy ===== *)
theory Interleaving
  imports ScanSteps
begin

section \<open>What holds under any interleaving\<close>

datatype task =
    ScanTask scan
  | StatusTask status_phase

fun task_step ::
  "(instant \<Rightarrow> nat \<Rightarrow> goerror + gostring) \<Rightarrow> ('w, 'o) server \<Rightarrow> task \<Rightarrow> sqldb \<Rightarrow> nat \<Rightarrow> task \<times> sqldb \<times> nat" where
  "task_step newID sv (ScanTask s) d n =
     (case scan_step sql_ListByTarget sql_Upsert newID s d n of (s', d', n') \<Rightarrow> (ScanTask s', d', n'))"
| "task_step newID sv (StatusTask p) d n = (case status_step sv p d of (p', d') \<Rightarrow> (StatusTask p', d', n))"

text \<open>A task that has done nothing yet.\<close>

definition new_task :: "task \<Rightarrow> bool" where
  "new_task t \<longleftrightarrow> (\<exists>mi tgt now fresh. t = ScanTask (new_scan mi tgt now fresh))
     \<or> (\<exists>fp st. t = StatusTask (Requested fp st))"

text \<open>The dashboard's state, the position of the id generator, and the tasks begun so far.\<close>

record 'w busy =
  bz_web :: "'w web"
  bz_drawn :: nat
  bz_tasks :: "task list"

abbreviation bz_db :: "'w busy \<Rightarrow> sqldb" where
  "bz_db s \<equiv> web_db (bz_web s)"

text \<open>
  The states reachable from \<open>s\<close> when the tasks that begin are \<open>allowed\<close> ones. Any task may move at
  any time; every request but a status change is one step.
\<close>

inductive interleaved ::
  "(instant \<Rightarrow> nat \<Rightarrow> goerror + gostring) \<Rightarrow> ('w, 'o) server \<Rightarrow> (task \<Rightarrow> bool) \<Rightarrow> 'w busy \<Rightarrow> 'w busy \<Rightarrow> bool"
  for newID sv allowed s where
  here: "interleaved newID sv allowed s s"
| begun: "interleaved newID sv allowed s u \<Longrightarrow> new_task t \<Longrightarrow> allowed t \<Longrightarrow>
     interleaved newID sv allowed s (u\<lparr>bz_tasks := bz_tasks u @ [t]\<rparr>)"
| moved: "interleaved newID sv allowed s u \<Longrightarrow> i < length (bz_tasks u) \<Longrightarrow>
     task_step newID sv (bz_tasks u ! i) (bz_db u) (bz_drawn u) = (t, d, n) \<Longrightarrow>
     interleaved newID sv allowed s
       (u\<lparr>bz_tasks := (bz_tasks u)[i := t], bz_web := (bz_web u)\<lparr>web_db := d\<rparr>, bz_drawn := n\<rparr>)"
| asked: "interleaved newID sv allowed s u \<Longrightarrow> \<nexists>b. q = PostStatus b \<Longrightarrow>
     Handler (E :: ('o, gostring) env) sv q (bz_web u) = (r, w, js) \<Longrightarrow>
     interleaved newID sv allowed s (u\<lparr>bz_web := w\<rparr>)"

subsection \<open>Every write is an upsert\<close>

text \<open>
  A property of the database that no upsert and no reading statement can break is kept by every
  step of every task.
\<close>

definition upserted :: "sqldb \<Rightarrow> sqldb \<Rightarrow> bool" where
  "upserted d d' \<longleftrightarrow> findings d' = findings d \<or> (\<exists>r e x. findings e = findings d \<and> sql_Upsert r e = (x, d'))"

lemma upserted_refl [simp]: "upserted d d"
  by (simp add: upserted_def)

lemma upserted_Upsert: "sql_Upsert r d = (x, d') \<Longrightarrow> upserted d d'"
  unfolding upserted_def by blast

lemma upserted_same: "findings d' = findings d \<Longrightarrow> upserted d d'"
  by (simp add: upserted_def)

lemma fresh_turn_upserted:
  "reconcile_fresh sql_Upsert newID mi now byFP [f] st = (x, st') \<Longrightarrow> upserted (db st) (db st')"
  by (auto simp: Let_def upserted_Upsert split: option.splits sum.splits prod.splits if_splits)

lemma absent_turn_upserted:
  "reconcile_absent sql_Upsert mi now [r] st = (x, st') \<Longrightarrow> upserted (db st) (db st')"
  by (auto simp: Let_def upserted_Upsert split: option.splits prod.splits if_splits)

lemma ListByTarget_tables: "sql_ListByTarget m tgt d = (x, d') \<Longrightarrow> findings d' = findings d"
  using only_read_query by (simp add: sql_ListByTarget_def only_read_def)

lemma scan_step_upserted:
  assumes "scan_step sql_ListByTarget sql_Upsert newID s d n = (s', d', n')"
  shows "upserted d d'"
proof (cases "sc_phase s")
  case (Merging rows fs)
  then show ?thesis using assms
    by (cases fs) (auto simp: scan_step_def merge_turn_loop after_turn_def simp del: reconcile_fresh.simps
        dest!: fresh_turn_upserted split: prod.splits)
next
  case (Ageing rs)
  then show ?thesis using assms
    by (cases rs) (auto simp: scan_step_def age_turn_loop after_turn_def simp del: reconcile_absent.simps
        dest!: absent_turn_upserted split: prod.splits)
qed (use assms in \<open>auto simp: scan_step_def intro!: upserted_same dest: ListByTarget_tables split: prod.splits sum.splits\<close>)

lemma status_step_upserted:
  assumes "status_step sv p d = (p', d')"
  shows "upserted d d'"
proof (cases p)
  case (Requested fp st)
  then show ?thesis using assms sql_Get_tables
    by (auto intro!: upserted_same split: if_splits prod.splits sum.splits option.splits)
next
  case (Fetched r)
  then show ?thesis using assms upserted_Upsert by (auto split: prod.splits option.splits)
qed (use assms in simp)

lemma task_step_upserted: "task_step newID sv t d n = (t', d', n') \<Longrightarrow> upserted d d'"
  by (cases t) (auto dest: scan_step_upserted status_step_upserted split: prod.splits)

lemma upserted_good: "upserted d d' \<Longrightarrow> sql_good d \<Longrightarrow> sql_good d'"
  unfolding upserted_def using sql_good_Upsert sql_good_tables by metis

text \<open>
  What an upsert leaves of a stored record, whatever record is written: its identity; the status is
  the written one.
\<close>

lemma Upsert_over:
  assumes "sql_good d" "sql_Upsert r d = (None, d')" "sql_lookup d (rkey r) = Some p"
  shows "\<exists>q. sql_lookup d' (rkey r) = Some q \<and> same_identity q p \<and> status q = status r"
proof -
  obtain w where w: "w \<in> set (findings d)" "row_key w = rkey r" "p = scanRecord w"
    using assms(1,3) by (auto simp: sql_lookup_iff)
  have good: "sql_good d'" by (rule sql_good_Upsert [OF assms(1,2)])
  from assms(2) show ?thesis
  proof (cases rule: sql_Upsert_cases)
    case (update ev)
    let ?w = "do_update w (excluded_row r ev)"
    have "?w \<in> set (findings d')" using w by (force simp: update(3))
    then have "sql_lookup d' (rkey r) = Some (scanRecord ?w)"
      using w(2) by (auto simp: sql_lookup_iff [OF good] intro!: bexI [of _ ?w])
    moreover have "same_identity (scanRecord ?w) p"
      by (simp add: w(3) same_identity_def scanRecord_def do_update_def)
    moreover have "status (scanRecord ?w) = status r" by (simp add: do_update_def excluded_row_def)
    ultimately show ?thesis by blast
  next
    case (insert ev)
    then show ?thesis using w by blast
  qed
qed

lemma Upsert_keeps_identity:
  assumes "sql_good d" "sql_Upsert r d = (x, d')" "sql_lookup d k = Some p"
  shows "\<exists>q. sql_lookup d' k = Some q \<and> same_identity q p"
proof (cases "x = None \<and> k = rkey r")
  case True
  then show ?thesis using Upsert_over [OF assms(1)] assms(2,3) by blast
next
  case False
  then have "sql_lookup d' k = sql_lookup d k"
    using assms(1,2) sql_Upsert_elsewhere sql_lookup_tables [OF sql_Upsert_Some] by (cases x) auto
  then show ?thesis using assms(3) by (simp add: same_identity_def)
qed

lemma upserted_keeps_identity:
  assumes "upserted d d'" "sql_good d" "sql_lookup d k = Some p"
  shows "\<exists>q. sql_lookup d' k = Some q \<and> same_identity q p"
proof -
  from assms(1) consider "findings d' = findings d" | r e x where "findings e = findings d" "sql_Upsert r e = (x, d')"
    by (auto simp: upserted_def)
  then show ?thesis
  proof cases
    case 1
    from sql_lookup_tables [OF this] show ?thesis using assms(3) by (simp add: same_identity_def)
  next
    case (2 r e x)
    from sql_lookup_tables [OF 2(1)] sql_good_tables [OF 2(1) assms(2)] Upsert_keeps_identity [OF _ 2(2)] assms(3)
    show ?thesis by simp
  qed
qed

text \<open>A schedule: which task moves next, and next.\<close>

fun schedule :: "(instant \<Rightarrow> nat \<Rightarrow> goerror + gostring) \<Rightarrow> ('w, 'o) server \<Rightarrow> nat list \<Rightarrow> 'w busy \<Rightarrow> 'w busy" where
  "schedule newID sv [] s = s"
| "schedule newID sv (i # is) s =
     (if i < length (bz_tasks s) then
        (case task_step newID sv (bz_tasks s ! i) (bz_db s) (bz_drawn s) of
           (t, d, n) \<Rightarrow> schedule newID sv is
             (s\<lparr>bz_tasks := (bz_tasks s)[i := t], bz_web := (bz_web s)\<lparr>web_db := d\<rparr>, bz_drawn := n\<rparr>))
      else schedule newID sv is s)"

lemma schedule_interleaved:
  "interleaved newID sv allowed s u \<Longrightarrow> interleaved newID sv allowed s (schedule newID sv is u)"
proof (induction "is" arbitrary: u)
  case (Cons i "is")
  obtain t d n where step: "task_step newID sv (bz_tasks u ! i) (bz_db u) (bz_drawn u) = (t, d, n)"
    using prod_cases3 by blast
  show ?case
  proof (cases "i < length (bz_tasks u)")
    case True
    from Cons.IH [OF interleaved.moved [OF Cons.prems True step]] show ?thesis using True step by simp
  next
    case False
    then show ?thesis using Cons by simp
  qed
qed simp

text \<open>
  (C10) No interleaving breaks the store or a record's identity. Let any number of scans of any
  targets, status changes and other requests run, overlapping statement by statement in any order:
  the tables stay well formed (no key and no id twice), no stored finding disappears, and each keeps
  its id, target, check and first-seen time.
\<close>

theorem identity_survives_interleaving:
  assumes "interleaved newID sv allowed s u" "sql_good (bz_db s)"
  shows "sql_good (bz_db u)
    \<and> (\<forall>k p. sql_lookup (bz_db s) k = Some p \<longrightarrow> (\<exists>q. sql_lookup (bz_db u) k = Some q \<and> same_identity q p))"
  using assms(1)
proof (induction rule: interleaved.induct)
  case here
  then show ?case using assms(2) by (auto simp: same_identity_def)
next
  case (begun u t)
  then show ?case by simp
next
  case (moved u i t d n)
  have up: "upserted (bz_db u) d" by (rule task_step_upserted [OF moved.hyps(3)])
  have good: "sql_good (bz_db u)" using moved.IH by blast
  have "\<exists>q'. sql_lookup d k = Some q' \<and> same_identity q' p" if look: "sql_lookup (bz_db s) k = Some p" for k p
  proof -
    obtain q where q: "sql_lookup (bz_db u) k = Some q" "same_identity q p" using moved.IH look by blast
    from upserted_keeps_identity [OF up good q(1)] q(2) show ?thesis by (auto simp: same_identity_def)
  qed
  then show ?case using upserted_good [OF up good] by simp
next
  case (asked u q E r w js)
  then have "findings (web_db w) = findings (bz_db u)"
    using other_requests_keep_findings [OF asked.hyps(3)] by blast
  from sql_good_tables [OF this] sql_lookup_tables [OF this] show ?case using asked.IH by simp
qed

text \<open>Two scans that report the same finding, and a status change of a third party, all at once.\<close>

definition demo_busy :: "finding_status \<Rightarrow> unit busy" where
  "demo_busy st =
     (let t = ScanTask (new_scan demo_module ''example.com'' 7 [demo_finding ''f1'', demo_finding ''f2''])
      in \<lparr>bz_web = demo_web\<lparr>web_db := demo_db st 0\<rparr>, bz_drawn = 0,
          bz_tasks = [t, t, StatusTask (Requested ''f2'' StatusAcknowledged)]\<rparr>)"

lemma demo_busy_db: "bz_db (demo_busy st) = demo_db st 0"
  by (simp add: demo_busy_def Let_def)

definition demo_schedule :: "nat list" where
  "demo_schedule = [0, 1, 0, 1, 0, 2, 1, 2, 0, 1, 1, 0]"

lemma identity_survives_interleaving_witness:
  "map_option finding_id (sql_lookup (bz_db (schedule demo_ids demo_server demo_schedule (demo_busy StatusOpen))) (''asm'', ''f1''))
     = Some (finding_id (demo_record StatusOpen 0))"
proof -
  have run: "interleaved demo_ids demo_server (\<lambda>_. True) (demo_busy StatusOpen)
      (schedule demo_ids demo_server demo_schedule (demo_busy StatusOpen))"
    by (rule schedule_interleaved [OF interleaved.here])
  have "sql_lookup (bz_db (demo_busy StatusOpen)) (''asm'', ''f1'') = Some (demo_record StatusOpen 0)"
    by (simp add: demo_busy_db demo_lookup)
  with identity_survives_interleaving [OF run] show ?thesis
    unfolding demo_busy_db using demo_db_good by (force simp: same_identity_def)
qed

subsection \<open>What a task may write\<close>

lemma fresh_turn_write:
  assumes "reconcile_fresh sql_Upsert newID mi now byFP [f] st = (x, st')"
  obtains "findings (db st') = findings (db st)"
  | r y where "well_formed f" "sql_Upsert r (db st) = (y, db st')"
      "case byFP (fingerprint f) of None \<Rightarrow> rkey r = (module_ID mi, fingerprint f)
       | Some q \<Rightarrow> rkey r = rkey q \<and> status r = (if status q = StatusResolved then StatusOpen else status q)"
proof (cases "ValidateForIngest f")
  case (Some e)
  then show thesis using assms that(1) by auto
next
  case None
  then have wf: "well_formed f" by (simp add: well_formed_code)
  show thesis
  proof (cases "byFP (fingerprint f)")
    case new: None
    show thesis
    proof (cases "newID now (drawn st)")
      case (Inl e)
      then show thesis using assms None new that(1) by (auto simp: Let_def)
    next
      case (Inr i)
      let ?r = "new_record (module_ID mi) now i (capEvidence f)"
      obtain y d' where up: "sql_Upsert ?r (db st) = (y, d')" by fastforce
      then have "db st' = d'" using assms None new Inr by (cases y) (auto simp: Let_def)
      with up have "\<exists>y. sql_Upsert ?r (db st) = (y, db st')" by blast
      moreover have "rkey ?r = (module_ID mi, fingerprint f)" by (simp add: rkey_def)
      ultimately show thesis using that(2) wf new by auto
    qed
  next
    case (Some q)
    let ?r = "merge_record now q (capEvidence f)"
    obtain y d' where up: "sql_Upsert ?r (db st) = (y, d')" by fastforce
    then have "db st' = d'" using assms None Some by (cases y) (auto simp: Let_def split: if_splits)
    with up have "\<exists>y. sql_Upsert ?r (db st) = (y, db st')" by blast
    moreover have "rkey ?r = rkey q" by (simp add: rkey_def)
    moreover have "status ?r = (if status q = StatusResolved then StatusOpen else status q)"
      by (simp add: merge_record_def)
    ultimately show thesis using that(2) wf Some by auto
  qed
qed

lemma absent_turn_write:
  assumes "reconcile_absent sql_Upsert mi now [r0] st = (x, st')"
  obtains "findings (db st') = findings (db st)"
  | r y where "\<not> leave_absent r0" "sql_Upsert r (db st) = (y, db st')" "rkey r = rkey r0"
proof (cases "fingerprint r0 \<in> set (seen st) \<or> leave_absent r0")
  case True
  then show thesis using assms that(1) by auto
next
  case False
  let ?r = "absent_record mi now r0"
  obtain y d' where up: "sql_Upsert ?r (db st) = (y, d')" by fastforce
  then have "db st' = d'" using assms False by (cases y) (auto simp: Let_def split: if_splits)
  with up have "\<exists>y. sql_Upsert ?r (db st) = (y, db st')" by blast
  moreover have "rkey ?r = rkey r0" by (simp add: rkey_def)
  ultimately show thesis using that(2) False by auto
qed

subsection \<open>A suppressed finding stays suppressed\<close>

text \<open>
  A task is aware that a finding of target \<open>tgt\<close> is suppressed when the copies of its record that it
  holds say so; when it is a scan of the module that will still report the finding and has read the
  rows, it holds such a copy, and when it has not read them it will, being a scan of \<open>tgt\<close>. A status
  change is aware when it is not about the finding, or suppresses it.
\<close>

definition reports :: "finding list \<Rightarrow> gostring \<Rightarrow> bool" where
  "reports fs fp \<longleftrightarrow> (\<exists>f \<in> set fs. well_formed f \<and> fingerprint f = fp)"

definition copies_suppressed :: "gostring \<Rightarrow> gostring \<Rightarrow> frec list \<Rightarrow> bool" where
  "copies_suppressed m fp rows \<longleftrightarrow> (\<forall>r \<in> set rows. rkey r = (m, fp) \<longrightarrow> status r = StatusSuppressed)"

fun aware :: "gostring \<Rightarrow> gostring \<Rightarrow> gostring \<Rightarrow> task \<Rightarrow> bool" where
  "aware m fp tgt (ScanTask s) \<longleftrightarrow>
     (case sc_phase s of
        Listing fresh \<Rightarrow> module_ID (sc_module s) = m \<longrightarrow> reports fresh fp \<longrightarrow> sc_target s = tgt
      | Merging rows fs \<Rightarrow> copies_suppressed m fp rows
          \<and> (module_ID (sc_module s) = m \<longrightarrow> reports fs fp \<longrightarrow> by_fingerprint rows fp \<noteq> None)
          \<and> (\<forall>r \<in> set rows. finding_module r = module_ID (sc_module s))
      | Ageing rows \<Rightarrow> copies_suppressed m fp rows
      | Ended x \<Rightarrow> True)"
| "aware m fp tgt (StatusTask p) \<longleftrightarrow>
     (case p of
        Requested fp' st \<Rightarrow> fp' = fp \<longrightarrow> st = StatusSuppressed
      | Fetched r \<Rightarrow> copies_suppressed m fp [r]
      | Replied a \<Rightarrow> True)"

definition suppressed :: "gostring \<Rightarrow> gostring \<Rightarrow> gostring \<Rightarrow> sqldb \<Rightarrow> bool" where
  "suppressed m fp tgt d \<longleftrightarrow> sql_good d
     \<and> (\<exists>r. sql_lookup d (m, fp) = Some r \<and> status r = StatusSuppressed \<and> target r = tgt)"

lemma suppressed_tables: "findings d' = findings d \<Longrightarrow> suppressed m fp tgt d' = suppressed m fp tgt d"
  using sql_lookup_tables [of d' d] sql_good_tables [of d' d] sql_good_tables [of d d']
  by (auto simp: suppressed_def)

lemma Upsert_suppressed:
  assumes "suppressed m fp tgt d" "sql_Upsert r d = (x, d')" "rkey r = (m, fp) \<Longrightarrow> status r = StatusSuppressed"
  shows "suppressed m fp tgt d'"
proof (cases "x = None \<and> rkey r = (m, fp)")
  case True
  obtain p where p: "sql_good d" "sql_lookup d (m, fp) = Some p" "target p = tgt"
    using assms(1) by (auto simp: suppressed_def)
  from True have key: "rkey r = (m, fp)" and up: "sql_Upsert r d = (None, d')" using assms(2) by simp_all
  from Upsert_over [OF p(1) up] p(2) key obtain q where
    "sql_lookup d' (m, fp) = Some q" "same_identity q p" "status q = status r" by auto
  then show ?thesis using assms(3) [OF key] p(3) sql_good_Upsert [OF p(1) up]
    by (simp add: suppressed_def same_identity_def)
next
  case False
  have good: "sql_good d" using assms(1) by (simp add: suppressed_def)
  from False have "sql_lookup d' (m, fp) = sql_lookup d (m, fp)"
    using assms(2) sql_Upsert_elsewhere [OF good] sql_lookup_tables [OF sql_Upsert_Some] by (cases x) auto
  then show ?thesis using assms(1) sql_good_Upsert [OF good assms(2)] by (simp add: suppressed_def)
qed

lemma listing_aware:
  assumes "suppressed m fp tgt d" "sql_ListByTarget m' tgt' d = (Inr rows, d')"
  shows "copies_suppressed m fp rows" and "\<forall>r \<in> set rows. finding_module r = m'"
    and "m' = m \<Longrightarrow> tgt' = tgt \<Longrightarrow> by_fingerprint rows fp \<noteq> None"
proof -
  have good: "sql_good d" using assms(1) by (simp add: suppressed_def)
  obtain p where p: "sql_lookup d (m, fp) = Some p" "status p = StatusSuppressed" "target p = tgt"
    using assms(1) by (auto simp: suppressed_def)
  note L = sql.list_table [OF good TrueI assms(2)]
  have rows: "set rows = {r. sql_lookup d (m', fingerprint r) = Some r \<and> target r = tgt'}"
    using lists_table_set L by blast
  have key: "rkey r = (m', fingerprint r)" if "r \<in> set rows" for r
    using that sql.lookup_key [OF good TrueI] unfolding rows by blast
  show "\<forall>r \<in> set rows. finding_module r = m'" using key by (simp add: rkey_def)
  show "copies_suppressed m fp rows"
    unfolding copies_suppressed_def using key rows p(1,2) by fastforce
  show "by_fingerprint rows fp \<noteq> None" if "m' = m" "tgt' = tgt"
    using by_fingerprint_lookup [of rows _ _ fp] L p that by fastforce
qed

text \<open>One step of an aware task keeps the finding suppressed and the task aware.\<close>

lemma merging_aware:
  assumes "suppressed m fp tgt d" "sc_phase s = Merging rows (f # fs)" "aware m fp tgt (ScanTask s)"
    and "scan_step sql_ListByTarget sql_Upsert newID s d n = (s', d', n')"
  shows "suppressed m fp tgt d' \<and> aware m fp tgt (ScanTask s')"
proof -
  let ?m = "module_ID (sc_module s)"
  have A: "copies_suppressed m fp rows" "?m = m \<Longrightarrow> reports (f # fs) fp \<Longrightarrow> by_fingerprint rows fp \<noteq> None"
    "\<forall>r \<in> set rows. finding_module r = ?m"
    using assms(2,3) by auto
  obtain x st where turn: "reconcile_fresh sql_Upsert newID (sc_module s) (sc_now s) (by_fingerprint rows) [f] (loop_state s d n) = (x, st)"
    by fastforce
  have s': "s' = s\<lparr>sc_phase := (case x of Some e \<Rightarrow> Ended (Some e) | None \<Rightarrow> Merging rows fs), sc_res := res st, sc_seen := seen st\<rparr>"
    and d': "d' = db st"
    using assms(4) unfolding scan_step_Merging [OF assms(2)] turn by (simp_all add: after_turn_def)
  have "reports fs fp \<Longrightarrow> reports (f # fs) fp" by (auto simp: reports_def)
  then have aware': "aware m fp tgt (ScanTask s')" using A s' by (cases x) auto
  from turn have "suppressed m fp tgt (db st)"
  proof (cases rule: fresh_turn_write)
    case 1
    then show ?thesis using assms(1) suppressed_tables [OF 1] by simp
  next
    case (2 r y)
    have "status r = StatusSuppressed" if key: "rkey r = (m, fp)"
    proof (cases "by_fingerprint rows (fingerprint f)")
      case None
      then have "?m = m" "fingerprint f = fp" using 2(3) key by auto
      then show ?thesis using None A(2) 2(1) by (auto simp: reports_def)
    next
      case (Some q)
      then have "q \<in> set rows" "rkey q = (m, fp)" using by_fingerprint_key 2(3) key by auto
      then have "status q = StatusSuppressed" using A(1) by (auto simp: copies_suppressed_def)
      then show ?thesis using 2(3) Some by (simp add: status_simps)
    qed
    then show ?thesis using Upsert_suppressed [OF assms(1)] 2(2) by simp
  qed
  with aware' d' show ?thesis by simp
qed

lemma ageing_aware:
  assumes "suppressed m fp tgt d" "sc_phase s = Ageing (r0 # rs)" "aware m fp tgt (ScanTask s)"
    and "scan_step sql_ListByTarget sql_Upsert newID s d n = (s', d', n')"
  shows "suppressed m fp tgt d' \<and> aware m fp tgt (ScanTask s')"
proof -
  have A: "copies_suppressed m fp (r0 # rs)" using assms(2,3) by simp
  obtain x st where turn: "reconcile_absent sql_Upsert (sc_module s) (sc_now s) [r0] (loop_state s d n) = (x, st)"
    by fastforce
  have s': "s' = s\<lparr>sc_phase := (case x of Some e \<Rightarrow> Ended (Some e) | None \<Rightarrow> Ageing rs), sc_res := res st, sc_seen := seen st\<rparr>"
    and d': "d' = db st"
    using assms(4) unfolding scan_step_Ageing [OF assms(2)] turn by (simp_all add: after_turn_def)
  have aware': "aware m fp tgt (ScanTask s')" using A s' by (cases x) (auto simp: copies_suppressed_def)
  from turn have "suppressed m fp tgt (db st)"
  proof (cases rule: absent_turn_write)
    case 1
    then show ?thesis using assms(1) suppressed_tables [OF 1] by simp
  next
    case (2 r y)
    then have "rkey r \<noteq> (m, fp)" using A by (auto simp: copies_suppressed_def leave_absent_def)
    then show ?thesis using Upsert_suppressed [OF assms(1), of r y "db st"] 2(2) by simp
  qed
  with aware' d' show ?thesis by simp
qed

lemma status_step_aware:
  assumes "suppressed m fp tgt d" "aware m fp tgt (StatusTask p)" "status_step sv p d = (p', d')"
  shows "suppressed m fp tgt d' \<and> aware m fp tgt (StatusTask p')"
proof (cases p)
  case (Requested fp' st)
  obtain x e where get: "sql_Get (module_ID (sv_Module sv)) fp' d = (x, e)" by fastforce
  note same = sql_Get_tables [OF get]
  have "sql_good d" using assms(1) by (simp add: suppressed_def)
  then have "rkey r = (module_ID (sv_Module sv), fp')" if "x = Inr (Some r)" for r
    using sql_Get_lookup get that sql.lookup_key by metis
  then show ?thesis
    using assms Requested get suppressed_tables [OF same]
    by (auto simp: copies_suppressed_def rkey_def split: if_splits sum.splits option.splits)
next
  case (Fetched r)
  obtain x e where up: "sql_Upsert r d = (x, e)" by fastforce
  have "rkey r = (m, fp) \<Longrightarrow> status r = StatusSuppressed" using assms(2) Fetched by (simp add: copies_suppressed_def)
  then have "suppressed m fp tgt e" by (rule Upsert_suppressed [OF assms(1) up])
  then show ?thesis using assms(3) Fetched up by (auto split: option.splits)
qed (use assms in auto)

lemma task_step_aware:
  assumes "suppressed m fp tgt d" "aware m fp tgt t" "task_step newID sv t d n = (t', d', n')"
  shows "suppressed m fp tgt d' \<and> aware m fp tgt t'"
proof (cases t)
  case (StatusTask p)
  then show ?thesis using assms status_step_aware [OF assms(1)] by (auto split: prod.splits)
next
  case (ScanTask s)
  then obtain s' where run: "scan_step sql_ListByTarget sql_Upsert newID s d n = (s', d', n')" and t': "t' = ScanTask s'"
    using assms(3) by (auto split: prod.splits)
  have aw: "aware m fp tgt (ScanTask s)" using assms(2) ScanTask by simp
  show ?thesis
  proof (cases "sc_phase s")
    case (Listing fresh)
    obtain x e where lst: "sql_ListByTarget (module_ID (sc_module s)) (sc_target s) d = (x, e)" by fastforce
    have e: "suppressed m fp tgt e" using assms(1) suppressed_tables [OF ListByTarget_tables [OF lst]] by simp
    show ?thesis
    proof (cases x)
      case (Inl err)
      then show ?thesis using run Listing lst e t' by (auto simp: scan_step_def)
    next
      case (Inr rows)
      note L = listing_aware [OF assms(1) lst [unfolded Inr]]
      show ?thesis using run Listing lst Inr e t' L aw by (auto simp: scan_step_def)
    qed
  next
    case (Merging rows fs)
    show ?thesis
    proof (cases fs)
      case Nil
      then show ?thesis using run Merging assms(1) aw t' by (auto simp: scan_step_def)
    next
      case (Cons f gs)
      then show ?thesis using merging_aware [OF assms(1) _ aw run] Merging t' by simp
    qed
  next
    case (Ageing rs)
    show ?thesis
    proof (cases rs)
      case Nil
      then show ?thesis using run Ageing assms(1) t' by (auto simp: scan_step_def)
    next
      case (Cons r gs)
      then show ?thesis using ageing_aware [OF assms(1) _ aw run] Ageing t' by simp
    qed
  next
    case (Ended x)
    then show ?thesis using run assms(1) aw t' by (auto simp: scan_step_def)
  qed
qed

text \<open>
  (C9) When a suppression is safe. Suppose the finding is stored as suppressed and every task in
  progress is aware of it, for instance because none is in progress. Then, whatever overlaps from
  there on, it stays suppressed, as long as only scans of its own target report it and no user gives
  it another status. (Without awareness it need not: a scan that read the row before loses the
  decision.)
\<close>

theorem suppression_survives_interleaving:
  assumes "interleaved newID sv (aware m fp tgt) s u"
    and "suppressed m fp tgt (bz_db s)" "\<forall>t \<in> set (bz_tasks s). aware m fp tgt t"
  shows "suppressed m fp tgt (bz_db u) \<and> (\<forall>t \<in> set (bz_tasks u). aware m fp tgt t)"
  using assms(1)
proof (induction rule: interleaved.induct)
  case here
  then show ?case using assms(2,3) by blast
next
  case (begun u t)
  then show ?case by auto
next
  case (moved u i t d n)
  have "aware m fp tgt (bz_tasks u ! i)" using moved by auto
  from task_step_aware [OF _ this moved.hyps(3)] moved.IH show ?case
    by (auto dest: set_update_subset_insert [THEN subsetD])
next
  case (asked u q E r w js)
  then have "findings (web_db w) = findings (bz_db u)"
    using other_requests_keep_findings [OF asked.hyps(3)] by blast
  from suppressed_tables [OF this] asked.IH show ?case by simp
qed

lemma suppression_survives_interleaving_witness:
  "map_option status (sql_lookup (bz_db (schedule demo_ids demo_server demo_schedule (demo_busy StatusSuppressed))) (''asm'', ''f1''))
     = Some StatusSuppressed"
proof -
  have run: "interleaved demo_ids demo_server (aware ''asm'' ''f1'' ''example.com'') (demo_busy StatusSuppressed)
      (schedule demo_ids demo_server demo_schedule (demo_busy StatusSuppressed))"
    by (rule schedule_interleaved [OF interleaved.here])
  have "suppressed ''asm'' ''f1'' ''example.com'' (bz_db (demo_busy StatusSuppressed))"
    by (simp add: suppressed_def demo_busy_db demo_db_good demo_lookup demo_record_status)
      (simp add: demo_record_def new_record_def demo_finding_def)
  moreover have "\<forall>t \<in> set (bz_tasks (demo_busy StatusSuppressed)). aware ''asm'' ''f1'' ''example.com'' t"
    by (simp add: demo_busy_def Let_def new_scan_def)
  ultimately show ?thesis using suppression_survives_interleaving [OF run] by (auto simp: suppressed_def)
qed

end
