(* ===== verification/TargetSteps.thy ===== *)
theory TargetSteps
  imports WebProperties
begin

section \<open>Adding and removing targets at once (\<open>web/server.go\<close>)\<close>

text \<open>
  \<open>handleAddTarget\<close> counts the targets, then adds to the registry, then saves; \<open>handleRemoveTarget\<close>
  removes from the registry, then deletes. Each of these takes the lock it needs and gives it back, so
  the requests of different users come between. Here both handlers are tasks of such steps.
\<close>

datatype add_phase =
    Received gostring
  | Admitted gostring
  | Monitored scan_target
  | AddAnswered response

datatype remove_phase = Asked gostring | Unregistered gostring | RemoveAnswered response

datatype target_task = AddTask add_phase | RemoveTask remove_phase

fun add_step :: "('w, 'o) server \<Rightarrow> add_phase \<Rightarrow> 'w web \<Rightarrow> add_phase \<times> 'w web \<times> (gostring \<times> scan_target) list" where
  "add_step sv (Received raw) s =
     (if \<not> canAdd (effLimits sv s) (int (length (ListTargets (module_ID (sv_Module sv)) (web_sched s))))
      then (AddAnswered (httpError 402 target_limit_text), s, []) else (Admitted raw, s, []))"
| "add_step sv (Admitted raw) s =
     (case AddTarget (module_ID (sv_Module sv)) raw (web_sched s) (web_world s) of
        (Inl e, sc, w, js) \<Rightarrow> (AddAnswered (httpError 400 e), s\<lparr>web_sched := sc, web_world := w\<rparr>, js)
      | (Inr t, sc, w, js) \<Rightarrow>
          ((if sv_Targets sv then Monitored t else AddAnswered (writeJSON (CanonicalBody (Canonical t)))),
           s\<lparr>web_sched := sc, web_world := w\<rparr>, js))"
| "add_step sv (Monitored t) s =
     (case sql_SaveTarget (module_ID (sv_Module sv)) (Raw t) (Canonical t) (web_db s) of
        (Some e, d) \<Rightarrow> (AddAnswered (httpError 500 ''target added but could not be persisted''), s\<lparr>web_db := d\<rparr>, [])
      | (None, d) \<Rightarrow> (AddAnswered (writeJSON (CanonicalBody (Canonical t))), s\<lparr>web_db := d\<rparr>, []))"
| "add_step sv (AddAnswered r) s = (AddAnswered r, s, [])"

fun remove_step :: "('w, 'o) server \<Rightarrow> remove_phase \<Rightarrow> 'w web \<Rightarrow> remove_phase \<times> 'w web" where
  "remove_step sv (Asked canonical) s =
     (if canonical = [] then (RemoveAnswered (httpError 400 ''canonical query parameter required''), s)
      else (Unregistered canonical,
            s\<lparr>web_sched := RemoveTarget (module_ID (sv_Module sv)) canonical (web_sched s)\<rparr>))"
| "remove_step sv (Unregistered canonical) s =
     (RemoveAnswered (writeJSON OkBody),
      if sv_Targets sv
      then s\<lparr>web_db := snd (sql_DeleteTarget (module_ID (sv_Module sv)) canonical (web_db s))\<rparr> else s)"
| "remove_step sv (RemoveAnswered r) s = (RemoveAnswered r, s)"

fun target_step :: "('w, 'o) server \<Rightarrow> target_task \<Rightarrow> 'w web \<Rightarrow> target_task \<times> 'w web" where
  "target_step sv (AddTask p) s = (case add_step sv p s of (p', s', js) \<Rightarrow> (AddTask p', s'))"
| "target_step sv (RemoveTask p) s = (case remove_step sv p s of (p', s') \<Rightarrow> (RemoveTask p', s'))"

text \<open>Uninterrupted, the tasks are the handlers.\<close>

lemma add_steps_are_handler:
  "(case add_step sv (Received raw) s of (p, s1, js1) \<Rightarrow>
      case add_step sv p s1 of (p, s2, js2) \<Rightarrow>
      case add_step sv p s2 of (p, s3, js3) \<Rightarrow> (p, s3, js1 @ js2 @ js3)) =
   (case handleAddTarget sv (Some raw) s of (r, s', js) \<Rightarrow> (AddAnswered r, s', js))"
  by (auto simp: handleAddTarget_def Let_def split: prod.splits sum.splits option.splits)

lemma remove_steps_are_handler:
  "(case remove_step sv (Asked c) s of (p, s1) \<Rightarrow> remove_step sv p s1) =
   (case handleRemoveTarget sv c s of (r, s') \<Rightarrow> (RemoveAnswered r, s'))"
  by (auto simp: handleRemoveTarget_def Let_def)

subsection \<open>How far the limit can be overrun\<close>

record 'w crowd =
  cw_web :: "'w web"
  cw_tasks :: "target_task list"

fun in_progress :: "target_task \<Rightarrow> bool" where
  "in_progress (AddTask (AddAnswered r)) = False"
| "in_progress (AddTask p) = True"
| "in_progress (RemoveTask p) = False"

fun admitted :: "target_task \<Rightarrow> bool" where
  "admitted (AddTask (Admitted raw)) = True"
| "admitted t = False"

text \<open>
  What is reachable when at most \<open>k\<close> requests to add a target are in progress at a time, beside any
  removals and other requests.
\<close>

inductive crowded :: "('w, 'o) server \<Rightarrow> nat \<Rightarrow> 'w crowd \<Rightarrow> 'w crowd \<Rightarrow> bool" for sv k s where
  alone: "crowded sv k s s"
| adding: "crowded sv k s u \<Longrightarrow> length (filter in_progress (cw_tasks u)) < k \<Longrightarrow>
     crowded sv k s (u\<lparr>cw_tasks := cw_tasks u @ [AddTask (Received raw)]\<rparr>)"
| removing: "crowded sv k s u \<Longrightarrow> crowded sv k s (u\<lparr>cw_tasks := cw_tasks u @ [RemoveTask (Asked c)]\<rparr>)"
| moving: "crowded sv k s u \<Longrightarrow> i < length (cw_tasks u) \<Longrightarrow>
     target_step sv (cw_tasks u ! i) (cw_web u) = (t, w) \<Longrightarrow>
     crowded sv k s (u\<lparr>cw_tasks := (cw_tasks u)[i := t], cw_web := w\<rparr>)"
| asking: "crowded sv k s u \<Longrightarrow> \<nexists>b. q = PostTarget b \<Longrightarrow> \<nexists>c. q = DeleteTarget c \<Longrightarrow>
     Handler (E :: ('o, gostring) env) sv q (cw_web u) = (r, w, js) \<Longrightarrow>
     crowded sv k s (u\<lparr>cw_web := w\<rparr>)"

lemma length_filter_update:
  assumes "i < length xs"
  shows "length (filter P (xs[i := x])) + (if P (xs ! i) then 1 else 0) = length (filter P xs) + (if P x then 1 else 0)"
proof -
  obtain ys y zs where xs: "xs = ys @ y # zs" "length ys = i" using id_take_nth_drop [OF assms] assms
    by (metis length_take min.absorb4)
  then have "xs[i := x] = ys @ x # zs" "xs ! i = y" by (simp_all add: xs(2) [symmetric])
  then show ?thesis by (simp add: xs(1))
qed

text \<open>One step of a task: what it does to the registry and to its place in the queue.\<close>

lemma target_count_AddTarget:
  assumes "AddTarget (module_ID (sv_Module sv)) raw (web_sched s) w0 = (x, sc, w, js)" "sched_ok (web_sched s)"
  shows "sched_ok sc" "target_count sv (s\<lparr>web_sched := sc, web_world := w\<rparr>) \<le> Suc (target_count sv s)"
proof -
  show ok: "sched_ok sc" using sched_ok_AddTarget [OF assms(2)] assms(1) by (metis fst_conv snd_conv)
  let ?r = "registered (web_sched s) (module_ID (sv_Module sv))"
  show "target_count sv (s\<lparr>web_sched := sc, web_world := w\<rparr>) \<le> Suc (target_count sv s)"
    using registered_AddTarget [OF assms(1)] ok assms(2) card_dom_upd [OF finite_registered]
    by (auto simp: target_count_card split: sum.splits)
qed

lemma target_count_RemoveTarget:
  assumes "sched_ok (web_sched s)"
  shows "target_count sv (s\<lparr>web_sched := RemoveTarget (module_ID (sv_Module sv)) c (web_sched s)\<rparr>) \<le> target_count sv s"
  using sched_ok_RemoveTarget [OF assms] assms
  by (auto simp: target_count_card registered_RemoveTarget intro!: card_mono finite_registered)

lemma target_step_cases:
  assumes "target_step sv t s = (t', s')" "sched_ok (web_sched s)"
  obtains (same) "target_count sv s' \<le> target_count sv s" "admitted t' \<Longrightarrow> admitted t"
    | (admit) "target_count sv s' = target_count sv s" "canAdd (effLimits sv s) (int (target_count sv s))"
    | (add) "target_count sv s' \<le> Suc (target_count sv s)" "admitted t" "\<not> admitted t'"
proof (cases t)
  case (AddTask p)
  show thesis
  proof (cases p)
    case (Received raw)
    then show thesis using assms(1) AddTask same admit
      by (auto simp: target_count_def split: if_splits)
  next
    case (Admitted raw)
    obtain x sc w js where add_target: "AddTarget (module_ID (sv_Module sv)) raw (web_sched s) (web_world s) = (x, sc, w, js)"
      by (metis prod.exhaust)
    then have "s' = s\<lparr>web_sched := sc, web_world := w\<rparr>" "\<not> admitted t'"
      using assms(1) AddTask Admitted by (auto split: sum.splits if_splits)
    then show thesis using add target_count_AddTarget(2) [OF add_target assms(2)] AddTask Admitted by simp
  next
    case (Monitored x)
    then show thesis using assms(1) AddTask same by (auto simp: target_count_def split: prod.splits option.splits)
  next
    case (AddAnswered r)
    then show thesis using assms(1) AddTask same by simp
  qed
next
  case (RemoveTask p)
  then have "target_count sv s' \<le> target_count sv s \<and> \<not> admitted t'"
    using assms(1) target_count_RemoveTarget [OF assms(2)]
    by (cases p) (auto simp: target_count_def split: if_splits)
  then show thesis using same by blast
qed

lemma target_step_keeps:
  assumes "target_step sv t s = (t', s')"
  shows "web_activation s' = web_activation s" "sched_ok (web_sched s) \<Longrightarrow> sched_ok (web_sched s')"
    and "in_progress t' \<Longrightarrow> in_progress t"
proof -
  have "web_activation s' = web_activation s \<and> (sched_ok (web_sched s) \<longrightarrow> sched_ok (web_sched s'))
    \<and> (in_progress t' \<longrightarrow> in_progress t)"
  proof (cases t)
    case (AddTask p)
    then show ?thesis using assms target_count_AddTarget(1) [of sv]
      by (cases p) (auto split: prod.splits sum.splits option.splits if_splits)
  next
    case (RemoveTask p)
    then show ?thesis using assms by (cases p) (auto simp: sched_ok_RemoveTarget split: if_splits)
  qed
  then show "web_activation s' = web_activation s" "sched_ok (web_sched s) \<Longrightarrow> sched_ok (web_sched s')"
    "in_progress t' \<Longrightarrow> in_progress t" by blast+
qed

lemma admitted_in_progress: "admitted t \<Longrightarrow> in_progress t"
  by (cases t rule: admitted.cases) simp_all

lemma other_requests_registry:
  assumes "Handler E sv q s = (r, s', js)" "\<nexists>b. q = PostTarget b" "\<nexists>c. q = DeleteTarget c"
  shows "web_sched s' = web_sched s"
  using assms(1)
proof (cases rule: Handler_cases)
  case reads
  then show ?thesis by (simp add: same_but_db_def)
next
  case (status b)
  then show ?thesis
    by (auto simp: handleFindingStatus_def split: option.splits prod.splits sum.splits if_splits)
next
  case (license b)
  then show ?thesis
    by (auto simp: handleSetLicense_def Let_def split: option.splits if_splits prod.splits)
qed (use assms in auto)

text \<open>
  (C3) Requests that come together can pass the limit together, but no further than that. In a build
  without an issuer key, with at most \<open>k\<close> requests to add a target in progress at a time, among any
  removals and other requests and in any order of their steps, the product monitors at most \<open>k - 1\<close>
  targets more than its free tier allows.
\<close>

theorem limit_overrun_bounded:
  assumes "crowded sv k s u" "cw_tasks s = []" "0 < k" "sched_ok (web_sched (cw_web s))"
    and "length (sv_IssuerPub sv) \<noteq> PublicKeySize" "act_Tier (web_activation (cw_web s)) = TierFree"
    and "sv_TierLimits sv = Some table" "map_of table TierFree = Some l" "0 < MaxTargets l"
    and "int (target_count sv (cw_web s)) \<le> MaxTargets l"
  shows "int (target_count sv (cw_web u)) \<le> MaxTargets l + int k - 1"
proof -
  let ?A = "\<lambda>u. length (filter admitted (cw_tasks u))" and ?P = "\<lambda>u. length (filter in_progress (cw_tasks u))"
  have few: "length (filter admitted ts) \<le> length (filter in_progress ts)" for ts
    by (induction ts) (auto dest: admitted_in_progress)
  have "sched_ok (web_sched (cw_web u)) \<and> act_Tier (web_activation (cw_web u)) = TierFree \<and> ?P u \<le> k
    \<and> int (target_count sv (cw_web u)) + int (?A u) \<le> MaxTargets l + int k - 1"
    using assms(1)
  proof (induction rule: crowded.induct)
    case alone
    then show ?case using assms by simp
  next
    case (moving u i t w)
    note keeps = target_step_keeps [OF moving.hyps(3)]
    let ?ts = "(cw_tasks u)[i := t]"
    have P: "length (filter in_progress ?ts) \<le> k"
      using length_filter_update [OF moving.hyps(2), of in_progress t] keeps(3) moving.IH by (auto split: if_splits)
    note A = length_filter_update [OF moving.hyps(2), of admitted t]
    have ok: "sched_ok (web_sched (cw_web u))" using moving.IH by blast
    from moving.hyps(3) ok have "int (target_count sv w) + int (length (filter admitted ?ts)) \<le> MaxTargets l + int k - 1"
    proof (cases rule: target_step_cases)
      case same
      then show ?thesis using moving.IH A by (auto split: if_splits)
    next
      case admit
      have "effLimits sv (cw_web u) = l" using moving.IH assms(7,8) by (simp add: effLimits_def)
      then show ?thesis using admit assms(9) few [of ?ts] P by (simp add: canAdd_def)
    next
      case add
      then show ?thesis using moving.IH A by auto
    qed
    then show ?case using moving.IH P keeps(1,2) by simp
  next
    case (asking u q E r w js)
    have "web_sched w = web_sched (cw_web u)" by (rule other_requests_registry [OF asking.hyps(4,2,3)])
    then show ?case
      using asking.IH keyless_stays_free [OF assms(5) _ asking.hyps(4)] by (simp add: target_count_def)
  qed auto
  then show ?thesis by linarith
qed

text \<open>A schedule of the tasks.\<close>

fun take_turns :: "('w, 'o) server \<Rightarrow> nat list \<Rightarrow> 'w crowd \<Rightarrow> 'w crowd" where
  "take_turns sv [] u = u"
| "take_turns sv (i # is) u =
     (if i < length (cw_tasks u) then
        (case target_step sv (cw_tasks u ! i) (cw_web u) of
           (t, w) \<Rightarrow> take_turns sv is (u\<lparr>cw_tasks := (cw_tasks u)[i := t], cw_web := w\<rparr>))
      else take_turns sv is u)"

lemma take_turns_crowded: "crowded sv k s u \<Longrightarrow> crowded sv k s (take_turns sv is u)"
proof (induction "is" arbitrary: u)
  case (Cons i "is")
  then show ?case using crowded.moving [OF Cons.prems] by (auto split: prod.split)
qed simp

text \<open>Two requests on the sample dashboard, whose limit is one: both count before either adds.\<close>

definition demo_crowd :: "unit crowd" where
  "demo_crowd = \<lparr>cw_web = demo_web, cw_tasks = [AddTask (Received ''a.b''), AddTask (Received ''c.d'')]\<rparr>"

lemma limit_overrun_bounded_witness:
  "target_count demo_server (cw_web (take_turns demo_server [0, 1, 0, 1, 0, 1] demo_crowd)) = 2
   \<and> int (target_count demo_server (cw_web (take_turns demo_server [0, 1, 0, 1, 0, 1] demo_crowd))) \<le> MaxTargets one_target + 1"
proof
  show "target_count demo_server (cw_web (take_turns demo_server [0, 1, 0, 1, 0, 1] demo_crowd)) = 2" by code_simp
  let ?s = "\<lparr>cw_web = demo_web, cw_tasks = []\<rparr>"
  have "crowded demo_server 2 ?s demo_crowd"
    using crowded.adding [OF crowded.adding [OF crowded.alone [of demo_server 2 ?s]], of "''a.b''" "''c.d''"]
    by (simp add: demo_crowd_def)
  note run = take_turns_crowded [OF this, of "[0, 1, 0, 1, 0, 1]"]
  have free: "length (sv_IssuerPub demo_server) \<noteq> PublicKeySize" "act_Tier (web_activation (cw_web ?s)) = TierFree"
    "sv_TierLimits demo_server = Some [(TierFree, one_target)]" "map_of [(TierFree, one_target)] TierFree = Some one_target"
    "0 < MaxTargets one_target" "sched_ok (web_sched (cw_web ?s))"
    by (simp_all add: demo_server_def PublicKeySize_def demo_web_def free_activation_def one_target_def demo_sched_ok)
  have "int (target_count demo_server (cw_web ?s)) \<le> MaxTargets one_target"
    unfolding target_count_def demo_server_module_ID by (simp add: demo_web_def one_target_def demo_ListTargets)
  from limit_overrun_bounded [OF run _ _ free(6,1-5) this]
  show "int (target_count demo_server (cw_web (take_turns demo_server [0, 1, 0, 1, 0, 1] demo_crowd))) \<le> MaxTargets one_target + 1"
    by simp
qed

subsection \<open>An addition and a removal of one target at once\<close>

text \<open>
  (C17) The registry and the saved targets can part. A user adds a target and another removes it. If the
  removal runs between the registration and the saving, the target is not monitored but stays
  saved, so the next start monitors it again. If the addition runs between the two steps of the removal,
  the target is monitored but not saved, so the next start forgets it. Both requests are answered with
  success, and the database works throughout.
\<close>

theorem add_and_remove_part:
  assumes "add_step sv (Admitted raw) s = (Monitored t, s1, js)" "Canonical t \<noteq> []"
    and "faults (web_db s) = []" "sql_targets_good (web_db s)"
  shows "(case handleRemoveTarget sv (Canonical t) s1 of (r, s2) \<Rightarrow>
      case add_step sv (Monitored t) s2 of (p, u, js) \<Rightarrow>
        r = writeJSON OkBody \<and> p = AddAnswered (writeJSON (CanonicalBody (Canonical t)))
        \<and> Canonical t \<notin> dom (registered (web_sched u) (module_ID (sv_Module sv))) \<and> Canonical t \<in> saved_canonicals sv u)
    \<and> (case add_step sv (Monitored t) s1 of (p, s2, js) \<Rightarrow>
      case remove_step sv (Unregistered (Canonical t)) s2 of (q, v) \<Rightarrow>
        p = AddAnswered (writeJSON (CanonicalBody (Canonical t))) \<and> q = RemoveAnswered (writeJSON OkBody)
        \<and> Canonical t \<in> dom (registered (web_sched v) (module_ID (sv_Module sv))) \<and> Canonical t \<notin> saved_canonicals sv v)"
proof -
  let ?m = "module_ID (sv_Module sv)" and ?c = "Canonical t"
  have tgt: "sv_Targets sv" and d1: "web_db s1 = web_db s"
    and reg: "registered (web_sched s1) ?m ?c = Some t"
    using assms(1) registered_AddTarget [where s = "web_sched s"]
    by (auto split: sum.splits prod.splits if_splits)
  obtain d2 where del: "sql_DeleteTarget ?m ?c (web_db s) = (None, d2)"
    using targets_statement_succeeds(2) [OF assms(3)] by (metis prod.collapse)
  have d2: "faults d2 = []" "sql_targets_good d2"
    using DeleteTarget_findings [OF del] sql_t.delete_content [OF assms(4) del] assms(3) by auto
  obtain d3 where save: "sql_SaveTarget ?m (Raw t) ?c d2 = (None, d3)"
    using targets_statement_succeeds(1) [OF d2(1)] by (metis prod.collapse)
  obtain d4 where save': "sql_SaveTarget ?m (Raw t) ?c (web_db s) = (None, d4)"
    using targets_statement_succeeds(1) [OF assms(3)] by (metis prod.collapse)
  have d4: "faults d4 = []" "sql_targets_good d4"
    using SaveTarget_findings [OF save'] sql_t.save_content [OF assms(4) save'] assms(3) by auto
  obtain d5 where del': "sql_DeleteTarget ?m ?c d4 = (None, d5)"
    using targets_statement_succeeds(2) [OF d4(1)] by (metis prod.collapse)
  have "?c \<in> snd ` set (sql_targets_of d3 ?m)" "?c \<notin> snd ` set (sql_targets_of d5 ?m)"
    using sql_t.save_content [OF d2(2) save] sql_t.delete_content [OF d4(2) del'] by force+
  then show ?thesis
    using assms(2) tgt d1 reg del save save' del'
    by (auto simp: handleRemoveTarget_def Let_def saved_canonicals_def registered_RemoveTarget)
qed

lemma add_and_remove_part_witness:
  "\<exists>t s1 js. add_step demo_server (Admitted ''a.b'') demo_web = (Monitored t, s1, js)
     \<and> ''a.b'' \<in> saved_canonicals demo_server
          (fst (snd (add_step demo_server (Monitored t) (snd (handleRemoveTarget demo_server ''a.b'' s1)))))"
proof -
  have "(case add_step demo_server (Admitted ''a.b'') demo_web of (Monitored t, s1, js) \<Rightarrow> Canonical t = ''a.b'' | _ \<Rightarrow> False)"
    by code_simp
  then obtain t s1 js where run: "add_step demo_server (Admitted ''a.b'') demo_web = (Monitored t, s1, js)"
    and c: "Canonical t = ''a.b''" by (auto split: prod.splits add_phase.splits)
  have "faults (web_db demo_web) = []" "sql_targets_good (web_db demo_web)"
    using demo_web_ok by (simp_all add: web_ok_def demo_web_def demo_db_def)
  note part = conjunct1 [OF add_and_remove_part [OF run _ this]]
  obtain r s2 where rem: "handleRemoveTarget demo_server ''a.b'' s1 = (r, s2)" by fastforce
  obtain p u js' where save: "add_step demo_server (Monitored t) s2 = (p, u, js')" by (metis prod.exhaust)
  have "''a.b'' \<in> saved_canonicals demo_server u"
    using part by (simp add: c rem save del: add_step.simps)
  then show ?thesis using run rem save by (simp del: add_step.simps)
qed

end
