(* ===== verification/AsmMain.thy ===== *)
theory AsmMain
  imports AsmSystem
begin

section \<open>The program from its command line (\<open>cmd/asm/main.go\<close>)\<close>

text \<open>
  \<open>main\<close> up to the point where it serves requests, and its end. Parameters are the environment, the
  files it reads, the URL parser, the host name, the sinks, the issuer key baked in at build time, and
  the network behind the collector. The outcome is an exit with its status and message, or the
  running program; beside it stands what is then in the two databases.
\<close>

subsection \<open>Flags\<close>

record cli =
  cli_listen :: gostring
  cli_db :: gostring
  cli_license :: gostring
  cli_channels :: channel_flags
  cli_aiURL :: gostring
  cli_aiKeyFile :: gostring
  cli_aiLang :: gostring
  cli_aiNoThinking :: bool

text \<open>The flags when none is given on the command line.\<close>

definition default_cli :: "(gostring \<Rightarrow> gostring) \<Rightarrow> cli" where
  "default_cli getenv =
     \<lparr>cli_listen = ''127.0.0.1:8423'', cli_db = ''asm.db'', cli_license = ''asm-license.key'',
      cli_channels = registerChannelFlags,
      cli_aiURL = getenv ''ASM_AI_ASSIST_URL'', cli_aiKeyFile = getenv ''ASM_AI_ASSIST_KEY_FILE'',
      cli_aiLang = getenv ''ASM_AI_ASSIST_LANG'', cli_aiNoThinking = (getenv ''ASM_AI_ASSIST_NO_THINKING'' = ''1'')\<rparr>"

text \<open>
  \<open>base64.StdEncoding\<close>: the alphabet with plus and slash; line breaks are skipped; the text is filled
  with at most two padding characters to a multiple of four.
\<close>

definition std_url_char :: "char \<Rightarrow> char option" where
  "std_url_char c =
     (if c = CHR ''-'' \<or> c = CHR ''_'' then None
      else if c = CHR ''+'' then Some (CHR ''-'') else if c = CHR ''/'' then Some (CHR ''_'') else Some c)"

definition std_decode :: "gostring \<Rightarrow> gostring option" where
  "std_decode s =
     (let t = filter (\<lambda>c. c \<noteq> mkbyte 10 \<and> c \<noteq> mkbyte 13) s;
          body = rev (dropWhile (\<lambda>c. c = CHR ''='') (rev t))
      in if length t mod 4 \<noteq> 0 \<or> length t - length body > 2 then None
         else if list_ex (\<lambda>c. std_url_char c = None) body then None
         else b64_decode (map (\<lambda>c. the (std_url_char c)) body))"

text \<open>The issuer key: empty when none was baked in or when it does not decode.\<close>

definition issuer_key :: "gostring \<Rightarrow> gostring" where
  "issuer_key b64 = (if b64 = [] then [] else case std_decode b64 of Some b \<Rightarrow> b | None \<Rightarrow> [])"

text \<open>\<open>evidenceMode\<close>; \<open>unknown\<close> is what the parser of \<open>hexward-core\<close> returns beside its failure.\<close>

definition evidenceMode :: "('o, 't) sink_lib \<Rightarrow> 'o \<Rightarrow> channel_flags \<Rightarrow> 'o" where
  "evidenceMode K unknown c = (case ParseEvidenceMode K (f_evidence c) of Some m \<Rightarrow> m | None \<Rightarrow> unknown)"

subsection \<open>Opening the stores\<close>

text \<open>
  Both constructors create their tables unless they exist, so on a database with tables they change
  nothing.
\<close>

definition NewSQLiteStore :: "sqldb \<Rightarrow> goerror option \<times> sqldb" where
  "NewSQLiteStore d =
     (case exec d of (Some e, d) \<Rightarrow> (Some (''sqlite migrate: '' @ e), d) | (None, d) \<Rightarrow> (None, d))"

definition open_verify_store :: "vdb \<Rightarrow> goerror option \<times> vdb" where
  "open_verify_store v = vexec v"

subsection \<open>Start\<close>

record ('o, 't) surroundings =
  sql_Open :: "gostring \<Rightarrow> goerror option"
  os_ReadFile :: "gostring \<Rightarrow> goerror + gostring"
  os_Hostname :: gostring
  url_Parse :: "gostring \<Rightarrow> (gostring \<times> gostring) option"
  unknown_mode :: 'o
  sinks :: "('o, 't) sink_lib"
  license_code :: license_lib

record ('o, 't) program =
  pr_server :: "(world, 'o) server"
  pr_web :: "world web"
  pr_channels :: "('o, 't) channel list"
  pr_dispatcher :: "dispatcher option"
  pr_listen :: gostring

datatype ('o, 't) outcome = Exited nat gostring | Running "('o, 't) program"

definition fatal :: "gostring \<Rightarrow> ('o, 't) outcome" where
  "fatal msg = Exited 1 (''asm: '' @ msg)"

text \<open>The notifier's configuration: every field left to its default.\<close>

definition default_notify :: notify_config where
  "default_notify = \<lparr>FlushInterval = 0, MaxBatch = 0, MinSeverity = [], Retries = 0, RetryDelay = 0\<rparr>"

definition asm_main ::
  "('o, 't) surroundings \<Rightarrow> world collector \<Rightarrow> gostring \<Rightarrow> cli \<Rightarrow> instant \<Rightarrow> sqldb \<Rightarrow> world \<Rightarrow>
   ('o, 't) outcome \<times> sqldb \<times> world" where
  "asm_main R col issuerPublicKeyB64 c now d w =
     (case sql_Open R (cli_db c) of
        Some e \<Rightarrow> (fatal (''open database: '' @ e), d, w)
      | None \<Rightarrow>
     (case NewSQLiteStore d of
        (Some e, d) \<Rightarrow> (fatal e, d, w)
      | (None, d) \<Rightarrow>
     (case open_verify_store (sys_challenges w) of
        (Some e, v) \<Rightarrow> (fatal e, d, w\<lparr>sys_challenges := v\<rparr>)
      | (None, v) \<Rightarrow>
     (let w = w\<lparr>sys_challenges := v\<rparr> in
      case Register col (sched_New zero_config) of
        (Some e, _) \<Rightarrow> (fatal e, d, w)
      | (None, sc) \<Rightarrow>
     (let mi = Describe col;
          (saved, d) = sql_ListSavedTargets (module_ID mi) d;
          (sc, w) = (case saved of Inl _ \<Rightarrow> (sc, w) | Inr raws \<Rightarrow> restore (module_ID mi) raws sc w);
          meta = \<lparr>m_Product = module_ID mi, m_Version = module_Version mi, m_Host = os_Hostname R\<rparr>;
          sv = \<lparr>sv_Module = mi, sv_ExportMeta = \<lparr>m_Product = [], m_Version = [], m_Host = []\<rparr>,
                sv_ExportEvidence = unknown_mode R, sv_Targets = False, sv_TierLimits = None, sv_Verify = None,
                sv_IssuerPub = issuer_key issuerPublicKeyB64, sv_LicenseFile = cli_license c, sv_AI = None\<rparr>;
          s = NewServer (license_code R) sv d sc w
                (case os_ReadFile R (cli_license c) of Inl _ \<Rightarrow> None | Inr b \<Rightarrow> Some b) now;
          sv = sv\<lparr>sv_ExportMeta := meta, sv_ExportEvidence := evidenceMode (sinks R) (unknown_mode R) (cli_channels c)\<rparr>
      in case NewAIAssist (url_Parse R) (os_ReadFile R)
                \<lparr>cfg_URL = cli_aiURL c, cfg_KeyFile = cli_aiKeyFile c, cfg_Language = cli_aiLang c,
                 cfg_NoThinking = cli_aiNoThinking c\<rparr> of
           Inl e \<Rightarrow> (Exited 2 (''asm: '' @ e), d, w)
         | Inr ai \<Rightarrow>
     (let sv = sv\<lparr>sv_AI := ai, sv_Targets := True, sv_TierLimits := Some asmTierLimits,
                  sv_Verify := Some asm_challenges\<rparr>
      in case build (sinks R) meta (cli_channels c) of
           Inl e \<Rightarrow> (Exited 2 (''asm: '' @ e), d, w)
         | Inr chs \<Rightarrow>
     (let disp = (if chs \<noteq> [] then Some (NewDispatcher default_notify) else None)
      in case sched_Start False (web_sched s) of
           (Some e, _) \<Rightarrow> (fatal e, d, w)
         | (None, sc, _) \<Rightarrow>
             (Running \<lparr>pr_server = sv, pr_web = s\<lparr>web_sched := sc\<rparr>, pr_channels = chs, pr_dispatcher = disp,
                       pr_listen = cli_listen c\<rparr>, d, w))))))))"

text \<open>The two configurations a user can get wrong, as \<open>main\<close> reads them.\<close>

definition ai_setting :: "('o, 't) surroundings \<Rightarrow> cli \<Rightarrow> goerror + ai_assist option" where
  "ai_setting R c = NewAIAssist (url_Parse R) (os_ReadFile R)
     \<lparr>cfg_URL = cli_aiURL c, cfg_KeyFile = cli_aiKeyFile c, cfg_Language = cli_aiLang c,
      cfg_NoThinking = cli_aiNoThinking c\<rparr>"

definition channel_setting :: "('o, 't) surroundings \<Rightarrow> module_info \<Rightarrow> cli \<Rightarrow> goerror + ('o, 't) channel list" where
  "channel_setting R mi c =
     build (sinks R) \<lparr>m_Product = module_ID mi, m_Version = module_Version mi, m_Host = os_Hostname R\<rparr> (cli_channels c)"

lemma started_restore: "started (fst (restore m raws s w)) = started s"
proof (induction m raws s w rule: restore.induct)
  case (2 m raw rest s w)
  obtain x s' w' js where add: "AddTarget m raw s w = (x, s', w', js)" by (cases "AddTarget m raw s w") auto
  then have "started s' = started s"
    by (auto simp: AddTarget_def split: option.splits prod.splits sum.splits)
  with 2 add show ?case by simp
qed simp

text \<open>The databases open and their tables are there.\<close>

definition stores_open :: "('o, 't) surroundings \<Rightarrow> cli \<Rightarrow> sqldb \<Rightarrow> world \<Rightarrow> bool" where
  "stores_open R c d w \<longleftrightarrow> sql_Open R (cli_db c) = None \<and> fst (NewSQLiteStore d) = None
     \<and> fst (open_verify_store (sys_challenges w)) = None"

lemma NewSQLiteStore_tables: "NewSQLiteStore d = (x, d') \<Longrightarrow> findings d' = findings d \<and> targets d' = targets d"
  using exec_tables by (auto simp: NewSQLiteStore_def split: prod.splits option.splits)

text \<open>With the stores open, \<open>main\<close> comes to the settings with nothing stored and nothing started.\<close>

lemma main_before_settings:
  assumes "module_ID (Describe col) \<noteq> []" "stores_open R c d w"
  obtains d1 v sc saved d2 sc1 w1 where "sql_Open R (cli_db c) = None" "NewSQLiteStore d = (None, d1)"
    "open_verify_store (sys_challenges w) = (None, v)" "Register col (sched_New zero_config) = (None, sc)"
    "sql_ListSavedTargets (module_ID (Describe col)) d1 = (saved, d2)"
    "(case saved of Inl _ \<Rightarrow> (sc, w\<lparr>sys_challenges := v\<rparr>)
      | Inr raws \<Rightarrow> restore (module_ID (Describe col)) raws sc (w\<lparr>sys_challenges := v\<rparr>)) = (sc1, w1)"
    "started sc1 = False" "findings d2 = findings d \<and> targets d2 = targets d"
proof -
  let ?m = "module_ID (Describe col)"
  obtain d1 v where store: "NewSQLiteStore d = (None, d1)" "open_verify_store (sys_challenges w) = (None, v)"
    using assms(2) unfolding stores_open_def by (metis prod.collapse)
  obtain sc where reg: "Register col (sched_New zero_config) = (None, sc)" and new: "started sc = False"
    using assms(1) by (auto simp: Register_def sched_New_def Let_def)
  obtain saved d2 where saved: "sql_ListSavedTargets ?m d1 = (saved, d2)" by fastforce
  then have "findings d2 = findings d1 \<and> targets d2 = targets d1"
    using exec_tables by (auto simp: sql_ListSavedTargets_def split: prod.splits option.splits)
  then have d2: "findings d2 = findings d \<and> targets d2 = targets d" using NewSQLiteStore_tables [OF store(1)] by simp
  let ?w = "w\<lparr>sys_challenges := v\<rparr>"
  obtain sc1 w1 where res: "(case saved of Inl _ \<Rightarrow> (sc, ?w) | Inr raws \<Rightarrow> restore ?m raws sc ?w) = (sc1, w1)" by fastforce
  have "started sc1 = False"
    using res new started_restore [of ?m _ sc ?w] by (auto split: sum.splits) (metis fst_conv)
  with that store reg saved res d2 assms(2) show thesis by (auto simp: stores_open_def)
qed

lemma main_without_stores:
  assumes "\<not> stores_open R c d w" "asm_main R col b64 c now d w = (out, d', w')"
  shows "(\<exists>msg. out = Exited 1 msg) \<and> findings d' = findings d \<and> targets d' = targets d"
proof -
  obtain x d1 where store: "NewSQLiteStore d = (x, d1)" by fastforce
  obtain y v where vstore: "open_verify_store (sys_challenges w) = (y, v)" by fastforce
  have "(\<exists>msg. out = Exited 1 msg) \<and> d' \<in> {d, d1}"
    using assms by (auto simp: stores_open_def asm_main_def store vstore fatal_def split: option.splits)
  then show ?thesis using NewSQLiteStore_tables [OF store] by auto
qed

text \<open>
  (C19) How the program starts. A database that does not open ends it with status 1. Otherwise an
  unusable AI or channel setting ends it with status 2, before the scheduler has started; otherwise it
  runs: as \<open>boot\<close> describes, on the product's own tier table and the built-in issuer key, with the AI
  client and the channels of the settings, and with a dispatcher exactly when there is a channel. In
  every case no finding and no saved target was touched.
\<close>

theorem main_runs_or_exits:
  assumes "module_ID (Describe col) \<noteq> []" "asm_main R col b64 c now d w = (out, d', w')"
  shows "findings d' = findings d \<and> targets d' = targets d \<and>
    (case out of
       Exited code msg \<Rightarrow>
         if stores_open R c d w then code = 2 \<and> (isl (ai_setting R c) \<or> isl (channel_setting R (Describe col) c))
         else code = 1
     | Running p \<Rightarrow> stores_open R c d w
         \<and> ai_setting R c = Inr (sv_AI (pr_server p)) \<and> channel_setting R (Describe col) c = Inr (pr_channels p)
         \<and> (pr_dispatcher p = None \<longleftrightarrow> pr_channels p = [])
         \<and> sv_TierLimits (pr_server p) = Some asmTierLimits \<and> sv_IssuerPub (pr_server p) = issuer_key b64
         \<and> started (web_sched (pr_web p))
         \<and> boot (license_code R) col (pr_server p) (snd (NewSQLiteStore d))
             (w\<lparr>sys_challenges := snd (open_verify_store (sys_challenges w))\<rparr>)
             (case os_ReadFile R (cli_license c) of Inl _ \<Rightarrow> None | Inr b \<Rightarrow> Some b) now = Inr (pr_web p))"
proof (cases "stores_open R c d w")
  case False
  then show ?thesis using main_without_stores [OF False assms(2)] by auto
next
  case opens: True
  from main_before_settings [OF assms(1) opens] obtain d1 v sc saved d2 sc1 w1 where
    pre: "sql_Open R (cli_db c) = None" "NewSQLiteStore d = (None, d1)"
      "open_verify_store (sys_challenges w) = (None, v)" "Register col (sched_New zero_config) = (None, sc)"
      "sql_ListSavedTargets (module_ID (Describe col)) d1 = (saved, d2)"
      "(case saved of Inl _ \<Rightarrow> (sc, w\<lparr>sys_challenges := v\<rparr>)
        | Inr raws \<Rightarrow> restore (module_ID (Describe col)) raws sc (w\<lparr>sys_challenges := v\<rparr>)) = (sc1, w1)"
    and start: "started sc1 = False" and d2: "findings d2 = findings d \<and> targets d2 = targets d" .
  note main = asm_main_def Let_def pre ai_setting_def channel_setting_def
  show ?thesis
  proof (cases "isl (ai_setting R c) \<or> isl (channel_setting R (Describe col) c)")
    case True
    then have "(\<exists>msg. out = Exited 2 msg) \<and> d' = d2"
      using assms(2) by (auto simp: main isl_def split: sum.splits)
    then show ?thesis using opens True d2 by auto
  next
    case False
    then obtain a chs where set: "ai_setting R c = Inr a" "channel_setting R (Describe col) c = Inr chs"
      by (metis isl_def sum.exhaust)
    obtain p where p: "out = Running p" "d' = d2" "sv_AI (pr_server p) = a" "pr_channels p = chs"
      "pr_dispatcher p = (if chs \<noteq> [] then Some (NewDispatcher default_notify) else None)"
      "sv_TierLimits (pr_server p) = Some asmTierLimits" "sv_IssuerPub (pr_server p) = issuer_key b64"
      "sv_Module (pr_server p) = Describe col" "sv_LicenseFile (pr_server p) = cli_license c"
      "pr_web p = (NewServer (license_code R) (pr_server p) d2 sc1 w1
          (case os_ReadFile R (cli_license c) of Inl _ \<Rightarrow> None | Inr b \<Rightarrow> Some b) now)
            \<lparr>web_sched := sc1\<lparr>started := True, ctx_done := Some False\<rparr>\<rparr>"
      using assms(2) set start by (fastforce simp: main NewServer_def sched_Start_def)
    have "boot (license_code R) col (pr_server p) d1 (w\<lparr>sys_challenges := v\<rparr>)
        (case os_ReadFile R (cli_license c) of Inl _ \<Rightarrow> None | Inr b \<Rightarrow> Some b) now = Inr (pr_web p)"
      using p(10) start by (simp add: boot_def Let_def pre NewServer_def sched_Start_def)
    moreover have "started (web_sched (pr_web p))" using p(10) by simp
    ultimately show ?thesis using p set opens d2 by (simp add: pre)
  qed
qed

text \<open>A first start with a syslog and a file channel, and no AI sidecar.\<close>

definition demo_surroundings :: "(unit, unit) surroundings" where
  "demo_surroundings =
     \<lparr>sql_Open = (\<lambda>f. None), os_ReadFile = (\<lambda>f. Inl ''no such file''), os_Hostname = ''host'',
      url_Parse = (\<lambda>u. None), unknown_mode = (), sinks = demo_sinks,
      license_code = \<lparr>ed_sign = (\<lambda>k m. []), ed_verify = (\<lambda>k m s. False), lic_marshal = (\<lambda>l. None),
        lic_unmarshal = (\<lambda>b. None)\<rparr>\<rparr>"

definition demo_cli :: cli where
  "demo_cli = (default_cli (\<lambda>v. []))\<lparr>cli_channels := demo_flags\<rparr>"

definition demo_main_collector :: "world collector" where
  "demo_main_collector = asm_module demo_bytes (\<lambda>k. 7) demo_asm"

definition demo_main :: "(unit, unit) outcome \<times> sqldb \<times> world" where
  "demo_main = asm_main demo_surroundings demo_main_collector [] demo_cli 0 (sql_migrate []) demo_first"

lemma demo_settings:
  "ai_setting demo_surroundings demo_cli = Inr None"
  "channel_setting demo_surroundings mi demo_cli = Inr
     (let meta = \<lparr>m_Product = module_ID mi, m_Version = module_Version mi, m_Host = ''host''\<rparr>
      in [SyslogChannel ''h'' ''udp'', HFSChannel (FileSink ''x'') meta ()])"
  using set_TrimSpace [of "[]"]
  by (simp_all add: ai_setting_def channel_setting_def NewAIAssist_def demo_cli_def default_cli_def
      demo_surroundings_def Let_def demo_sinks_def build_def build_webhook_def build_syslog_def build_file_def
      build_hec_def demo_flags_def registerChannelFlags_def)

lemma main_runs_or_exits_witness:
  "\<exists>p. fst demo_main = Running p \<and> pr_dispatcher p \<noteq> None \<and> started (web_sched (pr_web p))"
proof -
  obtain out d' w' where run: "demo_main = (out, d', w')" by (metis prod.exhaust)
  have out: "fst demo_main = out" unfolding run by simp
  have pre: "module_ID (Describe demo_main_collector) \<noteq> []"
    by (simp add: demo_main_collector_def asm_module_def asm_Describe_def moduleID_def)
  have "stores_open demo_surroundings demo_cli (sql_migrate []) demo_first"
    by (simp add: stores_open_def demo_surroundings_def NewSQLiteStore_def open_verify_store_def exec_def vexec_def
        sql_migrate_def demo_first_def NewSQLiteVerifyStore_def)
  with main_runs_or_exits [OF pre run [unfolded demo_main_def]] demo_settings show ?thesis
    unfolding out by (cases out) (auto simp: Let_def)
qed

subsection \<open>Shutdown\<close>

text \<open>
  On a signal the context is done, and with it the scheduler's, which derives from it.
  \<open>ListenAndServe\<close> returns as soon as the listener is closed, so \<open>main\<close> runs its deferred calls and
  returns: it closes the dispatcher, without waiting for the goroutine that stops the scheduler.
\<close>

definition asm_shutdown :: "instant \<Rightarrow> ('o, 't) program \<Rightarrow> ('o, 't) program \<times> digest list" where
  "asm_shutdown now p =
     (let p = p\<lparr>pr_web := (pr_web p)\<lparr>web_sched := sched_cancel (web_sched (pr_web p))\<rparr>\<rparr>
      in case pr_dispatcher p of
           None \<Rightarrow> (p, [])
         | Some d \<Rightarrow> (let (d, out) = Close now d in (p\<lparr>pr_dispatcher := Some d\<rparr>, out)))"

lemma Enqueue_closed: "closed d \<Longrightarrow> Enqueue t e d = (d, [])"
  by (simp add: Enqueue_def)

lemma closed_drops: "closed d \<Longrightarrow> dispatcher_run (map (\<lambda>e. (t, DoEnqueue e)) es) d = (d, [])"
  by (induction es) (simp_all add: Enqueue_closed)

text \<open>
  (C20) The end of the program. Shutting down hands every pending event to the channels, in one last
  digest per module, and leaves nothing pending. But a scan that completes from then on, as the scans
  in progress may, tells nobody: its result changes nothing in the dispatcher and sends nothing,
  whatever it opened or resolved.
\<close>

theorem shutdown_drops_late_results:
  assumes "pr_dispatcher p = Some d" "asm_shutdown now p = (q, out)"
  shows "out = filter (\<lambda>dg. \<not> digest_Empty dg) (map (build_digest now) (pending d))
    \<and> (\<exists>e. pr_dispatcher q = Some e \<and> pending e = []
         \<and> (\<forall>prev t x. snd (on_result (prev :: (sched_result \<Rightarrow> unit) option) t x e) = (e, [])))"
proof -
  obtain e where e: "Close now d = (e, out)" "pr_dispatcher q = Some e"
    using assms by (auto simp: asm_shutdown_def Let_def split: prod.splits)
  then have "closed e" "pending e = []" "out = filter (\<lambda>dg. \<not> digest_Empty dg) (map (build_digest now) (pending d))"
    by (auto simp: Close_def flushLocked_def Let_def split: if_splits prod.splits)
  then show ?thesis using e(2) closed_drops by (auto simp: on_result_def)
qed

text \<open>A running program with one pending event.\<close>

definition demo_program :: "(unit, unit) program" where
  "demo_program = \<lparr>pr_server = demo_product, pr_web = demo_added, pr_channels = [SyslogChannel ''h'' ''udp''],
     pr_dispatcher = Some (fst (Enqueue 0 (demo_event ''a'') (NewDispatcher default_notify))),
     pr_listen = ''127.0.0.1:8423''\<rparr>"

lemma shutdown_drops_late_results_witness:
  "map (map fingerprint \<circ> d_Opened) (snd (asm_shutdown 5 demo_program)) = [[''a'']]"
proof -
  let ?d = "fst (Enqueue 0 (demo_event ''a'') (NewDispatcher default_notify))"
  obtain q out where run: "asm_shutdown 5 demo_program = (q, out)" by fastforce
  have "pr_dispatcher demo_program = Some ?d" by (simp add: demo_program_def)
  from shutdown_drops_late_results [OF this run]
  have "out = filter (\<lambda>dg. \<not> digest_Empty dg) (map (build_digest 5) (pending ?d))" by blast
  also have "map (map fingerprint \<circ> d_Opened) \<dots> = [[''a'']]" by code_simp
  finally show ?thesis unfolding run snd_conv .
qed

end
