(* ===== verification/AsmProduction.thy ===== *)
theory AsmProduction
  imports AsmCollector
begin

section \<open>The collector as the binary builds it (\<open>asm/discover.go\<close>, \<open>asm/collector.go\<close>)\<close>

text \<open>
  The default network helpers and the wiring of \<open>New\<close> over them. What remains a parameter is the
  network itself: the resolver's answers, what \<open>http.NewRequest\<close> says of a URL, and what the HTTP
  client returns for one.
\<close>

text \<open>A reply: the bytes of its body and the error, if any, that reading ends with after them.\<close>

record http_reply =
  StatusCode :: int
  Status_text :: gostring
  Body :: gostring
  Body_error :: "goerror option"

record network =
  net_TXT :: "gostring \<Rightarrow> goerror + gostring list"
  net_Host :: "gostring \<Rightarrow> goerror + gostring list"
  net_request_error :: "gostring \<Rightarrow> goerror option"
  net_Do :: "gostring \<Rightarrow> goerror + http_reply"

definition body_cap :: nat where
  "body_cap = 8 * 2 ^ 20"

text \<open>\<open>io.ReadAll\<close> of a reader that stops at the cap.\<close>

definition read_capped :: "http_reply \<Rightarrow> gostring \<times> goerror option" where
  "read_capped r =
     (if length (Body r) \<ge> body_cap then (take body_cap (Body r), None) else (Body r, Body_error r))"

definition httpGet :: "network \<Rightarrow> gostring \<Rightarrow> goerror + gostring" where
  "httpGet net url =
     (case net_request_error net url of
        Some e \<Rightarrow> Inl e
      | None \<Rightarrow>
          (case net_Do net url of
             Inl e \<Rightarrow> Inl e
           | Inr resp \<Rightarrow>
               if StatusCode resp < 200 \<or> StatusCode resp > 299 then
                 Inl (''GET '' @ url @ '': '' @ Status_text resp)
               else (case read_capped resp of (b, Some e) \<Rightarrow> Inl e | (b, None) \<Rightarrow> Inr b)))"

definition resolves :: "network \<Rightarrow> gostring \<Rightarrow> bool" where
  "resolves net host = (case net_Host net host of Inl e \<Rightarrow> False | Inr addrs \<Rightarrow> length addrs > 0)"

definition lookup_TXT :: "network \<Rightarrow> gostring \<Rightarrow> goerror + gostring list" where
  "lookup_TXT net name = net_TXT net name"

definition newDiscoverer :: "network \<Rightarrow> (gostring \<Rightarrow> goerror + gostring list) \<Rightarrow> discoverer" where
  "newDiscoverer net rows =
     \<lparr>disc_httpGet = httpGet net, disc_rows = rows, disc_resolve = resolves net, ctBudget = 500\<rparr>"

definition production_verifier :: "network \<Rightarrow> verifier" where
  "production_verifier net = \<lparr>LookupTXT = Some (lookup_TXT net), FetchHTTP = Some (httpGet net)\<rparr>"

definition asm_production ::
  "network \<Rightarrow> (gostring \<Rightarrow> goerror + gostring list) \<Rightarrow> (gostring list \<Rightarrow> gostring list) \<Rightarrow>
   (int \<times> port_class) list \<Rightarrow> (nat \<Rightarrow> goerror option) \<Rightarrow> (gostring \<Rightarrow> bool) \<Rightarrow> tls_lib \<Rightarrow>
   (gostring \<Rightarrow> goerror + tls_state) \<Rightarrow> instant \<Rightarrow> (gostring \<Rightarrow> gostring) \<Rightarrow> asm" where
  "asm_production net rows name_order port_order cancel dial lib conn now sha256 =
     asm_New (production_verifier net) (newDiscoverer net rows) name_order port_order cancel dial lib conn now sha256"

text \<open>\<open>Diff\<close>: this module leaves the comparison of two scans to the engine.\<close>

definition asm_Diff :: "finding list \<Rightarrow> finding list \<Rightarrow> change list" where
  "asm_Diff prev cur = []"

subsection \<open>What counts as a proof on the wire\<close>

text \<open>
  (C23) What the shipped verifier accepts. A challenge is satisfied exactly when a TXT record of one of its
  two names is one of its two values, blanks around it aside, or one of its two URLs answers with a
  status from 200 to 299 a body that can be read, up to the cap, and is one of the two contents, blanks
  around it aside; a body under any other status is never a proof.
\<close>

theorem production_proof:
  "fst (Satisfied (production_verifier net) c) \<longleftrightarrow>
     (\<exists>name records r. name \<in> {DNSRecordName c, LegacyDNSRecordName c} \<and> net_TXT net name = Inr records
        \<and> r \<in> set records \<and> TrimSpace r \<in> {DNSRecordValue c, LegacyDNSRecordValue c})
     \<or> (\<exists>url resp. url \<in> {HTTPURL c, LegacyHTTPURL c} \<and> net_request_error net url = None
        \<and> net_Do net url = Inr resp \<and> 200 \<le> StatusCode resp \<and> StatusCode resp \<le> 299
        \<and> snd (read_capped resp) = None
        \<and> TrimSpace (take body_cap (Body resp)) \<in> {HTTPFileContents c, LegacyHTTPFileContents c})"
proof -
  have body: "fst (read_capped resp) = take body_cap (Body resp)" for resp
    by (simp add: read_capped_def)
  have got: "httpGet net url = Inr b \<longleftrightarrow>
      (\<exists>resp. net_request_error net url = None \<and> net_Do net url = Inr resp \<and> 200 \<le> StatusCode resp
        \<and> StatusCode resp \<le> 299 \<and> snd (read_capped resp) = None \<and> b = take body_cap (Body resp))" for url b
    by (auto simp: httpGet_def body [symmetric] split: option.splits sum.splits prod.splits)
  have dns: "dns_proof (production_verifier net) c \<longleftrightarrow>
      (\<exists>name records r. name \<in> {DNSRecordName c, LegacyDNSRecordName c} \<and> net_TXT net name = Inr records
        \<and> r \<in> set records \<and> TrimSpace r \<in> {DNSRecordValue c, LegacyDNSRecordValue c})"
    by (simp add: dns_proof_def production_verifier_def lookup_TXT_def)
  have http: "http_proof (production_verifier net) c \<longleftrightarrow>
      (\<exists>url b. url \<in> {HTTPURL c, LegacyHTTPURL c} \<and> httpGet net url = Inr b
        \<and> TrimSpace b \<in> {HTTPFileContents c, LegacyHTTPFileContents c})"
    by (simp add: http_proof_def production_verifier_def)
  show ?thesis unfolding Satisfied_fst dns http got by blast
qed

subsection \<open>How much a scan asks of the network\<close>

lemma length_concat_le: "(\<And>x. x \<in> set xs \<Longrightarrow> length (f x) \<le> k) \<Longrightarrow> length (concat (map f xs)) \<le> k * length xs"
  by (induction xs) (auto simp: add_mono)

lemma dns_holds_length: "length (snd (dns_holds lookup want names)) \<le> length names"
  by (induction names) (auto simp: Let_def split: prod.splits sum.splits)

lemma http_holds_length: "length (snd (http_holds fetch want urls)) \<le> length urls"
  by (induction urls) (auto simp: Let_def split: prod.splits sum.splits)

lemma Satisfied_length: "length (snd (snd (Satisfied v c))) \<le> 4"
proof -
  have d: "length (snd (case LookupTXT v of None \<Rightarrow> (False, [])
      | Some lookup \<Rightarrow> dns_holds lookup [DNSRecordValue c, LegacyDNSRecordValue c] [DNSRecordName c, LegacyDNSRecordName c])) \<le> 2"
    using dns_holds_length [of _ _ "[DNSRecordName c, LegacyDNSRecordName c]"] by (auto simp: numeral_2_eq_2 simp del: dns_holds.simps split: option.split)
  have h: "length (snd (case FetchHTTP v of None \<Rightarrow> (False, [])
      | Some fetch \<Rightarrow> http_holds fetch [HTTPFileContents c, LegacyHTTPFileContents c] [HTTPURL c, LegacyHTTPURL c])) \<le> 2"
    using http_holds_length [of _ _ "[HTTPURL c, LegacyHTTPURL c]"] by (auto simp: numeral_2_eq_2 simp del: http_holds.simps split: option.split)
  show ?thesis using d h by (auto simp: Satisfied_def Let_def simp del: dns_holds.simps http_holds.simps split: prod.split)
qed

lemma Discover_length:
  "length (snd (Discover d order root)) \<le> Suc (nat (ctBudget d))"
  "length (Hostnames (fst (Discover d order root))) \<le> Suc (nat (ctBudget d))"
proof -
  show "length (snd (Discover d order root)) \<le> Suc (nat (ctBudget d))"
    by (simp add: Discover_def Let_def split: prod.split)
  have "length (remdups (filter P (take k xs) @ [y])) \<le> Suc k" for P k and xs :: "gostring list" and y
    using length_remdups_leq [of "filter P (take k xs) @ [y]"] length_filter_le [of P "take k xs"]
    by (simp del: length_filter_le)
  then show "length (Hostnames (fst (Discover d order root))) \<le> Suc (nat (ctBudget d))"
    by (simp only: Discover_Hostnames [OF refl] length_sort)
qed

definition https_port :: "int \<Rightarrow> bool" where
  "https_port p \<longleftrightarrow> p = 443 \<or> p = 8443"

lemma probe_ports_length:
  assumes "probe_ports cancel dial host i order = (es, err, tr)"
  shows "length tr \<le> length order
    \<and> length (filter (\<lambda>e. https_port (e_Port e)) es) \<le> length (filter (\<lambda>(p, c). https_port p) order)"
  using assms
proof (induction order arbitrary: i es err tr)
  case (Cons pc order)
  obtain port c es1 err1 tr1 where pc: "pc = (port, c)" and rest: "probe_ports cancel dial host (Suc i) order = (es1, err1, tr1)"
    by (metis prod.exhaust)
  show ?case using Cons.IH [OF rest] Cons.prems by (auto simp: pc rest classify_def split: option.splits if_splits)
qed simp

lemma exposure_lookups:
  "length (concat (map (snd \<circ> exposure_findings a domain) es)) = length (filter (\<lambda>e. https_port (e_Port e)) es)"
  by (induction es) (auto simp: exposure_findings_def tlsFindings_def https_port_def Let_def)

lemma host_findings_length:
  assumes "Prober a = dialProbe cancel dial order"
  shows "length (snd (host_findings a domain sources host))
    \<le> length order + length (filter (\<lambda>(p, c). https_port p) order)"
proof -
  obtain es perr tr where p: "probe_ports cancel dial host 0 order = (es, perr, tr)" by (metis prod.exhaust)
  with probe_ports_length [OF p] show ?thesis
    by (simp add: host_findings_def Let_def assms dialProbe_def exposure_lookups add_mono)
qed

text \<open>
  (C24) The traffic of a scan is bounded, whatever the network answers: at most 4 proof lookups, one query
  to crt.sh, 500 resolutions, and per host, of which there are at most 501, one dial per port of the
  catalogue and two TLS handshakes: 9022 accesses in all.
\<close>

theorem scan_traffic_bounded:
  assumes "mset port_order = mset portCatalog"
    and "Collect get put (asm_production net rows name_order port_order cancel dial lib conn now sha256) t0 t s = (r, s', tr)"
  shows "length tr \<le> 9022"
proof -
  let ?a = "asm_production net rows name_order port_order cancel dial lib conn now sha256"
  have ports: "length port_order = 15" "length (filter (\<lambda>(p, c). https_port p) port_order) = 2"
  proof -
    show "length port_order = 15" using mset_eq_length [OF assms(1)] by (simp add: portCatalog_def)
    have "mset (filter (\<lambda>(p, c). https_port p) port_order) = mset (filter (\<lambda>(p, c). https_port p) portCatalog)"
      using assms(1) by (simp add: mset_filter)
    from mset_eq_length [OF this] show "length (filter (\<lambda>(p, c). https_port p) port_order) = 2"
      by (simp add: portCatalog_def https_port_def)
  qed
  have disc: "Discoverer ?a domain = (Inr as, tr1) \<Longrightarrow> length tr1 \<le> 501 \<and> length (Hostnames as) \<le> 501"
    and total: "\<exists>as. fst (Discoverer ?a domain) = Inr as" for domain as tr1
    using Discover_length [of "newDiscoverer net rows" name_order domain]
    by (auto simp: asm_production_def asm_New_def newDiscoverer_def split: prod.splits)
  have "length (snd (host_findings ?a domain sources host)) \<le> 17" for domain sources host
    using host_findings_length [of ?a cancel dial port_order] ports by (simp add: asm_production_def asm_New_def)
  then have assets: "length (snd (scan_assets ?a domain as)) \<le> 17 * length (Hostnames as)" for domain as
    unfolding scan_assets_def snd_conv by (intro length_concat_le) simp
  have inventory: "length tr1 + length (snd (scan_assets ?a domain as)) \<le> 9018"
    if "Discoverer ?a domain = (Inr as, tr1)" for domain as tr1
    using disc [OF that] assets [of domain as] by linarith
  obtain q s1 where get: "get moduleID (Canonical t) s = (q, s1)" by fastforce
  obtain x tr1 where D: "Discoverer ?a (Canonical t) = (x, tr1)" by fastforce
  then obtain as where as: "x = Inr as" using total [of "Canonical t"] by (metis fst_conv)
  obtain sat m tr0 where S: "Satisfied (Verifier ?a) ch = (sat, m, tr0)" if "q = Inr (Some ch)" for ch
    by (cases q) (metis prod.exhaust sum.inject(2) option.inject)+
  show ?thesis
  proof (cases "\<exists>ch. q = Inr (Some ch)")
    case False
    then consider e where "q = Inl e" | "q = Inr None" by (metis sum.exhaust option.exhaust)
    then show ?thesis using assms(2) get by cases (simp_all add: Collect_def Let_def)
  next
    case True
    then obtain ch where ch: "q = Inr (Some ch)" by blast
    have "length tr0 \<le> 4" using Satisfied_length [of "Verifier ?a" ch] S [OF ch] by simp
    then show ?thesis
      using assms(2) get ch D as S [OF ch] inventory [OF D [unfolded as]]
      by (auto simp: Collect_def Let_def split: if_splits prod.splits)
  qed
qed

text \<open>A scan of the verified sample domain over a network on which everything fails.\<close>

definition dead_network :: network where
  "dead_network = \<lparr>net_TXT = (\<lambda>n. Inl ''timeout''), net_Host = (\<lambda>h. Inl ''timeout''),
     net_request_error = (\<lambda>u. None), net_Do = (\<lambda>u. Inl ''timeout'')\<rparr>"

definition dead_scan :: "(goerror + finding list) \<times> vdb \<times> net_event list" where
  "dead_scan = Collect vsql_Get vsql_Put
     (asm_production dead_network (\<lambda>b. Inl ''json'') id portCatalog (\<lambda>i. None) (\<lambda>addr. False) demo_lib
        (\<lambda>addr. Inl ''refused'') 5 (\<lambda>x. replicate 32 (CHR ''a''))) 5 demo_target (demo_vdb StateVerified)"

lemma scan_traffic_bounded_witness: "length (snd (snd dead_scan)) \<le> 9022"
proof -
  obtain r s' tr where run: "dead_scan = (r, s', tr)" by (metis prod.exhaust)
  then have "tr = snd (snd dead_scan)" by (metis snd_conv)
  with scan_traffic_bounded [OF refl run [unfolded dead_scan_def]] show ?thesis by simp
qed

end
