(* ===== verification/Spec2Isabelle.thy ===== *)
theory Spec2Isabelle
  imports StoreProperties Ulid Announcements Interleaving TargetSteps AsmMain AsmProduction ScanSpec
    AsmOverlap
begin

text \<open>
  Attack Surface Monitor: a model of the program and its correctness.

  The program watches the internet-facing assets of domains whose ownership was proved. The
  scheduler (\<open>sched\<close>) runs the collector (\<open>asm\<close>) on each registered domain; the collector asks the
  ownership gate (\<open>verify\<close>), discovers host names, probes ports and grades TLS; the reconcile engine
  (\<open>store\<close>) compares what it found with the stored findings and names those that opened and those
  that resolved; the dispatcher (\<open>notify\<close>) turns these into digests for the channels; the dashboard
  (\<open>web\<close>) shows and edits the stored state under the limits of the license (\<open>license\<close>), and can have
  a finding narrated by a sidecar (\<open>internal/aiclient\<close>). \<open>cmd/asm\<close> wires them.

  Theories, and the source each models (definitions keep the names of the code; a prefix such as
  \<open>sql_\<close>, \<open>mem_\<close>, \<open>sched_\<close>, \<open>notify_\<close> or \<open>asm_\<close> tells apart methods of the same name):

  \<^item> \<open>Prelude\<close>, \<open>GoStrings\<close>, \<open>GoJson\<close>, \<open>GoStd\<close>: types, generic lemmas, and the part of Go's
    library the program calls (strings as bytes, UTF-8 runes, JSON encoding, dates, quoting).
  \<^item> \<open>CoreFinding\<close> (\<open>core/finding.go\<close>, \<open>core/collector.go\<close>): findings, severities, ingest check,
    fingerprints.
  \<^item> \<open>FindingStore\<close> (\<open>store/store.go\<close>, \<open>store/targets.go\<close>, \<open>store/memory.go\<close>): the locales
    \<open>finding_store\<close> and \<open>target_store\<close>, what a client of a store may rely on, and the in-memory store
    as an interpretation of both.
  \<^item> \<open>Reconcile\<close> (\<open>store/reconcile.go\<close>): the engine over any \<open>finding_store\<close>, its specification
    (one outcome per reported, absent or foreign fingerprint) and the lemmas of the refinement,
    proved once in the locale. \<open>SqliteStore\<close> (\<open>store/sqlite.go\<close>): tables, statements, driver faults,
    and the interpretations. \<open>ReconcileSqlite\<close>, \<open>StoreProperties\<close>: the contract read on the tables,
    histories of scans, success, round trips, retention, agreement of the two stores. \<open>ScanSpec\<close>: a
    specification of a scan by the reports of one fingerprint, that uses no function of the engine
    (\<open>after_report\<close>, \<open>after_absence\<close>), and the refinement of it, for reports that may repeat.
  \<^item> \<open>Ulid\<close> (\<open>store/ulid.go\<close>): the rendering on 64-bit words, its value and its order.
  \<^item> \<open>VerifyGate\<close> (\<open>verify/verify.go\<close>), \<open>ChallengeStore\<close> (\<open>verify/memstore.go\<close>,
    \<open>store/verify_sqlite.go\<close>, locale \<open>challenge_store\<close> with two interpretations).
  \<^item> \<open>TlsProbe\<close> (\<open>internal/tlsprobe\<close>), \<open>AsmDiscover\<close> (\<open>asm/discover.go\<close>), \<open>AsmCollector\<close>
    (\<open>asm/probe.go\<close>, \<open>asm/collector.go\<close>): grading, discovery, port probing, and the collector with
    the trace of every network access. \<open>AsmProduction\<close>: the default network helpers of both files and
    the collector \<open>New\<close> builds on them.
  \<^item> \<open>Scheduler\<close> (\<open>sched/scheduler.go\<close>): configuration, backoff and jitter, the registry, one scan,
    the bookkeeping of a loop. \<open>SchedulerRun\<close>: the running scheduler as a step relation.
  \<^item> \<open>Dispatcher\<close> (\<open>notify/notify.go\<close>, \<open>notify/bridge.go\<close>), \<open>NotifyChannels\<close>
    (\<open>notify/format.go\<close>, \<open>notify/channels.go\<close>, \<open>notify/hfs.go\<close>, \<open>hfsbridge\<close>).
  \<^item> \<open>License\<close> (\<open>license/license.go\<close>).
  \<^item> \<open>AiEvidence\<close> (\<open>internal/aiclient/evidence.go\<close>, \<open>types.go\<close>), \<open>AiClient\<close> (\<open>guard.go\<close>, \<open>client.go\<close>).
  \<^item> \<open>WebServer\<close> (\<open>web/server.go\<close>), \<open>WebAssist\<close> (\<open>web/ai.go\<close> and the router), \<open>WebProperties\<close> and
    \<open>WebAnswers\<close>: what sequences of requests keep, and what single answers say.
  \<^item> \<open>CmdAsm\<close> (\<open>cmd/asm/main.go\<close>, \<open>cmd/asm/channels.go\<close>): tier table, channel flags, start-up from
    the stores on. \<open>AsmMain\<close>: \<open>main\<close> itself, from the flags to the running program or an exit, and the
    shutdown.
  \<^item> \<open>Restart\<close>: the life of the program over requests, scans and restarts; the locale
    \<open>steady_collector\<close> states what a collector must promise for saved targets to come back.
  \<^item> \<open>AsmSystem\<close>: collector, engine and both databases in one scan; the collector as a
    \<open>steady_collector\<close>. \<open>AsmOverlap\<close>: the two halves of a scan with something in between, and a
    scan's result on its way through the dispatcher. \<open>Announcements\<close>: a scan that fails halfway.
  \<^item> \<open>ScanSteps\<close>: \<open>Reconcile\<close> and the status handler (\<open>store/reconcile.go\<close>, \<open>web/server.go\<close>) one
    statement at a time; the loop bodies are translated anew (\<open>merge_turn\<close>, \<open>age_turn\<close>) and shown to
    compute what \<open>Reconcile\<close> does. \<open>Interleaving\<close>: any number of such tasks at once, with the other requests of
    the dashboard between their statements, as the step relation \<open>interleaved\<close>. \<open>TargetSteps\<close>: the
    handlers that add and remove targets by their steps, any number at once (\<open>crowded\<close>).

  How state and effects correspond. A store, a registry, the dispatcher or the dashboard is a record
  and each method a function that returns its result with the state after it. A mutex makes a method
  atomic, so methods are composed as sequences; where the program is concurrent by design, in the
  scheduler, every goroutine is visible in the state and its moves are the rules of \<open>internal\<close>, those
  of the surroundings the rules of \<open>external\<close>. An error is a value: \<open>Inl\<close> of a sum, or \<open>Some\<close> text. A
  Go map is an association list with distinct keys whose order stands for the visiting order.
  What is outside the repository is an argument: the network (resolver, HTTP client, dials, and
  the sidecar's answers, attempt by attempt), the SQLite driver (a list of faults for the coming statements), the
  clock, entropy, SHA-256, Ed25519, the JSON decoders, files, and the sinks of \<open>hexward-core\<close>. The
  hypotheses made about them are in the statements: that Ed25519 accepts its own signatures and the
  license codec reads back what it wrote (invalid UTF-8 replaced), that ids drawn are unused, that a written file holds what
  was written, that float arithmetic rounds monotonically.

  What the groups of lemmas show.

  \<^item> Gate: nothing of an unverified domain is probed; a challenge becomes verified only on a
    published proof; what the shipped verifier takes for one; how much a scan asks of the network.
  \<^item> Engine: a scan leaves exactly what its specification names and announces exactly the changes;
    decisions of the user survive any history of scans; a finding no longer reported is resolved
    after exactly \<open>ResolveAfter\<close> scans; a scan succeeds unless a statement fails, and one that fails halfway has
    changes nobody is told of.
  \<^item> Interleaving: the scan by statements computes what the engine does when left alone; identities
    survive any interleaving; a suppression survives it when the
    tasks in progress have seen it; concurrent additions overrun the target limit by a bounded number;
    an addition and a removal can leave registry and saved targets different.
  \<^item> Scheduler: worker slots are bounded, the backoff is kept between any two scans, \<open>Stop\<close> ends;
    the registry is a finite map that refuses a second registration.
  \<^item> Dispatcher and channels: refinement of a one-list specification, no transition lost or
    announced twice, delivery attempts, no finding can forge a syslog record.
  \<^item> License: a paid tier needs a signature; issuing and activating agree; keys survive a restart.
  \<^item> AI client: what may leave the process, what \<open>Explain\<close> returns, and that it affects no finding.
  \<^item> Dashboard and start-up: who may change a finding, the target limit, the saved targets over any
    requests and a restart, the counts of the summary; how \<open>main\<close> starts, exits and ends.
  \<^item> System: one scan through all parts, errors included; a restart brings back exactly the domains
    monitored before; a stored change of status reaches the channels or the pending batch when its
    scan's result is handed over; a status
    set while a scan runs is lost.

  Bounds and fuel. No definition runs on fuel: loops are structural or have a measure (the retry loop
  of \<open>Explain\<close> and \<open>sendWithRetry\<close> on the attempts left, the sentence splitter on the text, the
  evidence sanitiser on the depth of foreign values). \<open>scan_steps\<close> takes the number of steps to
  make, and its theorem gives a number that is enough. \<open>stop_terminates\<close> bounds the steps
  left by the measure \<open>work\<close>. The backoff is written with its 64-bit wrap-around and shown free of it below
  \<open>2 ^ 62\<close> ns; the jitter is a rational computation under any monotone rounding.

  What is simplified. A float or a \<open>json.Number\<close> of evidence is the text it is written as, or no text
  when \<open>json.Marshal\<close> refuses it; integers read back from the database stay integers, and a
  \<open>json.Number\<close> too large for a float, which could be written but not read back, is left out, so the
  stored evidence is always readable. The absence streak is an integer without a width. The letters beyond ASCII that \<open>strings.ToLower\<close> maps are left as they are,
  except where the secret-key test needs its Kelvin sign and dotted I. Times are UTC and without a
  monotonic reading. The bytes of JSON requests and answers are not rendered, only those of evidence
  and of packets. A request of the dashboard is served before the next one starts, except where the
  theories named below split it; the scans it asks for are returned as jobs. The random bytes and the clock of the collector are streams, of which
  each call reads its own entry. A scan is one step except in \<open>AsmOverlap\<close>, where it is the listing
  and the writes, and in \<open>ScanSteps\<close> and \<open>Interleaving\<close>, where every statement is a step: the code has
  no transaction around them (see the findings of the manifest). There the requests other than a
  status change remain one step each; \<open>TargetSteps\<close> splits those that add and remove targets, where one
  call of the scheduler, which takes its lock twice, remains one step. The dispatcher's timer is
  \<open>DoFlush\<close>, which may come at any time.

  Not modelled: the page in the browser (\<open>web/static\<close>), the parsing of the command line, signal
  delivery and the HTTP listener (\<open>cmd/asm\<close>), redirects the HTTP client follows (a call of it
  is one network access here), the payload types of
  other products (\<open>internal/aiclient/types.go\<close>), which nothing here uses, tests, scripts and build
  files. They are input and output, generated or written by others, or unused.
\<close>

end
